(* ===== verification/Prelude.thy ===== *)
theory Prelude
  imports Complex_Main "HOL-Library.Char_ord" "HOL-Library.List_Lexorder"
    "HOL-Library.Sublist" "HOL-Library.Multiset"
begin

text \<open>
  Shared vocabulary of the development: the parts of the C++ standard library that the
  runner's sources use (\<^verbatim>\<open>std::string\<close> searches, \<^verbatim>\<open>std::map\<close>, exceptions,
  \<^verbatim>\<open>std::to_string\<close>) as executable HOL functions, with the lemmas the components rest on.

  \<^item> A \<^verbatim>\<open>std::string\<close> is a \<^typ>\<open>string\<close>: a list of bytes.
  \<^item> A \<^verbatim>\<open>std::map<K,V>\<close> is an association list with strictly increasing keys
    (type \<open>('k, 'v) omap\<close>), so that a range-for over the map is the list itself.  The order on
    \<^typ>\<open>string\<close> is the lexicographic order on unsigned bytes, as in
    \<^verbatim>\<open>std::char_traits<char>::compare\<close>.
  \<^item> An exception is a value of \<open>exn\<close>, a fallible function returns \<open>exn + 'a\<close>.
\<close>

named_theorems omap_simps "laws of the ordered map operations"
named_theorems str_simps "laws of the string searches"

section \<open>Exceptions\<close>

datatype exn =
    Runtime_error string
  | Invalid_argument string
  | Out_of_range string
  | Length_error string

type_synonym 'a result = "exn + 'a"

fun what :: "exn \<Rightarrow> string" where
  "what (Runtime_error m) = m"
| "what (Invalid_argument m) = m"
| "what (Out_of_range m) = m"
| "what (Length_error m) = m"

text \<open>Continue with a value, or pass the exception on.\<close>

fun rbind :: "'a result \<Rightarrow> ('a \<Rightarrow> 'b result) \<Rightarrow> 'b result" where
  "rbind (Inl e) k = Inl e"
| "rbind (Inr x) k = k x"

lemma rbind_Inr_iff: "rbind m k = Inr y \<longleftrightarrow> (\<exists>x. m = Inr x \<and> k x = Inr y)"
  by (cases m) auto

lemma rbind_cong [fundef_cong]:
  "m = m' \<Longrightarrow> (\<And>x. m' = Inr x \<Longrightarrow> k x = k' x) \<Longrightarrow> rbind m k = rbind m' k'"
  by (cases m') auto

text \<open>A loop over a list that stops at the first exception.\<close>

fun rmap :: "('a \<Rightarrow> 'b result) \<Rightarrow> 'a list \<Rightarrow> 'b list result" where
  "rmap f [] = Inr []"
| "rmap f (x # xs) = rbind (f x) (\<lambda>y. rbind (rmap f xs) (\<lambda>ys. Inr (y # ys)))"

fun rfold :: "('a \<Rightarrow> 'b \<Rightarrow> 'b result) \<Rightarrow> 'a list \<Rightarrow> 'b \<Rightarrow> 'b result" where
  "rfold f [] b = Inr b"
| "rfold f (x # xs) b = rbind (f x b) (rfold f xs)"

lemma rmap_Inr: "rmap f xs = Inr ys \<Longrightarrow> list_all2 (\<lambda>x y. f x = Inr y) xs ys"
  by (induction xs arbitrary: ys) (auto simp: rbind_Inr_iff)

lemma rmap_all_Inr: "(\<And>x. x \<in> set xs \<Longrightarrow> f x = Inr (g x)) \<Longrightarrow> rmap f xs = Inr (map g xs)"
  by (induction xs) auto

lemma rfold_invariant:
  assumes "rfold f xs b = Inr r" "I b" "\<And>x b b'. x \<in> set xs \<Longrightarrow> I b \<Longrightarrow> f x b = Inr b' \<Longrightarrow> I b'"
  shows "I r"
  using assms by (induction xs arbitrary: b) (auto simp: rbind_Inr_iff)

section \<open>Strings\<close>

definition starts_with :: "string \<Rightarrow> string \<Rightarrow> bool" where
  "starts_with s p \<longleftrightarrow> take (length p) s = p"

lemma starts_with_prefix: "starts_with s p \<longleftrightarrow> prefix p s"
  unfolding starts_with_def
  by (metis append_eq_conv_conj prefix_def take_is_prefix)

lemma starts_with_Nil [simp]: "starts_with s []"
  by (simp add: starts_with_def)

lemma starts_with_append [simp]: "starts_with (p @ s) p"
  by (simp add: starts_with_def)

lemma starts_with_split: "starts_with s p \<longleftrightarrow> (\<exists>r. s = p @ r)"
  by (auto simp: starts_with_prefix prefix_def)

text \<open>\<open>str_find p s\<close> is \<^verbatim>\<open>s.find(p)\<close>; \<^const>\<open>None\<close> stands for \<^verbatim>\<open>npos\<close>.\<close>

fun str_find :: "string \<Rightarrow> string \<Rightarrow> nat option" where
  "str_find p [] = (if p = [] then Some 0 else None)"
| "str_find p (c # cs) =
     (if starts_with (c # cs) p then Some 0 else map_option Suc (str_find p cs))"

text \<open>\<open>str_find_from p s n\<close> is \<^verbatim>\<open>s.find(p, n)\<close>.\<close>

definition str_find_from :: "string \<Rightarrow> string \<Rightarrow> nat \<Rightarrow> nat option" where
  "str_find_from p s n =
     (if length s < n then None else map_option (\<lambda>i. n + i) (str_find p (drop n s)))"

text \<open>\<open>str_rfind c s\<close> is \<^verbatim>\<open>s.rfind(c)\<close> for a single character.\<close>

fun str_rfind :: "char \<Rightarrow> string \<Rightarrow> nat option" where
  "str_rfind c [] = None"
| "str_rfind c (x # xs) =
     (case str_rfind c xs of Some i \<Rightarrow> Some (Suc i) | None \<Rightarrow> if x = c then Some 0 else None)"

lemma str_find_Some_split:
  "str_find p s = Some i \<Longrightarrow> s = take i s @ p @ drop (i + length p) s"
proof (induction s arbitrary: i)
  case Nil
  then show ?case by (simp split: if_splits)
next
  case (Cons c cs)
  show ?case
  proof (cases "starts_with (c # cs) p")
    case True
    with Cons.prems have "i = 0" by simp
    with True show ?thesis
      by (metis append_Nil append_take_drop_id add_0 starts_with_def take0)
  next
    case False
    with Cons.prems obtain j where j: "str_find p cs = Some j" "i = Suc j" by auto
    with Cons.IH show ?thesis by simp
  qed
qed

lemma str_find_Some_le: "str_find p s = Some i \<Longrightarrow> i + length p \<le> length s"
proof (induction s arbitrary: i)
  case Nil
  then show ?case by (simp split: if_splits)
next
  case (Cons c cs)
  then show ?case
    by (auto simp: starts_with_split split: if_splits)
      (metis length_Cons length_append le_add1)
qed

lemma str_find_None_iff: "str_find p s = None \<longleftrightarrow> \<not> sublist p s"
proof (induction s)
  case Nil
  then show ?case by simp
next
  case (Cons c cs)
  have "sublist p (c # cs) \<longleftrightarrow> prefix p (c # cs) \<or> sublist p cs"
    by (simp add: sublist_Cons_right)
  then show ?case using Cons by (simp add: starts_with_prefix)
qed

lemma str_find_first:
  "str_find p s = Some i \<Longrightarrow> j < i \<Longrightarrow> \<not> starts_with (drop j s) p"
proof (induction s arbitrary: i j)
  case Nil
  then show ?case by (simp split: if_splits)
next
  case (Cons c cs)
  then show ?case by (cases j) (auto split: if_splits)
qed

lemma str_find_single_None [str_simps]: "str_find [c] s = None \<longleftrightarrow> c \<notin> set s"
  by (induction s) (auto simp: starts_with_def)

lemma str_find_single_append [str_simps]:
  "c \<notin> set a \<Longrightarrow> str_find [c] (a @ c # b) = Some (length a)"
  by (induction a) (auto simp: starts_with_def)

lemma str_find_single_Some:
  assumes "str_find [c] s = Some i"
  shows "i < length s" "s ! i = c" "c \<notin> set (take i s)" "s = take i s @ c # drop (Suc i) s"
proof -
  show lt: "i < length s" using str_find_Some_le [OF assms] by simp
  from str_find_Some_split [OF assms] show eq: "s = take i s @ c # drop (Suc i) s" by simp
  show "s ! i = c"
    by (metis eq lt length_take min.absorb2 less_imp_le nth_append_length)
  show "c \<notin> set (take i s)"
  proof
    assume "c \<in> set (take i s)"
    then obtain j where j: "j < i" "j < length s" "s ! j = c"
      by (auto simp: in_set_conv_nth)
    then have "drop j s = c # drop (Suc j) s"
      by (simp add: Cons_nth_drop_Suc [symmetric])
    with str_find_first [OF assms j(1)] show False by (simp add: starts_with_def)
  qed
qed

lemma str_rfind_None [str_simps]: "str_rfind c s = None \<longleftrightarrow> c \<notin> set s"
  by (induction s) (auto split: option.splits)

lemma str_rfind_append [str_simps]:
  "c \<notin> set b \<Longrightarrow> str_rfind c (a @ c # b) = Some (length a)"
proof (induction a)
  case Nil
  then show ?case by (simp add: str_rfind_None [THEN iffD2])
qed simp

lemma str_rfind_Some:
  "str_rfind c s = Some i \<Longrightarrow> i < length s \<and> s = take i s @ c # drop (Suc i) s \<and> c \<notin> set (drop (Suc i) s)"
proof (induction s arbitrary: i)
  case (Cons x xs)
  show ?case
  proof (cases "str_rfind c xs")
    case None
    with Cons.prems show ?thesis by (auto simp: str_rfind_None split: if_splits)
  next
    case (Some j)
    with Cons show ?thesis by auto
  qed
qed simp

text \<open>A string between single quotes, as the messages print identifiers.\<close>

definition quoted :: "string \<Rightarrow> string" where
  "quoted s = CHR 0x27 # s @ [CHR 0x27]"

text \<open>ASCII case mapping, \<^verbatim>\<open>::tolower\<close> and \<^verbatim>\<open>::toupper\<close> in the C locale.\<close>

definition ascii :: "char \<Rightarrow> nat" where
  "ascii c = of_char c"

definition to_lower_char :: "char \<Rightarrow> char" where
  "to_lower_char c = (if 65 \<le> ascii c \<and> ascii c \<le> 90 then char_of (ascii c + 32) else c)"

definition to_upper_char :: "char \<Rightarrow> char" where
  "to_upper_char c = (if 97 \<le> ascii c \<and> ascii c \<le> 122 then char_of (ascii c - 32) else c)"

definition to_lower :: "string \<Rightarrow> string" where
  "to_lower s = map to_lower_char s"

definition to_upper :: "string \<Rightarrow> string" where
  "to_upper s = map to_upper_char s"

lemma ascii_less: "ascii c < 256"
  by (simp add: ascii_def)

lemma ascii_char_of: "n < 256 \<Longrightarrow> ascii (char_of n) = n"
  by (simp add: ascii_def)

lemma to_lower_char_idem: "to_lower_char (to_lower_char c) = to_lower_char c"
  using ascii_less [of c] by (auto simp: to_lower_char_def ascii_char_of)

lemma to_lower_idem: "to_lower (to_lower s) = to_lower s"
  by (simp add: to_lower_def to_lower_char_idem)

lemma length_to_lower [simp]: "length (to_lower s) = length s"
  by (simp add: to_lower_def)

text \<open>Character classes of \<^verbatim>\<open><cctype>\<close> in the C locale.\<close>

definition is_digit :: "char \<Rightarrow> bool" where
  "is_digit c \<longleftrightarrow> 48 \<le> ascii c \<and> ascii c \<le> 57"

definition is_alpha :: "char \<Rightarrow> bool" where
  "is_alpha c \<longleftrightarrow> 65 \<le> ascii c \<and> ascii c \<le> 90 \<or> 97 \<le> ascii c \<and> ascii c \<le> 122"

definition is_alnum :: "char \<Rightarrow> bool" where
  "is_alnum c \<longleftrightarrow> is_alpha c \<or> is_digit c"

definition is_space :: "char \<Rightarrow> bool" where
  "is_space c \<longleftrightarrow> ascii c = 32 \<or> 9 \<le> ascii c \<and> ascii c \<le> 13"

text \<open>\<^verbatim>\<open>std::to_string\<close> on integers.\<close>

definition digit_char :: "nat \<Rightarrow> char" where
  "digit_char d = char_of (48 + d)"

fun nat_to_string :: "nat \<Rightarrow> string" where
  "nat_to_string n = (if n < 10 then [digit_char n]
     else nat_to_string (n div 10) @ [digit_char (n mod 10)])"

declare nat_to_string.simps [simp del]

definition int_to_string :: "int \<Rightarrow> string" where
  "int_to_string i = (if i < 0 then ''-'' @ nat_to_string (nat (- i)) else nat_to_string (nat i))"

definition digit_val :: "char \<Rightarrow> nat" where
  "digit_val c = ascii c - 48"

definition dec_val :: "string \<Rightarrow> nat" where
  "dec_val s = foldl (\<lambda>acc c. acc * 10 + digit_val c) 0 s"

lemma digit_char_props:
  assumes "d < 10"
  shows "is_digit (digit_char d)" "digit_val (digit_char d) = d"
  using assms by (auto simp: is_digit_def digit_val_def digit_char_def ascii_char_of)

lemma nat_to_string_digits: "c \<in> set (nat_to_string n) \<Longrightarrow> is_digit c"
proof (induction n rule: nat_to_string.induct)
  case (1 n)
  show ?case
  proof (cases "n < 10")
    case True
    with "1.prems" show ?thesis
      by (simp add: nat_to_string.simps [of n] digit_char_props)
  next
    case False
    with "1" show ?thesis
      by (auto simp: nat_to_string.simps [of n] digit_char_props)
  qed
qed

lemma dec_val_nat_to_string: "dec_val (nat_to_string n) = n"
proof (induction n rule: nat_to_string.induct)
  case (1 n)
  show ?case
  proof (cases "n < 10")
    case True
    then show ?thesis
      by (simp add: nat_to_string.simps [of n] dec_val_def digit_char_props)
  next
    case False
    with "1" show ?thesis
      by (simp add: nat_to_string.simps [of n] dec_val_def digit_char_props)
  qed
qed

lemma nat_to_string_inj: "nat_to_string a = nat_to_string b \<Longrightarrow> a = b"
  by (metis dec_val_nat_to_string)

lemma nat_to_string_not_Nil: "nat_to_string n \<noteq> []"
  by (simp add: nat_to_string.simps [of n])

text \<open>
  \<^verbatim>\<open>std::filesystem::path::operator/\<close>: an absolute right operand replaces the left one, and a
  separator is inserted unless the left operand is empty or already ends in one.
\<close>

definition path_join :: "string \<Rightarrow> string \<Rightarrow> string" where
  "path_join d n =
     (if starts_with n ''/'' then n
      else if d = [] \<or> last d = CHR ''/'' then d @ n
      else d @ ''/'' @ n)"

lemma path_join_inj:
  "path_join d a = path_join d b \<Longrightarrow> \<not> starts_with a ''/'' \<Longrightarrow> \<not> starts_with b ''/'' \<Longrightarrow> a = b"
  by (auto simp: path_join_def split: if_splits)

text \<open>A URL without its trailing slashes.\<close>

definition strip_slashes :: "string \<Rightarrow> string" where
  "strip_slashes url = rev (dropWhile (\<lambda>c. c = CHR ''/'') (rev url))"

text \<open>
  \<^verbatim>\<open>std::getline\<close> until the stream ends: the pieces between newlines, where a trailing newline
  does not start another line.
\<close>

fun getlines_acc :: "string \<Rightarrow> string \<Rightarrow> string list" where
  "getlines_acc acc [] = (if acc = [] then [] else [rev acc])"
| "getlines_acc acc (c # cs) =
     (if c = CHR 0x0A then rev acc # getlines_acc [] cs else getlines_acc (c # acc) cs)"

definition getlines :: "string \<Rightarrow> string list" where
  "getlines s = getlines_acc [] s"

lemma getlines_Nil [simp]: "getlines [] = []"
  by (simp add: getlines_def)

lemma getlines_line [str_simps]:
  assumes "CHR 0x0A \<notin> set l"
  shows "getlines (l @ CHR 0x0A # s) = l # getlines s"
proof -
  have "CHR 0x0A \<notin> set l \<Longrightarrow> getlines_acc acc (l @ CHR 0x0A # s) = (rev acc @ l) # getlines_acc [] s" for acc
    by (induction l arbitrary: acc) auto
  from this [OF assms, of "[]"] show ?thesis by (simp add: getlines_def)
qed

lemma getlines_no_newline: "l \<in> set (getlines s) \<Longrightarrow> CHR 0x0A \<notin> set l"
proof -
  have "CHR 0x0A \<notin> set acc \<Longrightarrow> l \<in> set (getlines_acc acc s) \<Longrightarrow> CHR 0x0A \<notin> set l" for acc
    by (induction acc s rule: getlines_acc.induct) (auto split: if_splits)
  from this [of "[]"] show "l \<in> set (getlines s) \<Longrightarrow> CHR 0x0A \<notin> set l" by (simp add: getlines_def)
qed

text \<open>Strip one trailing carriage return, as the line readers of the sources do.\<close>

definition chomp_cr :: "string \<Rightarrow> string" where
  "chomp_cr l = (if l \<noteq> [] \<and> last l = CHR 0x0D then butlast l else l)"

definition no_cr :: "string \<Rightarrow> bool" where
  "no_cr l \<longleftrightarrow> l = [] \<or> last l \<noteq> CHR 0x0D"

lemma chomp_cr_id [simp]: "no_cr l \<Longrightarrow> chomp_cr l = l"
  by (auto simp: chomp_cr_def no_cr_def)

section \<open>Ordered maps\<close>

type_synonym ('k, 'v) omap = "('k \<times> 'v) list"
type_synonym 'v smap = "(string, 'v) omap"

fun omap_set :: "'k::linorder \<Rightarrow> 'v \<Rightarrow> ('k, 'v) omap \<Rightarrow> ('k, 'v) omap" where
  "omap_set k v [] = [(k, v)]"
| "omap_set k v ((k', v') # m) =
     (if k < k' then (k, v) # (k', v') # m
      else if k = k' then (k, v) # m
      else (k', v') # omap_set k v m)"

definition omap_get :: "('k, 'v) omap \<Rightarrow> 'k \<Rightarrow> 'v option" where
  "omap_get m k = map_of m k"

definition omap_has :: "('k, 'v) omap \<Rightarrow> 'k \<Rightarrow> bool" where
  "omap_has m k \<longleftrightarrow> omap_get m k \<noteq> None"

definition omap_erase :: "'k \<Rightarrow> ('k, 'v) omap \<Rightarrow> ('k, 'v) omap" where
  "omap_erase k m = filter (\<lambda>(k', _). k' \<noteq> k) m"

definition omap_ok :: "('k::linorder, 'v) omap \<Rightarrow> bool" where
  "omap_ok m \<longleftrightarrow> sorted_wrt (<) (map fst m)"

text \<open>
  The contract of \<^verbatim>\<open>std::map\<close> the clients rely on, and what follows from it for a loop that
  stores a sequence of pairs (\<^verbatim>\<open>for (auto& [k, v] : kvs) m[k] = v;\<close>).
\<close>

locale ordered_map =
  fixes empty :: 'm
    and lookup :: "'m \<Rightarrow> 'k \<Rightarrow> 'v option"
    and store :: "'k \<Rightarrow> 'v \<Rightarrow> 'm \<Rightarrow> 'm"
    and remove :: "'k \<Rightarrow> 'm \<Rightarrow> 'm"
    and ok :: "'m \<Rightarrow> bool"
  assumes lookup_empty: "lookup empty k = None"
    and lookup_store: "lookup (store k v m) k' = (if k' = k then Some v else lookup m k')"
    and lookup_remove: "lookup (remove k m) k' = (if k' = k then None else lookup m k')"
    and ok_empty: "ok empty"
    and ok_store: "ok m \<Longrightarrow> ok (store k v m)"
    and ok_remove: "ok m \<Longrightarrow> ok (remove k m)"
begin

lemma ok_store_all: "ok m \<Longrightarrow> ok (fold (\<lambda>(k, v). store k v) kvs m)"
  by (induction kvs arbitrary: m) (auto intro: ok_store)

lemma lookup_store_all:
  "lookup (fold (\<lambda>(k, v). store k v) kvs m) k =
     (case map_of (rev kvs) k of Some v \<Rightarrow> Some v | None \<Rightarrow> lookup m k)"
proof (induction kvs arbitrary: m)
  case Nil
  then show ?case by simp
next
  case (Cons kv kvs)
  obtain a b where "kv = (a, b)" by (cases kv)
  then show ?case
    using Cons by (auto simp: lookup_store map_add_def split: option.splits)
qed

lemma lookup_store_all_last:
  assumes "map_of (rev kvs) k = Some v"
  shows "lookup (fold (\<lambda>(k, v). store k v) kvs m) k = Some v"
  using assms by (simp add: lookup_store_all)

lemma lookup_store_all_other:
  assumes "k \<notin> fst ` set kvs"
  shows "lookup (fold (\<lambda>(k, v). store k v) kvs m) k = lookup m k"
proof -
  have "map_of (rev kvs) k = None"
    using assms by (simp add: map_of_eq_None_iff)
  then show ?thesis by (simp add: lookup_store_all)
qed

lemma lookup_remove_store: "lookup (remove k (store k v m)) k' = lookup (remove k m) k'"
  by (simp add: lookup_remove lookup_store)

end

lemma omap_get_Nil [simp]: "omap_get [] k = None"
  by (simp add: omap_get_def)

lemma omap_get_set [simp, omap_simps]:
  "omap_get (omap_set k v m) k' = (if k' = k then Some v else omap_get m k')"
  unfolding omap_get_def by (induction m) auto

lemma omap_get_erase [simp, omap_simps]:
  "omap_get (omap_erase k m) k' = (if k' = k then None else omap_get m k')"
  unfolding omap_get_def omap_erase_def by (induction m) auto

lemma keys_omap_set: "fst ` set (omap_set k v m) = insert k (fst ` set m)"
  by (induction k v m rule: omap_set.induct) (simp_all add: insert_commute)

lemma set_omap_set: "set (omap_set k v m) \<subseteq> insert (k, v) (set m)"
  by (induction k v m rule: omap_set.induct) auto

lemma omap_set_cases: "(k', v') \<in> set (omap_set k v m) \<Longrightarrow> (k', v') = (k, v) \<or> (k', v') \<in> set m"
  using set_omap_set by fastforce

lemma omap_ok_Nil [simp]: "omap_ok []"
  by (simp add: omap_ok_def)

lemma omap_ok_set [simp, intro]: "omap_ok m \<Longrightarrow> omap_ok (omap_set k v m)"
proof (induction m)
  case Nil
  then show ?case by (simp add: omap_ok_def)
next
  case (Cons a m)
  obtain k' v' where a: "a = (k', v')" by (cases a)
  from Cons.prems have ok: "omap_ok m" and below: "\<forall>x \<in> fst ` set m. k' < x"
    by (auto simp: omap_ok_def a)
  show ?case
  proof (cases "k \<le> k'")
    case True
    with Cons.prems show ?thesis by (fastforce simp: omap_ok_def a)
  next
    case False
    with Cons.IH [OF ok] below show ?thesis
      using keys_omap_set [of k v m] by (auto simp: omap_ok_def a)
  qed
qed

lemma omap_ok_filter: "omap_ok m \<Longrightarrow> omap_ok (filter P m)"
  unfolding omap_ok_def by (induction m) auto

lemma omap_ok_erase [simp, intro]: "omap_ok m \<Longrightarrow> omap_ok (omap_erase k m)"
  unfolding omap_erase_def by (rule omap_ok_filter)

interpretation smap: ordered_map "[]" omap_get omap_set omap_erase omap_ok
  by unfold_locales auto

lemma omap_ok_distinct: "omap_ok m \<Longrightarrow> distinct (map fst m)"
  unfolding omap_ok_def by (simp add: strict_sorted_iff)

lemma omap_get_Some_in: "omap_get m k = Some v \<Longrightarrow> (k, v) \<in> set m"
  by (simp add: omap_get_def map_of_SomeD)

lemma omap_get_in: "omap_ok m \<Longrightarrow> (k, v) \<in> set m \<Longrightarrow> omap_get m k = Some v"
  by (simp add: omap_get_def omap_ok_distinct map_of_is_SomeI)

lemma omap_has_iff: "omap_has m k \<longleftrightarrow> k \<in> fst ` set m"
  by (simp add: omap_has_def omap_get_def map_of_eq_None_iff)

lemma omap_get_None_iff: "omap_get m k = None \<longleftrightarrow> k \<notin> fst ` set m"
  by (simp add: omap_get_def map_of_eq_None_iff)

section \<open>Runs of a step relation\<close>

text \<open>
  Executions of a component whose threads interleave: a list of events, each taken by one step.  A
  property that every step keeps holds at the end of every run.
\<close>

inductive runs :: "('s \<Rightarrow> 'e \<Rightarrow> 's \<Rightarrow> bool) \<Rightarrow> 's \<Rightarrow> 'e list \<Rightarrow> 's \<Rightarrow> bool"
  for step where
  Runs_nil: "runs step s [] s"
| Runs_snoc: "runs step s es s' \<Longrightarrow> step s' e s'' \<Longrightarrow> runs step s (es @ [e]) s''"

lemma runs_one: "step s e s' \<Longrightarrow> runs step s [e] s'"
  using Runs_snoc [OF Runs_nil, of step s e s'] by simp

locale step_invariant =
  fixes step :: "'s \<Rightarrow> 'e \<Rightarrow> 's \<Rightarrow> bool" and inv :: "'s \<Rightarrow> bool"
  assumes inv_step: "step s e s' \<Longrightarrow> inv s \<Longrightarrow> inv s'"
begin

lemma inv_runs: "runs step s es s' \<Longrightarrow> inv s \<Longrightarrow> inv s'"
  by (induction rule: runs.induct) (auto intro: inv_step)

end

end
