(* ===== verification/Workflow_Types.thy ===== *)
theory Workflow_Types
  imports Prelude
begin

text \<open>
  The in-memory form of a workflow file: the structs of \<^verbatim>\<open>src/src/workflow/WorkflowParser.h\<close>
  as records, field by field, with the member functions of those structs.  A field is named after
  its struct (\<open>step_run\<close> for \<^verbatim>\<open>Step::run\<close>), and the \<open>default_\<close> constants are the default
  member initialisers.
\<close>

record step =
  step_id :: string
  step_name :: string
  step_uses :: string
  step_run :: string
  step_shell :: string
  step_working_dir :: string
  step_if_condition :: string
  step_env :: "string smap"
  step_with :: "string smap"
  step_continue_on_error :: bool
  step_timeout_minutes :: int

definition default_step :: step where
  "default_step = \<lparr>step_id = [], step_name = [], step_uses = [], step_run = [], step_shell = [],
     step_working_dir = [], step_if_condition = [], step_env = [], step_with = [],
     step_continue_on_error = False, step_timeout_minutes = 0\<rparr>"

record matrix =
  axes :: "string list smap"
  include_entries :: "string smap list"
  exclude_entries :: "string smap list"

definition matrix_empty :: "matrix \<Rightarrow> bool" where
  "matrix_empty m \<longleftrightarrow> axes m = [] \<and> include_entries m = []"

record job =
  job_id :: string
  job_name :: string
  job_runs_on :: "string list"
  job_if_condition :: string
  job_needs :: "string list"
  job_env :: "string smap"
  job_default_shell :: string
  job_default_working_dir :: string
  job_steps :: "step list"
  job_matrix :: "matrix option"
  job_timeout_minutes :: int
  job_continue_on_error :: bool
  job_fail_fast :: bool
  job_max_parallel :: int
  job_outputs :: "string smap"

definition default_job :: job where
  "default_job = \<lparr>job_id = [], job_name = [], job_runs_on = [], job_if_condition = [],
     job_needs = [], job_env = [], job_default_shell = [], job_default_working_dir = [],
     job_steps = [], job_matrix = None, job_timeout_minutes = 0, job_continue_on_error = False,
     job_fail_fast = True, job_max_parallel = 0, job_outputs = []\<rparr>"

record trigger_filter =
  tf_branches :: "string list"
  tf_branches_ignore :: "string list"
  tf_tags :: "string list"
  tf_tags_ignore :: "string list"
  tf_paths :: "string list"
  tf_paths_ignore :: "string list"
  tf_types :: "string list"
  tf_inputs :: "string list"

definition trigger_filter_empty :: "trigger_filter \<Rightarrow> bool" where
  "trigger_filter_empty t \<longleftrightarrow> tf_branches t = [] \<and> tf_branches_ignore t = [] \<and> tf_tags t = []
     \<and> tf_tags_ignore t = [] \<and> tf_paths t = [] \<and> tf_paths_ignore t = [] \<and> tf_types t = []"

record workflow =
  wf_name :: string
  wf_triggers :: "trigger_filter smap"
  wf_env :: "string smap"
  wf_default_shell :: string
  wf_default_working_dir :: string
  wf_jobs :: "job smap"
  wf_concurrency :: string
  wf_concurrency_cancel_in_progress :: bool

definition triggeredBy :: "workflow \<Rightarrow> string \<Rightarrow> bool" where
  "triggeredBy w event_name \<longleftrightarrow>
     (if wf_triggers w = [] then True else omap_has (wf_triggers w) event_name)"

end
