(* ===== verification/Matrix_Expander.thy ===== *)
theory Matrix_Expander
  imports Workflow_Types
begin

text \<open>
  \<^verbatim>\<open>src/src/workflow/MatrixExpander.cpp\<close>: expansion of a job matrix into concrete
  combinations.  The cross product is shown equal to a reference definition over the library's
  \<^const>\<open>product_lists\<close>; the include and exclude passes are characterised against it.
\<close>

type_synonym combo = "string smap"

definition matchesPattern :: "combo \<Rightarrow> combo \<Rightarrow> bool" where
  "matchesPattern combo pattern \<longleftrightarrow> (\<forall>(k, v) \<in> set pattern. omap_get combo k = Some v)"

definition expand_axis :: "string \<times> string list \<Rightarrow> combo list \<Rightarrow> combo list" where
  "expand_axis ax combinations =
     (case ax of (axis_name, values) \<Rightarrow>
        concat (map (\<lambda>combo. map (\<lambda>val. omap_set axis_name val combo) values) combinations))"

definition cross_product :: "string list smap \<Rightarrow> combo list" where
  "cross_product axs = fold expand_axis axs [[]]"

text \<open>The matching loop of the include pass: \<open>(all_axes_match, has_axis_key)\<close>, with its \<^verbatim>\<open>break\<close>.\<close>

fun include_scan :: "combo \<Rightarrow> combo \<Rightarrow> bool \<Rightarrow> bool \<times> bool" where
  "include_scan combo [] has_axis_key = (True, has_axis_key)"
| "include_scan combo ((k, v) # rest) has_axis_key =
     (case omap_get combo k of
        Some v' \<Rightarrow> if v' \<noteq> v then (False, True) else include_scan combo rest True
      | None \<Rightarrow> include_scan combo rest has_axis_key)"

definition include_matches :: "combo \<Rightarrow> combo \<Rightarrow> bool" where
  "include_matches entry combo =
     (case include_scan combo entry False of (all_match, has_key) \<Rightarrow> has_key \<and> all_match)"

definition augment :: "combo \<Rightarrow> combo \<Rightarrow> combo" where
  "augment entry combo =
     fold (\<lambda>(k, v) c. if omap_has c k then c else omap_set k v c) entry combo"

definition apply_include :: "combo \<Rightarrow> combo list \<Rightarrow> combo list" where
  "apply_include entry combinations =
     (let combinations' = map (\<lambda>c. if include_matches entry c then augment entry c else c) combinations
      in if list_ex (include_matches entry) combinations then combinations'
         else combinations' @ [entry])"

definition expandMatrix :: "matrix \<Rightarrow> combo list" where
  "expandMatrix m =
     (if matrix_empty m then []
      else filter (\<lambda>combo. \<not> list_ex (matchesPattern combo) (exclude_entries m))
             (fold apply_include (include_entries m) (cross_product (axes m))))"

section \<open>The cross product\<close>

lemma omap_set_snoc:
  "\<forall>x \<in> fst ` set m. x < k \<Longrightarrow> omap_set k v m = m @ [(k, v)]"
  by (induction m) auto

text \<open>Reference: pick one value per axis, in the lexicographic order of the choices.\<close>

definition choices :: "string list smap \<Rightarrow> combo list" where
  "choices axs = map (zip (map fst axs)) (product_lists (map snd axs))"

lemma length_product_lists: "xs \<in> set (product_lists xss) \<Longrightarrow> length xs = length xss"
  by (auto simp: product_lists_set dest: list_all2_lengthD)

lemma product_lists_snoc:
  "product_lists (xss @ [ys]) =
     concat (map (\<lambda>xs. map (\<lambda>y. xs @ [y]) ys) (product_lists xss))"
proof (induction xss)
  case Nil
  show ?case by (induction ys) auto
next
  case (Cons xs xss)
  have "concat (map (\<lambda>x. map ((#) x) (product_lists (xss @ [ys]))) zs) =
      concat (map (\<lambda>c. map (\<lambda>y. c @ [y]) ys) (concat (map (\<lambda>x. map ((#) x) (product_lists xss)) zs)))" for zs
    by (induction zs) (auto simp: Cons map_concat comp_def)
  then show ?case by simp
qed

lemma choices_snoc:
  assumes "omap_ok (axs @ [(k, vs)])"
  shows "choices (axs @ [(k, vs)]) = expand_axis (k, vs) (choices axs)"
proof -
  have less: "\<forall>x \<in> fst ` set axs. x < k"
    using assms by (auto simp: omap_ok_def sorted_wrt_append)
  have set: "omap_set k v (zip (map fst axs) c) = zip (map fst axs @ [k]) (c @ [v])"
    if "c \<in> set (product_lists (map snd axs))" for c v
  proof -
    have "length c = length axs" using length_product_lists [OF that] by simp
    moreover have "\<forall>x \<in> fst ` set (zip (map fst axs) c). x < k"
      using less by (auto dest!: set_zip_leftD)
    ultimately show ?thesis by (simp add: omap_set_snoc)
  qed
  have "choices (axs @ [(k, vs)]) = concat (map (\<lambda>c. map (\<lambda>v. zip (map fst axs @ [k]) (c @ [v])) vs)
      (product_lists (map snd axs)))"
    by (simp add: choices_def product_lists_snoc map_concat comp_def)
  also have "\<dots> = concat (map (\<lambda>c. map (\<lambda>v. omap_set k v (zip (map fst axs) c)) vs)
      (product_lists (map snd axs)))"
    by (rule arg_cong [where f = concat], rule map_cong) (auto simp: set)
  finally show ?thesis by (simp add: expand_axis_def choices_def comp_def)
qed

lemma cross_product_choices: "omap_ok axs \<Longrightarrow> cross_product axs = choices axs"
proof (induction axs rule: rev_induct)
  case Nil
  show ?case by (simp add: cross_product_def choices_def)
next
  case (snoc ax axs)
  obtain k vs where ax: "ax = (k, vs)" by (cases ax)
  have "omap_ok axs" using snoc.prems by (auto simp: omap_ok_def sorted_wrt_append)
  with snoc.IH have "cross_product axs = choices axs" by simp
  with snoc.prems ax show ?case by (simp add: choices_snoc cross_product_def)
qed

lemma length_choices: "length (choices axs) = prod_list (map (\<lambda>ax. length (snd ax)) axs)"
proof -
  have "length (product_lists xss) = prod_list (map length xss)" for xss :: "string list list"
    by (induction xss) (auto simp: length_concat comp_def sum_list_triv)
  then show ?thesis by (simp add: choices_def comp_def)
qed

text \<open>
  C29. Without include and exclude entries the expansion of a non-empty matrix is exactly the cross
  product of its axes: every way to pick one value per axis, in the order of the choices, and
  therefore as many combinations as the product of the axis lengths.
\<close>

theorem expandMatrix_cross_product:
  assumes "omap_ok (axes m)" "axes m \<noteq> []" "include_entries m = []" "exclude_entries m = []"
  shows "expandMatrix m = map (zip (map fst (axes m))) (product_lists (map snd (axes m)))
    \<and> length (expandMatrix m) = prod_list (map (\<lambda>ax. length (snd ax)) (axes m))"
  using assms length_choices [of "axes m"]
  by (simp add: expandMatrix_def matrix_empty_def cross_product_choices choices_def)

theorem expandMatrix_cross_product_witness:
  "length (expandMatrix \<lparr>axes = [(''arch'', [''x64'', ''arm'']), (''os'', [''a'', ''b'', ''c''])],
     include_entries = [], exclude_entries = []\<rparr>) = 6"
  using expandMatrix_cross_product [of "\<lparr>axes = [(''arch'', [''x64'', ''arm'']), (''os'', [''a'', ''b'', ''c''])],
     include_entries = [], exclude_entries = []\<rparr>"]
  by (simp add: omap_ok_def)

section \<open>Include and exclude\<close>

lemma omap_get_augment:
  "omap_get (augment entry combo) k =
     (case omap_get combo k of Some v \<Rightarrow> Some v | None \<Rightarrow> omap_get entry k)"
proof -
  have "omap_get (fold (\<lambda>(k, v) c. if omap_has c k then c else omap_set k v c) entry combo) k =
     (case omap_get combo k of Some v \<Rightarrow> Some v | None \<Rightarrow> omap_get entry k)"
  proof (induction entry arbitrary: combo)
    case Nil
    then show ?case by (simp split: option.splits)
  next
    case (Cons a entry)
    obtain k' v' where a: "a = (k', v')" by (cases a)
    show ?case
      using Cons by (auto simp: a omap_has_def omap_get_def [of "_ # _"] omap_get_def [of entry]
          split: option.splits)
  qed
  then show ?thesis by (simp add: augment_def)
qed

definition extends :: "combo \<Rightarrow> combo \<Rightarrow> bool" where
  "extends b c \<longleftrightarrow> omap_get b \<subseteq>\<^sub>m omap_get c"

lemma extends_refl [simp, intro]: "extends b b"
  by (simp add: extends_def)

lemma extends_trans: "extends a b \<Longrightarrow> extends b c \<Longrightarrow> extends a c"
  unfolding extends_def by (rule map_le_trans)

lemma extends_augment: "extends b (augment entry b)"
  by (auto simp: extends_def map_le_def omap_get_augment dom_def split: option.splits)

lemma apply_include_back:
  "c \<in> set (apply_include entry cs) \<Longrightarrow> \<exists>b \<in> insert entry (set cs). extends b c"
  by (auto simp: apply_include_def Let_def intro: extends_refl extends_augment split: if_splits)

lemma apply_include_forth:
  "b \<in> set cs \<Longrightarrow> \<exists>c \<in> set (apply_include entry cs). extends b c"
  by (rule bexI [of _ "if include_matches entry b then augment entry b else b"])
    (auto simp: apply_include_def Let_def extends_augment)

lemma fold_include_back:
  "c \<in> set (fold apply_include es cs) \<Longrightarrow> \<exists>b \<in> set es \<union> set cs. extends b c"
proof (induction es arbitrary: cs)
  case (Cons e es)
  then obtain b where b: "b \<in> set es \<union> set (apply_include e cs)" "extends b c" by fastforce
  show ?case
  proof (cases "b \<in> set es")
    case False
    with b(1) obtain b' where "b' \<in> insert e (set cs)" "extends b' b"
      using apply_include_back by blast
    with b(2) extends_trans show ?thesis by auto
  qed (use b in auto)
qed (auto intro: extends_refl)

lemma fold_include_forth:
  "b \<in> set cs \<Longrightarrow> \<exists>c \<in> set (fold apply_include es cs). extends b c"
proof (induction es arbitrary: b cs)
  case (Cons e es)
  then obtain b' where "b' \<in> set (apply_include e cs)" "extends b b'"
    using apply_include_forth by blast
  with Cons.IH extends_trans show ?case by fastforce
qed (auto intro: extends_refl)

text \<open>
  Include entries only ever add keys: every combination of the result extends a combination of
  the cross product or an include entry without changing any of its values, no combination of the
  result matches an exclude pattern, and every combination of the cross product survives (extended)
  unless an exclude pattern matches its extension.
\<close>

theorem expandMatrix_include_exclude:
  assumes "\<not> matrix_empty m"
  shows "(\<forall>c \<in> set (expandMatrix m).
      (\<exists>b \<in> set (cross_product (axes m)) \<union> set (include_entries m). extends b c)
      \<and> \<not> (\<exists>p \<in> set (exclude_entries m). matchesPattern c p))
    \<and> (\<forall>b \<in> set (cross_product (axes m)). \<exists>c. extends b c \<and>
        (c \<in> set (expandMatrix m) \<or> (\<exists>p \<in> set (exclude_entries m). matchesPattern c p)))"
proof (intro conjI ballI)
  fix c assume "c \<in> set (expandMatrix m)"
  then have c: "c \<in> set (fold apply_include (include_entries m) (cross_product (axes m)))"
    "\<not> list_ex (matchesPattern c) (exclude_entries m)"
    using assms by (auto simp: expandMatrix_def)
  show "\<exists>b \<in> set (cross_product (axes m)) \<union> set (include_entries m). extends b c"
    using fold_include_back [OF c(1)] by auto
  show "\<not> (\<exists>p \<in> set (exclude_entries m). matchesPattern c p)"
    using c(2) by (auto simp: list_ex_iff)
next
  fix b assume "b \<in> set (cross_product (axes m))"
  then obtain c where "c \<in> set (fold apply_include (include_entries m) (cross_product (axes m)))"
    "extends b c" using fold_include_forth by blast
  then show "\<exists>c. extends b c \<and> (c \<in> set (expandMatrix m) \<or> (\<exists>p \<in> set (exclude_entries m). matchesPattern c p))"
    using assms by (auto simp: expandMatrix_def list_ex_iff intro!: exI [of _ c])
qed

definition demo_matrix :: matrix where
  "demo_matrix = \<lparr>axes = [(''os'', [''haiku'', ''linux''])],
     include_entries = [[(''extra'', ''yes''), (''os'', ''haiku'')]],
     exclude_entries = [[(''os'', ''linux'')]]\<rparr>"

theorem expandMatrix_include_exclude_witness:
  "expandMatrix demo_matrix = [[(''extra'', ''yes''), (''os'', ''haiku'')]]
   \<and> \<not> matchesPattern [(''extra'', ''yes''), (''os'', ''haiku'')] [(''os'', ''linux'')]"
proof -
  have e: "expandMatrix demo_matrix = [[(''extra'', ''yes''), (''os'', ''haiku'')]]" by code_simp
  have "\<not> matrix_empty demo_matrix" by code_simp
  from expandMatrix_include_exclude [OF this] e
  have "\<not> (\<exists>p \<in> set (exclude_entries demo_matrix).
      matchesPattern [(''extra'', ''yes''), (''os'', ''haiku'')] p)" by simp
  then show ?thesis using e by (simp add: demo_matrix_def)
qed

text \<open>
  A matrix that has include entries and no axes keeps a spurious empty combination: the cross
  product of no axes is one empty combination, which no include entry can match.
\<close>

theorem expandMatrix_include_only:
  assumes "axes m = []" "include_entries m \<noteq> []" "exclude_entries m = []"
  shows "[] \<in> set (expandMatrix m)"
proof -
  have nomatch: "\<not> include_matches e []" for e
  proof -
    have "include_scan [] e h = (True, h)" for h
      by (induction e arbitrary: h) auto
    then show ?thesis by (simp add: include_matches_def)
  qed
  then have keep: "[] \<in> set cs \<Longrightarrow> [] \<in> set (apply_include e cs)" for e cs
    by (force simp: apply_include_def Let_def)
  have "[] \<in> set cs \<Longrightarrow> [] \<in> set (fold apply_include es cs)" for es cs
    by (induction es arbitrary: cs) (auto simp: keep)
  then show ?thesis
    using assms by (simp add: expandMatrix_def matrix_empty_def cross_product_def)
qed

theorem expandMatrix_include_only_witness:
  "[] \<in> set (expandMatrix \<lparr>axes = [], include_entries = [[(''os'', ''haiku'')]], exclude_entries = []\<rparr>)"
  by (rule expandMatrix_include_only) simp_all

end
