(* ===== verification/Job_Graph.thy ===== *)
theory Job_Graph
  imports Workflow_Types
begin

text \<open>
  \<^verbatim>\<open>src/src/runner/JobGraph.cpp\<close>: Kahn's algorithm over the \<^verbatim>\<open>needs:\<close> declarations
  (\<open>topologicalJobOrder\<close>) and the wave schedule (\<open>waveSchedule\<close>).

  The two \<^verbatim>\<open>std::unordered_map\<close>s are read with \<^verbatim>\<open>operator[]\<close>, which yields the default
  value for an absent key, so they are total functions.  The only place where the order of an
  unordered map shows is the initial fill of the ready queue and the text of the cycle message;
  that order is unspecified by the standard and is the parameter \<open>umap_order\<close>, which permutes the
  inserted keys.
\<close>

record job_order_result =
  jo_order :: "string list"
  has_cycle :: bool
  cycle_description :: string

definition needs_of :: "job smap \<Rightarrow> string \<Rightarrow> string list" where
  "needs_of jobs k = (case omap_get jobs k of Some j \<Rightarrow> job_needs j | None \<Rightarrow> [])"

fun first_undefined_need :: "job smap \<Rightarrow> string list \<Rightarrow> string option" where
  "first_undefined_need jobs [] = None"
| "first_undefined_need jobs (n # ns) =
     (if omap_has jobs n then first_undefined_need jobs ns else Some n)"

fun validate_needs :: "job smap \<Rightarrow> (string \<times> job) list \<Rightarrow> string option" where
  "validate_needs jobs [] = None"
| "validate_needs jobs ((jid, j) # rest) =
     (case first_undefined_need jobs (job_needs j) of
        Some n \<Rightarrow> Some (''Job '' @ quoted jid @ '' needs '' @ quoted n @ '' which is not defined in this workflow'')
      | None \<Rightarrow> validate_needs jobs rest)"

fun add_dependents :: "string \<Rightarrow> string list \<Rightarrow> (string \<Rightarrow> string list) \<Rightarrow> (string \<Rightarrow> string list)" where
  "add_dependents jid [] deps = deps"
| "add_dependents jid (n # ns) deps = add_dependents jid ns (deps(n := deps n @ [jid]))"

fun build_graph :: "(string \<times> job) list \<Rightarrow> (string \<Rightarrow> int) \<times> (string \<Rightarrow> string list)
    \<Rightarrow> (string \<Rightarrow> int) \<times> (string \<Rightarrow> string list)" where
  "build_graph [] g = g"
| "build_graph ((jid, j) # rest) (deg, deps) =
     build_graph rest (deg(jid := int (length (job_needs j))), add_dependents jid (job_needs j) deps)"

text \<open>The body of the inner loop: decrement each dependent, push those that reach zero.\<close>

fun relax :: "string list \<Rightarrow> (string \<Rightarrow> int) \<Rightarrow> string list \<Rightarrow> (string \<Rightarrow> int) \<times> string list" where
  "relax [] deg ready = (deg, ready)"
| "relax (d # ds) deg ready =
     (let deg' = deg(d := deg d - 1)
      in relax ds deg' (if deg' d = 0 then ready @ [d] else ready))"

definition in_degree_of :: "job smap \<Rightarrow> string \<Rightarrow> int" where
  "in_degree_of jobs = fst (build_graph jobs (\<lambda>_. 0, \<lambda>_. []))"

definition dependents_of :: "job smap \<Rightarrow> string \<Rightarrow> string list" where
  "dependents_of jobs = snd (build_graph jobs (\<lambda>_. 0, \<lambda>_. []))"

subsection \<open>Closed forms of the graph\<close>

lemma add_dependents_eq:
  "add_dependents k ns deps = (\<lambda>n. deps n @ replicate (count_list ns n) k)"
  by (induction ns arbitrary: deps) (auto simp: fun_eq_iff replicate_append_same [symmetric])

lemma build_graph_snd:
  "snd (build_graph js (deg, deps)) n =
     deps n @ concat (map (\<lambda>(k, j). replicate (count_list (job_needs j) n) k) js)"
  by (induction js arbitrary: deg deps) (auto simp: add_dependents_eq)

lemma build_graph_fst:
  "distinct (map fst js) \<Longrightarrow>
   fst (build_graph js (deg, deps)) k =
     (case map_of js k of Some j \<Rightarrow> int (length (job_needs j)) | None \<Rightarrow> deg k)"
proof (induction js arbitrary: deg deps)
  case (Cons kj js)
  obtain k' j where "kj = (k', j)" by (cases kj)
  with Cons show ?case
    by (auto split: option.splits simp: map_of_eq_None_iff [THEN iffD2] dest: map_of_SomeD)
qed simp

lemma dependents_of_eq:
  "dependents_of jobs n = concat (map (\<lambda>(k, j). replicate (count_list (job_needs j) n) k) jobs)"
  by (simp add: dependents_of_def build_graph_snd)

lemma set_dependents_of_subset: "set (dependents_of jobs n) \<subseteq> fst ` set jobs"
  by (auto simp: dependents_of_eq split: if_splits) force

lemma in_degree_of_eq:
  "omap_ok jobs \<Longrightarrow> k \<in> fst ` set jobs \<Longrightarrow> in_degree_of jobs k = int (length (needs_of jobs k))"
  by (auto simp: in_degree_of_def build_graph_fst omap_ok_distinct needs_of_def omap_get_def
      split: option.splits)

lemma count_dependents_of:
  assumes "omap_ok jobs" "k \<in> fst ` set jobs"
  shows "count_list (dependents_of jobs n) k = count_list (needs_of jobs k) n"
proof -
  have gen: "distinct (map fst js) \<Longrightarrow>
    count_list (concat (map (\<lambda>(k, j). replicate (count_list (job_needs j) n) k) js)) k =
      (case map_of js k of Some j \<Rightarrow> count_list (job_needs j) n | None \<Rightarrow> 0)" for js :: "job smap"
  proof (induction js)
    case (Cons kj js)
    obtain k' j where kj: "kj = (k', j)" by (cases kj)
    have "count_list (replicate m k') k = (if k' = k then m else 0)" for m
      by (induction m) auto
    with Cons kj show ?case
      by (auto simp: count_list_append split: option.splits)
        (metis fst_conv image_eqI map_of_SomeD)
  qed simp
  show ?thesis
    using gen [of jobs] assms
    by (auto simp: dependents_of_eq omap_ok_distinct needs_of_def omap_get_def split: option.splits)
qed

subsection \<open>The main loop\<close>

lemma relax_fst: "fst (relax ds deg ready) = (\<lambda>k. deg k - int (count_list ds k))"
  by (induction ds arbitrary: deg ready) (auto simp: Let_def fun_eq_iff)

lemma relax_snd:
  "\<exists>new. snd (relax ds deg ready) = ready @ new \<and> distinct new \<and>
     set new = {k. 0 < deg k \<and> deg k \<le> int (count_list ds k)}"
proof (induction ds arbitrary: deg ready)
  case Nil
  then show ?case by auto
next
  case (Cons d ds)
  let ?deg = "deg(d := deg d - 1)"
  let ?r = "if ?deg d = 0 then ready @ [d] else ready"
  obtain new where new: "snd (relax ds ?deg ?r) = ?r @ new" "distinct new"
    "set new = {k. 0 < ?deg k \<and> ?deg k \<le> int (count_list ds k)}"
    using Cons.IH by blast
  have "set ((if ?deg d = 0 then [d] else []) @ new) =
      {k. 0 < deg k \<and> deg k \<le> int (count_list (d # ds) k)}"
    unfolding set_append new(3) by auto
  moreover have "distinct ((if ?deg d = 0 then [d] else []) @ new)"
    using new(2,3) by auto
  moreover have "snd (relax (d # ds) deg ready) = ready @ ((if ?deg d = 0 then [d] else []) @ new)"
    using new(1) by (simp add: Let_def)
  ultimately show ?case by blast
qed

lemma relaxE:
  assumes "relax ds deg ready = (deg', ready')"
  obtains new where "ready' = ready @ new" "distinct new"
    "set new = {k. 0 < deg k \<and> deg k \<le> int (count_list ds k)}"
    "deg' = (\<lambda>k. deg k - int (count_list ds k))"
  using relax_snd [of ds deg ready] relax_fst [of ds deg ready] assms by auto

lemma count_list_pos_iff: "0 < count_list xs x \<longleftrightarrow> x \<in> set xs"
  by (induction xs) auto

lemma relax_positive_decreases:
  assumes "relax (dependents_of jobs jid) deg ready = (deg', ready')"
  shows "length ready' + card {k \<in> fst ` set jobs. 0 < deg' k}
       = length ready + card {k \<in> fst ` set jobs. 0 < deg k}"
proof -
  let ?K = "fst ` set jobs" and ?c = "\<lambda>k. int (count_list (dependents_of jobs jid) k)"
  from assms obtain new where new: "ready' = ready @ new" "distinct new"
    "set new = {k. 0 < deg k \<and> deg k \<le> ?c k}" "deg' = (\<lambda>k. deg k - ?c k)"
    by (rule relaxE)
  have sub: "set new \<subseteq> ?K"
    using set_dependents_of_subset [of jobs jid] count_list_pos_iff [of "dependents_of jobs jid"]
    unfolding new(3) by (force simp: subset_iff)
  have "{k \<in> ?K. 0 < deg k} = {k \<in> ?K. 0 < deg' k} \<union> set new"
    using sub unfolding new(3,4) by auto
  moreover have "{k \<in> ?K. 0 < deg' k} \<inter> set new = {}"
    unfolding new(3,4) by auto
  ultimately have "card {k \<in> ?K. 0 < deg k} = card {k \<in> ?K. 0 < deg' k} + card (set new)"
    by (simp add: card_Un_disjoint)
  then show ?thesis using new(1,2) by (simp add: distinct_card)
qed

function kahn_loop :: "job smap \<Rightarrow> string list \<Rightarrow> (string \<Rightarrow> int) \<Rightarrow> string list
    \<Rightarrow> string list \<times> (string \<Rightarrow> int)" where
  "kahn_loop jobs [] deg ord = (ord, deg)"
| "kahn_loop jobs (jid # ready) deg ord =
     (let (deg', ready') = relax (dependents_of jobs jid) deg ready
      in kahn_loop jobs ready' deg' (ord @ [jid]))"
  by pat_completeness auto

termination
  by (relation "measure (\<lambda>(jobs, ready, deg, ord). length ready + card {k \<in> fst ` set jobs. 0 < deg k})")
    (auto simp: relax_positive_decreases [OF sym])

definition cycle_info :: "(string \<Rightarrow> int) \<Rightarrow> string list \<Rightarrow> string" where
  "cycle_info deg keys =
     foldl (\<lambda>acc k. if 0 < deg k then (if acc \<noteq> [] then acc @ '', '' else acc) @ k else acc) [] keys"

definition topologicalJobOrder ::
    "(string list \<Rightarrow> string list) \<Rightarrow> job smap \<Rightarrow> job_order_result result" where
  "topologicalJobOrder umap_order jobs =
     (if jobs = [] then Inr \<lparr>jo_order = [], has_cycle = False, cycle_description = []\<rparr>
      else case validate_needs jobs jobs of
        Some msg \<Rightarrow> Inl (Runtime_error msg)
      | None \<Rightarrow>
          (let keys = umap_order (map fst jobs);
               ready = filter (\<lambda>k. in_degree_of jobs k = 0) keys;
               (ord, deg) = kahn_loop jobs ready (in_degree_of jobs) []
           in Inr (if length ord \<noteq> length jobs
                then \<lparr>jo_order = ord, has_cycle = True,
                      cycle_description = ''Cycle detected in jobs: '' @ cycle_info deg keys\<rparr>
                else \<lparr>jo_order = ord, has_cycle = False, cycle_description = []\<rparr>)))"

text \<open>
  The documented behaviour of the iteration order of an unordered map: every stored key exactly
  once.
\<close>

definition permuting :: "(string list \<Rightarrow> string list) \<Rightarrow> bool" where
  "permuting f \<longleftrightarrow> (\<forall>ks. distinct ks \<longrightarrow> mset (f ks) = mset ks)"

subsection \<open>The specification: topological orders and cycles\<close>

definition needs_rel :: "job smap \<Rightarrow> (string \<times> string) set" where
  "needs_rel jobs = {(n, k). k \<in> fst ` set jobs \<and> n \<in> set (needs_of jobs k)}"

definition topo_ordered :: "job smap \<Rightarrow> string list \<Rightarrow> bool" where
  "topo_ordered jobs ord \<longleftrightarrow>
     distinct ord \<and> set ord \<subseteq> fst ` set jobs \<and>
     (\<forall>i < length ord. set (needs_of jobs (ord ! i)) \<subseteq> set (take i ord))"

definition needs_defined :: "job smap \<Rightarrow> bool" where
  "needs_defined jobs \<longleftrightarrow> (\<forall>(k, j) \<in> set jobs. set (job_needs j) \<subseteq> fst ` set jobs)"

lemma topo_ordered_snoc:
  assumes "topo_ordered jobs ord" "k \<notin> set ord" "k \<in> fst ` set jobs"
    "set (needs_of jobs k) \<subseteq> set ord"
  shows "topo_ordered jobs (ord @ [k])"
  using assms by (auto simp: topo_ordered_def nth_append less_Suc_eq)

lemma first_undefined_need_None:
  "first_undefined_need jobs ns = None \<longleftrightarrow> set ns \<subseteq> fst ` set jobs"
  by (induction ns) (auto simp: omap_has_iff)

lemma validate_needs_None:
  "validate_needs jobs js = None \<longleftrightarrow> (\<forall>(k, j) \<in> set js. set (job_needs j) \<subseteq> fst ` set jobs)"
  by (induction jobs js rule: validate_needs.induct)
    (auto split: option.splits simp: first_undefined_need_None [symmetric])

lemma needs_of_in:
  "omap_ok jobs \<Longrightarrow> (k, j) \<in> set jobs \<Longrightarrow> needs_of jobs k = job_needs j"
  by (simp add: needs_of_def omap_get_in)

lemma needs_defined_iff:
  "omap_ok jobs \<Longrightarrow> needs_defined jobs \<longleftrightarrow>
    (\<forall>k \<in> fst ` set jobs. set (needs_of jobs k) \<subseteq> fst ` set jobs)"
  by (force simp: needs_defined_def needs_of_in)

subsection \<open>The loop invariant\<close>

definition open_needs :: "job smap \<Rightarrow> string list \<Rightarrow> string \<Rightarrow> int" where
  "open_needs jobs ord k = int (length (filter (\<lambda>n. n \<notin> set ord) (needs_of jobs k)))"

definition kahn_inv :: "job smap \<Rightarrow> string list \<Rightarrow> (string \<Rightarrow> int) \<Rightarrow> string list \<Rightarrow> bool" where
  "kahn_inv jobs ready deg ord \<longleftrightarrow>
     topo_ordered jobs ord \<and> distinct (ord @ ready) \<and>
     (\<forall>k \<in> fst ` set jobs. deg k = open_needs jobs ord k) \<and>
     set (ord @ ready) = {k \<in> fst ` set jobs. deg k = 0}"

lemma open_needs_zero: "open_needs jobs ord k = 0 \<longleftrightarrow> set (needs_of jobs k) \<subseteq> set ord"
  by (auto simp: open_needs_def filter_empty_conv)

lemma open_needs_nonneg: "0 \<le> open_needs jobs ord k"
  by (simp add: open_needs_def)

lemma length_filter_snoc:
  "x \<notin> set ord \<Longrightarrow>
   length (filter (\<lambda>n. n \<notin> set ord) ns) = length (filter (\<lambda>n. n \<notin> set (ord @ [x])) ns) + count_list ns x"
  by (induction ns) auto

lemma open_needs_snoc:
  "x \<notin> set ord \<Longrightarrow>
   open_needs jobs (ord @ [x]) k = open_needs jobs ord k - int (count_list (needs_of jobs k) x)"
  by (simp add: open_needs_def length_filter_snoc)

lemma kahn_inv_step:
  assumes ok: "omap_ok jobs" and inv: "kahn_inv jobs (jid # ready) deg ord"
    and rel: "relax (dependents_of jobs jid) deg ready = (deg', ready')"
  shows "kahn_inv jobs ready' deg' (ord @ [jid])"
proof -
  let ?K = "fst ` set jobs" and ?c = "\<lambda>k. int (count_list (dependents_of jobs jid) k)"
  from rel obtain new where new: "ready' = ready @ new" "distinct new"
    "set new = {k. 0 < deg k \<and> deg k \<le> ?c k}" "deg' = (\<lambda>k. deg k - ?c k)"
    by (rule relaxE)
  have topo: "topo_ordered jobs ord" and dist: "distinct (ord @ jid # ready)"
    and deg: "\<And>k. k \<in> ?K \<Longrightarrow> deg k = open_needs jobs ord k"
    and zero: "set (ord @ jid # ready) = {k \<in> ?K. deg k = 0}"
    using inv by (auto simp: kahn_inv_def)
  have jid: "jid \<in> ?K" "deg jid = 0" "jid \<notin> set ord"
    using zero dist by auto
  have deg': "deg' k = open_needs jobs (ord @ [jid]) k" if "k \<in> ?K" for k
    using that deg open_needs_snoc [OF jid(3)] count_dependents_of [OF ok] by (simp add: new(4))
  have sub: "set new \<subseteq> ?K"
    using set_dependents_of_subset [of jobs jid] count_list_pos_iff [of "dependents_of jobs jid"]
    unfolding new(3) by (force simp: subset_iff)
  have "set ((ord @ [jid]) @ ready') = {k \<in> ?K. deg k = 0} \<union> set new"
    using zero new(1) by auto
  also have "\<dots> = {k \<in> ?K. deg' k = 0}"
  proof (intro equalityI subsetI)
    fix k assume "k \<in> {k \<in> ?K. deg k = 0} \<union> set new"
    then have k: "k \<in> ?K" and "deg' k \<le> 0"
      using sub by (auto simp: new(3,4))
    with deg' [OF k] open_needs_nonneg [of jobs "ord @ [jid]" k]
    show "k \<in> {k \<in> ?K. deg' k = 0}" by simp
  next
    fix k assume "k \<in> {k \<in> ?K. deg' k = 0}"
    then show "k \<in> {k \<in> ?K. deg k = 0} \<union> set new"
      using deg [of k] open_needs_nonneg [of jobs ord k] by (auto simp: new(3,4))
  qed
  finally have zero': "set ((ord @ [jid]) @ ready') = {k \<in> ?K. deg' k = 0}" .
  have "set new \<inter> set (ord @ jid # ready) = {}"
    unfolding zero new(3) by auto
  then have "distinct ((ord @ [jid]) @ ready')"
    using dist new(1,2) by auto
  moreover have "topo_ordered jobs (ord @ [jid])"
    using topo jid deg [OF jid(1)] by (simp add: topo_ordered_snoc open_needs_zero)
  ultimately show ?thesis
    using deg' zero' by (simp add: kahn_inv_def)
qed

lemma kahn_loop_inv:
  assumes "omap_ok jobs" "kahn_inv jobs ready deg ord"
    and "kahn_loop jobs ready deg ord = (ord', deg')"
  shows "kahn_inv jobs [] deg' ord'"
  using assms
proof (induction jobs ready deg ord rule: kahn_loop.induct)
  case (2 jobs jid ready deg ord)
  obtain d r where dr: "relax (dependents_of jobs jid) deg ready = (d, r)"
    by (cases "relax (dependents_of jobs jid) deg ready")
  with "2.prems" have "kahn_loop jobs r d (ord @ [jid]) = (ord', deg')" by simp
  with "2.IH" [OF dr [symmetric] refl] "2.prems" kahn_inv_step [OF _ _ dr] show ?case by blast
qed simp

subsection \<open>Complete orders and acyclicity\<close>

lemma finite_needs_rel: "finite (needs_rel jobs)"
proof (rule finite_subset)
  show "needs_rel jobs \<subseteq> (\<Union>k \<in> fst ` set jobs. set (needs_of jobs k)) \<times> fst ` set jobs"
    by (auto simp: needs_rel_def)
qed simp

lemma topo_complete_acyclic:
  assumes topo: "topo_ordered jobs ord" and all: "set ord = fst ` set jobs"
  shows "acyclic (needs_rel jobs)"
proof -
  let ?pos = "inv_into {..<length ord} (nth ord)"
  have inj: "inj_on (nth ord) {..<length ord}"
    using topo by (simp add: topo_ordered_def inj_on_nth)
  have pos: "?pos (ord ! i) = i" if "i < length ord" for i
    using that inj by (simp add: inv_into_f_f)
  have "needs_rel jobs \<subseteq> measure ?pos"
  proof (clarsimp simp: needs_rel_def)
    fix n k j assume "(k, j) \<in> set jobs" and n: "n \<in> set (needs_of jobs k)"
    then have "k \<in> set ord" using all by force
    then obtain i where i: "i < length ord" "k = ord ! i" by (auto simp: in_set_conv_nth)
    with topo n have "n \<in> set (take i ord)" by (auto simp: topo_ordered_def)
    then obtain l where "l < i" "n = ord ! l" by (auto simp: in_set_conv_nth)
    with i show "?pos n < ?pos k" by (simp add: pos)
  qed
  then have "wf (needs_rel jobs)" by (rule wf_subset [OF wf_measure])
  then show ?thesis by (rule wf_acyclic)
qed

lemma kahn_stuck_cyclic:
  assumes ok: "omap_ok jobs" and nd: "needs_defined jobs"
    and inv: "kahn_inv jobs [] deg ord" and stuck: "set ord \<noteq> fst ` set jobs"
  shows "\<not> acyclic (needs_rel jobs)"
proof
  assume "acyclic (needs_rel jobs)"
  then have wf: "wf (needs_rel jobs)"
    by (simp add: finite_acyclic_wf finite_needs_rel)
  let ?R = "fst ` set jobs - set ord"
  have sub: "set ord \<subseteq> fst ` set jobs" and zero: "set ord = {k \<in> fst ` set jobs. deg k = 0}"
    and deg: "\<And>k. k \<in> fst ` set jobs \<Longrightarrow> deg k = open_needs jobs ord k"
    using inv by (auto simp: kahn_inv_def topo_ordered_def)
  from stuck sub obtain k0 where "k0 \<in> ?R" by blast
  with wf obtain k where k: "k \<in> ?R" and min: "\<And>n. (n, k) \<in> needs_rel jobs \<Longrightarrow> n \<notin> ?R"
    by (rule wfE_min) blast
  from k zero deg have "open_needs jobs ord k \<noteq> 0" by auto
  then obtain n where n: "n \<in> set (needs_of jobs k)" "n \<notin> set ord"
    by (auto simp: open_needs_zero)
  with k nd ok have "n \<in> ?R" by (auto simp: needs_defined_iff)
  moreover from n(1) k have "(n, k) \<in> needs_rel jobs" by (auto simp: needs_rel_def)
  ultimately show False using min by blast
qed

lemma kahn_inv_init:
  assumes ok: "omap_ok jobs" and perm: "permuting f"
  shows "kahn_inv jobs (filter (\<lambda>k. in_degree_of jobs k = 0) (f (map fst jobs))) (in_degree_of jobs) []"
proof -
  have m: "mset (f (map fst jobs)) = mset (map fst jobs)"
    using perm ok by (simp add: permuting_def omap_ok_distinct)
  then have "distinct (f (map fst jobs))" "set (f (map fst jobs)) = fst ` set jobs"
    using omap_ok_distinct [OF ok] by (metis mset_eq_imp_distinct_iff, metis mset_eq_setD set_map)
  then show ?thesis
    using ok by (auto simp: kahn_inv_def topo_ordered_def open_needs_def in_degree_of_eq)
qed

lemma topologicalJobOrder_cases:
  assumes ok: "omap_ok jobs" and perm: "permuting f"
    and r: "topologicalJobOrder f jobs = Inr r"
  obtains deg where "needs_defined jobs" "kahn_inv jobs [] deg (jo_order r)"
    "has_cycle r \<longleftrightarrow> length (jo_order r) \<noteq> length jobs"
proof (cases "jobs = []")
  case True
  with r have "jo_order r = []" "has_cycle r = False"
    by (auto simp: topologicalJobOrder_def)
  with True show ?thesis
    by (intro that [of "\<lambda>_. 0"]) (auto simp: needs_defined_def kahn_inv_def topo_ordered_def)
next
  case False
  obtain ord deg where l: "kahn_loop jobs (filter (\<lambda>k. in_degree_of jobs k = 0) (f (map fst jobs)))
      (in_degree_of jobs) [] = (ord, deg)" by fastforce
  have "kahn_inv jobs [] deg ord"
    by (rule kahn_loop_inv [OF ok kahn_inv_init [OF ok perm] l])
  moreover have "validate_needs jobs jobs = None" "jo_order r = ord"
    "has_cycle r \<longleftrightarrow> length ord \<noteq> length jobs"
    using r False l by (auto simp: topologicalJobOrder_def Let_def split: option.splits if_splits)
  ultimately show ?thesis
    using that by (simp add: validate_needs_None needs_defined_def)
qed

lemma topo_complete_iff:
  assumes ok: "omap_ok jobs" and topo: "topo_ordered jobs ord"
  shows "length ord = length jobs \<longleftrightarrow> set ord = fst ` set jobs"
proof -
  have c: "length ord = card (set ord)" "length jobs = card (fst ` set jobs)"
    using topo omap_ok_distinct [OF ok]
    by (metis topo_ordered_def distinct_card, metis distinct_card length_map set_map)
  have sub: "set ord \<subseteq> fst ` set jobs" using topo by (simp add: topo_ordered_def)
  show ?thesis
    unfolding c using card_subset_eq [OF _ sub] by auto
qed

section \<open>Properties of the topological sort\<close>

lemma topologicalJobOrder_spec:
  assumes ok: "omap_ok jobs" and perm: "permuting umap_order"
    and r: "topologicalJobOrder umap_order jobs = Inr r"
  shows "topo_ordered jobs (jo_order r)
    \<and> (has_cycle r \<longleftrightarrow> \<not> acyclic (needs_rel jobs))
    \<and> (\<not> has_cycle r \<longrightarrow> set (jo_order r) = fst ` set jobs)"
proof -
  obtain deg where nd: "needs_defined jobs" and inv: "kahn_inv jobs [] deg (jo_order r)"
    and cyc: "has_cycle r \<longleftrightarrow> length (jo_order r) \<noteq> length jobs"
    using topologicalJobOrder_cases [OF ok perm r] .
  from inv have topo: "topo_ordered jobs (jo_order r)" by (simp add: kahn_inv_def)
  have "acyclic (needs_rel jobs) \<longleftrightarrow> set (jo_order r) = fst ` set jobs"
    using kahn_stuck_cyclic [OF ok nd inv] topo_complete_acyclic [OF topo] by blast
  with topo cyc topo_complete_iff [OF ok topo] show ?thesis by blast
qed

text \<open>
  C9. Whenever the sort returns, the order lists distinct jobs of the workflow with every job after
  all the jobs it needs; and the cycle flag is exact: it is set if and only if the
  \<^verbatim>\<open>needs:\<close> relation really has a cycle, and when it is not set every job is scheduled.
\<close>

theorem topologicalJobOrder_correct:
  assumes ok: "omap_ok jobs" and perm: "permuting umap_order"
    and r: "topologicalJobOrder umap_order jobs = Inr r"
  shows "topo_ordered jobs (jo_order r)
    \<and> (has_cycle r \<longleftrightarrow> \<not> acyclic (needs_rel jobs))
    \<and> (\<not> has_cycle r \<longrightarrow> set (jo_order r) = fst ` set jobs)"
  by (rule topologicalJobOrder_spec [OF assms])

definition demo_jobs :: "job smap" where
  "demo_jobs = [(''build'', default_job\<lparr>job_needs := [''setup'']\<rparr>), (''setup'', default_job),
     (''test'', default_job\<lparr>job_needs := [''build'', ''setup'']\<rparr>)]"

lemma demo_jobs_order:
  "topologicalJobOrder (\<lambda>ks. ks) demo_jobs =
     Inr \<lparr>jo_order = [''setup'', ''build'', ''test''], has_cycle = False, cycle_description = []\<rparr>"
  by code_simp

theorem topologicalJobOrder_correct_witness:
  "topo_ordered demo_jobs [''setup'', ''build'', ''test''] \<and> acyclic (needs_rel demo_jobs)"
proof -
  have "omap_ok demo_jobs" by code_simp
  moreover have "permuting (\<lambda>ks. ks)" by (simp add: permuting_def)
  ultimately show ?thesis
    using topologicalJobOrder_correct [OF _ _ demo_jobs_order] by auto
qed

lemma topologicalJobOrder_total:
  "(\<exists>r. topologicalJobOrder umap_order jobs = Inr r) \<longleftrightarrow> needs_defined jobs"
  by (auto simp: topologicalJobOrder_def needs_defined_def validate_needs_None [symmetric] Let_def
      split: option.splits prod.splits)

text \<open>
  The sort throws exactly when some \<^verbatim>\<open>needs:\<close> entry names a job that is not defined in
  the workflow.
\<close>

theorem topologicalJobOrder_throws_iff:
  "(\<exists>e. topologicalJobOrder umap_order jobs = Inl e) \<longleftrightarrow> \<not> needs_defined jobs"
  unfolding topologicalJobOrder_total [of umap_order, symmetric]
  by (metis Inl_Inr_False obj_sumE)

section \<open>The wave schedule\<close>

fun max_dep_wave :: "(string \<rightharpoonup> int) \<Rightarrow> string list \<Rightarrow> int \<Rightarrow> int" where
  "max_dep_wave wave [] m = m"
| "max_dep_wave wave (n # ns) m =
     max_dep_wave wave ns (case wave n of Some w \<Rightarrow> max m w | None \<Rightarrow> m)"

fun assign_waves :: "job smap \<Rightarrow> string list \<Rightarrow> (string \<rightharpoonup> int) \<Rightarrow> (string \<rightharpoonup> int) result" where
  "assign_waves jobs [] wave = Inr wave"
| "assign_waves jobs (jid # rest) wave =
     (case omap_get jobs jid of
        None \<Rightarrow> Inl (Out_of_range ''map::at'')
      | Some j \<Rightarrow> assign_waves jobs rest (wave(jid \<mapsto> max_dep_wave wave (job_needs j) (-1) + 1)))"

definition wave_at :: "(string \<rightharpoonup> int) \<Rightarrow> string \<Rightarrow> nat" where
  "wave_at wave k = (case wave k of Some w \<Rightarrow> nat w | None \<Rightarrow> 0)"

fun place_in_waves :: "(string \<rightharpoonup> int) \<Rightarrow> string list \<Rightarrow> string list list \<Rightarrow> string list list" where
  "place_in_waves wave [] ws = ws"
| "place_in_waves wave (k # ks) ws =
     place_in_waves wave ks (ws[wave_at wave k := ws ! wave_at wave k @ [k]])"

definition waveSchedule :: "job smap \<Rightarrow> string list \<Rightarrow> string list list result" where
  "waveSchedule jobs ord =
     (case assign_waves jobs ord Map.empty of
        Inl e \<Rightarrow> Inl e
      | Inr wave \<Rightarrow>
          (let max_wave = foldl (\<lambda>m k. max m (wave_at wave k)) 0 ord
           in Inr (place_in_waves wave ord (replicate (max_wave + 1) []))))"

lemma max_dep_wave_props:
  "m \<le> max_dep_wave wave ns m"
  "n \<in> set ns \<Longrightarrow> wave n = Some w \<Longrightarrow> w \<le> max_dep_wave wave ns m"
  "max_dep_wave wave ns m = m \<or> (\<exists>n \<in> set ns. wave n = Some (max_dep_wave wave ns m))"
proof (induction ns arbitrary: m)
  case (Cons a ns)
  { case 1 show ?case
      using Cons.IH(1) by (auto split: option.splits) (meson max.bounded_iff) }
  { case 2 then show ?case
      using Cons.IH(1,2) by (auto split: option.splits) (meson max.bounded_iff) }
  { case 3 show ?case
    proof (cases "wave a")
      case None
      then show ?thesis using Cons.IH(3) [of m] by auto
    next
      case (Some w)
      then show ?thesis using Cons.IH(3) [of "max m w"] by (auto simp: max_def split: if_splits)
    qed }
qed auto

text \<open>
  \<open>layered jobs wave done\<close>: the jobs in \<open>done\<close> have a wave strictly above the waves of all
  their needs, and directly above one of them unless it is wave 0.
\<close>

definition layered :: "job smap \<Rightarrow> (string \<rightharpoonup> int) \<Rightarrow> string list \<Rightarrow> bool" where
  "layered jobs wave done \<longleftrightarrow> (\<forall>k \<in> set done. \<exists>w \<ge> 0. wave k = Some w \<and>
     (\<forall>n \<in> set (needs_of jobs k). n \<in> set done \<and> (\<exists>v. wave n = Some v \<and> v < w)) \<and>
     (w > 0 \<longrightarrow> (\<exists>n \<in> set (needs_of jobs k). wave n = Some (w - 1))))"

lemma layeredE:
  assumes "layered jobs wave done" "k \<in> set done"
  obtains w where "w \<ge> 0" "wave k = Some w" "wave_at wave k = nat w"
    "\<forall>n \<in> set (needs_of jobs k). n \<in> set done \<and> (\<exists>v. wave n = Some v \<and> v < w)"
    "w > 0 \<longrightarrow> (\<exists>n \<in> set (needs_of jobs k). wave n = Some (w - 1))"
proof -
  from assms obtain w where w: "w \<ge> 0" "wave k = Some w"
    "\<forall>n \<in> set (needs_of jobs k). n \<in> set done \<and> (\<exists>v. wave n = Some v \<and> v < w)"
    "w > 0 \<longrightarrow> (\<exists>n \<in> set (needs_of jobs k). wave n = Some (w - 1))"
    unfolding layered_def by blast
  moreover from w(2) have "wave_at wave k = nat w" by (simp add: wave_at_def)
  ultimately show ?thesis using that by blast
qed

lemma layered_snoc:
  assumes lay: "layered jobs wave done" and new: "k \<notin> set done"
    and needs: "set (needs_of jobs k) \<subseteq> set done"
  shows "layered jobs (wave(k \<mapsto> max_dep_wave wave (needs_of jobs k) (-1) + 1)) (done @ [k])"
proof -
  let ?w = "max_dep_wave wave (needs_of jobs k) (-1) + 1"
  let ?wave = "wave(k \<mapsto> ?w)"
  have "\<exists>w \<ge> 0. ?wave x = Some w \<and>
     (\<forall>n \<in> set (needs_of jobs x). n \<in> set (done @ [k]) \<and> (\<exists>v. ?wave n = Some v \<and> v < w)) \<and>
     (w > 0 \<longrightarrow> (\<exists>n \<in> set (needs_of jobs x). ?wave n = Some (w - 1)))" if "x \<in> set done" for x
  proof -
    from lay that obtain w where w: "w \<ge> 0" "wave x = Some w"
      "\<forall>n \<in> set (needs_of jobs x). n \<in> set done \<and> (\<exists>v. wave n = Some v \<and> v < w)"
      "w > 0 \<longrightarrow> (\<exists>n \<in> set (needs_of jobs x). wave n = Some (w - 1))"
      unfolding layered_def by blast
    with that new show ?thesis by (intro exI [of _ w]) (auto; metis)
  qed
  moreover have "\<exists>v. ?wave n = Some v \<and> v < ?w" if n: "n \<in> set (needs_of jobs k)" for n
  proof -
    from n needs new have "n \<noteq> k" "n \<in> set done" by auto
    moreover from this lay obtain v where "wave n = Some v" unfolding layered_def by blast
    ultimately show ?thesis using max_dep_wave_props(2) [OF n, of wave] by force
  qed
  moreover have "\<exists>n \<in> set (needs_of jobs k). ?wave n = Some (?w - 1)" if "?w > 0"
    using that max_dep_wave_props(3) [of wave "needs_of jobs k" "-1"] new needs by auto
  moreover have "0 \<le> ?w" using max_dep_wave_props(1) [of "-1" wave "needs_of jobs k"] by simp
  ultimately show ?thesis
    using needs unfolding layered_def by auto
qed

lemma assign_waves_layered:
  assumes "topo_ordered jobs (done @ rest)" "layered jobs wave done" "dom wave = set done"
  shows "\<exists>wave'. assign_waves jobs rest wave = Inr wave' \<and> layered jobs wave' (done @ rest)
     \<and> dom wave' = set (done @ rest)"
  using assms
proof (induction rest arbitrary: "done" wave)
  case (Cons k rest)
  then have "k \<in> fst ` set jobs" and new: "k \<notin> set done"
    by (auto simp: topo_ordered_def)
  then obtain j where j: "omap_get jobs k = Some j"
    by (metis omap_get_None_iff not_None_eq)
  then have nk: "needs_of jobs k = job_needs j" by (simp add: needs_of_def)
  have "set (needs_of jobs k) \<subseteq> set done"
    using Cons.prems(1)
    by (auto simp: topo_ordered_def dest!: spec [of _ "length done"])
  from layered_snoc [OF Cons.prems(2) new this]
  have "layered jobs (wave(k \<mapsto> max_dep_wave wave (job_needs j) (-1) + 1)) (done @ [k])"
    by (simp add: nk)
  moreover have "dom (wave(k \<mapsto> max_dep_wave wave (job_needs j) (-1) + 1)) = set (done @ [k])"
    using Cons.prems(3) by auto
  moreover have "topo_ordered jobs ((done @ [k]) @ rest)"
    using Cons.prems(1) by simp
  ultimately have "\<exists>wave'. assign_waves jobs rest (wave(k \<mapsto> max_dep_wave wave (job_needs j) (-1) + 1)) = Inr wave'
      \<and> layered jobs wave' ((done @ [k]) @ rest) \<and> dom wave' = set ((done @ [k]) @ rest)"
    by (intro Cons.IH)
  with j show ?case by (simp del: fun_upd_apply)
qed simp

lemma place_in_waves_eq:
  assumes "\<forall>k \<in> set ks. wave_at wave k < length ws"
  shows "place_in_waves wave ks ws =
    map (\<lambda>i. ws ! i @ filter (\<lambda>k. wave_at wave k = i) ks) [0..<length ws]"
  using assms
proof (induction ks arbitrary: ws)
  case Nil
  then show ?case by (simp add: map_nth)
next
  case (Cons k ks)
  then have "place_in_waves wave (k # ks) ws =
      map (\<lambda>i. ws[wave_at wave k := ws ! wave_at wave k @ [k]] ! i @ filter (\<lambda>k. wave_at wave k = i) ks)
        [0..<length ws]"
    by simp
  also have "\<dots> = map (\<lambda>i. ws ! i @ filter (\<lambda>j. wave_at wave j = i) (k # ks)) [0..<length ws]"
    by (rule map_cong) (auto simp: nth_list_update)
  finally show ?case .
qed

lemma foldl_max_ge:
  "(m::nat) \<le> foldl (\<lambda>m k. max m (f k)) m ks"
  "k \<in> set ks \<Longrightarrow> f k \<le> foldl (\<lambda>m k. max m (f k)) m ks"
proof (induction ks arbitrary: m)
  case (Cons a ks)
  { case 1 show ?case using Cons.IH(1) [of "max m (f a)"] by simp }
  { case 2 then show ?case using Cons.IH(1) [of "max m (f a)"] Cons.IH(2) [of "max m (f a)"] by auto }
qed simp_all

lemma mset_concat_filter_waves:
  "\<forall>k \<in> set ks. f k < (n::nat) \<Longrightarrow>
   mset (concat (map (\<lambda>i. filter (\<lambda>k. f k = i) ks) [0..<n])) = mset ks"
proof (induction ks)
  case Nil
  then show ?case by (induction n) auto
next
  case (Cons k ks)
  have "mset (concat (map (\<lambda>i. filter (\<lambda>j. f j = i) (k # ks)) [0..<n])) =
      mset (concat (map (\<lambda>i. if f k = i then [k] else []) [0..<n])) +
      mset (concat (map (\<lambda>i. filter (\<lambda>j. f j = i) ks) [0..<n]))"
    by (induction n) auto
  also have "mset (concat (map (\<lambda>i. if f k = i then [k] else []) [0..<n])) = {#k#}"
  proof -
    have "f k < m \<Longrightarrow> mset (concat (map (\<lambda>i. if f k = i then [k] else []) [0..<m])) = {#k#}"
      "\<not> f k < m \<Longrightarrow> mset (concat (map (\<lambda>i. if f k = i then [k] else []) [0..<m])) = {#}" for m
      by (induction m) (auto simp: less_Suc_eq)
    with Cons.prems show ?thesis by simp
  qed
  finally show ?case using Cons by simp
qed

lemma waveSchedule_eq:
  assumes "topo_ordered jobs ord"
  obtains wave n where "layered jobs wave ord" "\<forall>k \<in> set ord. wave_at wave k < n"
    "waveSchedule jobs ord = Inr (map (\<lambda>i. filter (\<lambda>k. wave_at wave k = i) ord) [0..<n])"
proof -
  obtain wave where w: "assign_waves jobs ord Map.empty = Inr wave" "layered jobs wave ord"
    using assign_waves_layered [of jobs "[]" ord Map.empty] assms by (auto simp: layered_def)
  define n where "n = foldl (\<lambda>m k. max m (wave_at wave k)) 0 ord + 1"
  have lt: "\<forall>k \<in> set ord. wave_at wave k < n"
    using foldl_max_ge(2) by (fastforce simp: n_def less_Suc_eq_le)
  have "waveSchedule jobs ord = Inr (place_in_waves wave ord (replicate n []))"
    by (simp add: waveSchedule_def w n_def Let_def)
  also have "place_in_waves wave ord (replicate n []) =
      map (\<lambda>i. filter (\<lambda>k. wave_at wave k = i) ord) [0..<n]"
    using lt by (simp add: place_in_waves_eq)
  finally show ?thesis using that w lt by blast
qed

lemma waveSchedule_spec:
  assumes topo: "topo_ordered jobs ord"
  shows "\<exists>ws. waveSchedule jobs ord = Inr ws \<and> mset (concat ws) = mset ord
    \<and> (\<forall>w < length ws. \<forall>k \<in> set (ws ! w). \<forall>n \<in> set (needs_of jobs k). \<exists>v < w. n \<in> set (ws ! v))
    \<and> (\<forall>w. 0 < w \<and> w < length ws \<longrightarrow>
          (\<forall>k \<in> set (ws ! w). \<exists>n \<in> set (needs_of jobs k). n \<in> set (ws ! (w - 1))))"
proof -
  obtain wave n where lay: "layered jobs wave ord" and lt: "\<forall>k \<in> set ord. wave_at wave k < n"
    and ws: "waveSchedule jobs ord = Inr (map (\<lambda>i. filter (\<lambda>k. wave_at wave k = i) ord) [0..<n])"
    using waveSchedule_eq [OF topo] .
  let ?ws = "map (\<lambda>i. filter (\<lambda>k. wave_at wave k = i) ord) [0..<n]"
  have "mset (concat ?ws) = mset ord" by (rule mset_concat_filter_waves [OF lt])
  moreover have "\<exists>v < w. m \<in> set (?ws ! v)"
    if "w < n" "k \<in> set (?ws ! w)" "m \<in> set (needs_of jobs k)" for w k m
  proof -
    from that(1,2) have k: "k \<in> set ord" "wave_at wave k = w" by auto
    obtain wk where wk: "nat wk = w" "\<forall>m \<in> set (needs_of jobs k). m \<in> set ord \<and> (\<exists>v. wave m = Some v \<and> v < wk)"
      using layeredE [OF lay k(1)] k(2) by metis
    from wk(2) that(3) obtain v where v: "m \<in> set ord" "wave m = Some v" "v < wk" by blast
    have "v \<ge> 0" "wave_at wave m = nat v"
      using layeredE [OF lay v(1)] v(2) by (metis option.inject, metis option.inject)
    then have "m \<in> set ord" "wave_at wave m < w" using v wk(1) by auto
    with that(1) show ?thesis by (intro exI [of _ "wave_at wave m"]) auto
  qed
  moreover have "\<exists>m \<in> set (needs_of jobs k). m \<in> set (?ws ! (w - 1))"
    if "0 < w" "w < n" "k \<in> set (?ws ! w)" for w k
  proof -
    from that(2,3) have k: "k \<in> set ord" "wave_at wave k = w" by auto
    obtain wk where wk: "nat wk = w" "\<forall>m \<in> set (needs_of jobs k). m \<in> set ord \<and> (\<exists>v. wave m = Some v \<and> v < wk)"
      "wk > 0 \<longrightarrow> (\<exists>m \<in> set (needs_of jobs k). wave m = Some (wk - 1))"
      using layeredE [OF lay k(1)] k(2) by metis
    with that(1) obtain m where "m \<in> set (needs_of jobs k)" "wave m = Some (wk - 1)" by auto
    moreover from this wk have "wave_at wave m = w - 1" "m \<in> set ord" by (auto simp: wave_at_def)
    ultimately show ?thesis using that(2) by (intro bexI [of _ m]) auto
  qed
  ultimately show ?thesis using ws by auto
qed

text \<open>
  C21. For a topologically ordered list of jobs the wave schedule is total and partitions exactly
  those jobs; every job sits in a later wave than each of its needs, so a wave only starts when its
  dependencies are complete; and it sits in the earliest such wave, directly after one of its needs.
\<close>

theorem waveSchedule_correct:
  assumes topo: "topo_ordered jobs ord"
  shows "\<exists>ws. waveSchedule jobs ord = Inr ws \<and> mset (concat ws) = mset ord
    \<and> (\<forall>w < length ws. \<forall>k \<in> set (ws ! w). \<forall>n \<in> set (needs_of jobs k). \<exists>v < w. n \<in> set (ws ! v))
    \<and> (\<forall>w. 0 < w \<and> w < length ws \<longrightarrow>
          (\<forall>k \<in> set (ws ! w). \<exists>n \<in> set (needs_of jobs k). n \<in> set (ws ! (w - 1))))"
  by (rule waveSchedule_spec [OF assms])

theorem waveSchedule_correct_witness:
  "\<exists>ws. waveSchedule demo_jobs [''setup'', ''build'', ''test''] = Inr ws
     \<and> mset (concat ws) = mset [''setup'', ''build'', ''test'']"
proof -
  have "topo_ordered demo_jobs [''setup'', ''build'', ''test'']"
    by (auto simp: topo_ordered_def demo_jobs_def needs_of_def omap_get_def less_Suc_eq default_job_def)
  from waveSchedule_correct [OF this] show ?thesis by blast
qed

end
