(* ===== verification/Cxx_Double.thy ===== *)
theory Cxx_Double
  imports Prelude
begin

text \<open>
  The \<^verbatim>\<open>double\<close>s of the expression language: values, rounding to 53 bits, \<^verbatim>\<open>std::stod\<close> and the
  default formatting of \<^verbatim>\<open>operator<<\<close>.  A finite double is the rational it denotes; the sign of
  a zero is dropped, since nothing in the sources can observe it (there is no division, and a zero
  is printed through \<^verbatim>\<open>int64_t\<close>).
\<close>

datatype dbl = Fin rat | PInf | NInf | NaN

fun dbl_eq :: "dbl \<Rightarrow> dbl \<Rightarrow> bool" where
  "dbl_eq (Fin a) (Fin b) \<longleftrightarrow> a = b"
| "dbl_eq PInf PInf \<longleftrightarrow> True"
| "dbl_eq NInf NInf \<longleftrightarrow> True"
| "dbl_eq _ _ \<longleftrightarrow> False"

fun dbl_less :: "dbl \<Rightarrow> dbl \<Rightarrow> bool" where
  "dbl_less (Fin a) (Fin b) \<longleftrightarrow> a < b"
| "dbl_less (Fin _) PInf \<longleftrightarrow> True"
| "dbl_less NInf (Fin _) \<longleftrightarrow> True"
| "dbl_less NInf PInf \<longleftrightarrow> True"
| "dbl_less _ _ \<longleftrightarrow> False"

definition dbl_le :: "dbl \<Rightarrow> dbl \<Rightarrow> bool" where
  "dbl_le a b \<longleftrightarrow> dbl_less a b \<or> dbl_eq a b"

section \<open>Rounding\<close>

definition scale :: "rat \<Rightarrow> int \<Rightarrow> int \<Rightarrow> rat" where
  "scale base e = (\<lambda>m. of_int m * (if 0 \<le> e then base ^ nat e else 1 / base ^ nat (- e)))"

function ilog2 :: "int \<Rightarrow> int" where
  "ilog2 n = (if n < 2 then 0 else 1 + ilog2 (n div 2))"
  by auto
termination by (relation "measure nat") auto

declare ilog2.simps [simp del]

text \<open>The exponent \<open>k\<close> with $2^k \le |x| < 2^{k+1}$, for a non-zero \<open>x\<close>.\<close>

definition bin_exp :: "rat \<Rightarrow> int" where
  "bin_exp x =
     (let (a, b) = quotient_of \<bar>x\<bar>;
          k = ilog2 a - ilog2 b
      in if scale 2 k 1 \<le> \<bar>x\<bar> then k else k - 1)"

definition round_half_even :: "rat \<Rightarrow> int" where
  "round_half_even x =
     (let f = \<lfloor>x\<rfloor>; d = x - of_int f
      in if d < 1 / 2 then f else if 1 / 2 < d then f + 1 else if even f then f else f + 1)"

definition round53 :: "rat \<Rightarrow> rat" where
  "round53 x =
     (if x = 0 then 0
      else let e = max (- 1074) (bin_exp x - 52) in scale 2 e (round_half_even (x / scale 2 e 1)))"

text \<open>
  The range errors of \<^verbatim>\<open>strtod\<close>, which \<^verbatim>\<open>std::stod\<close> turns into \<^verbatim>\<open>std::out_of_range\<close>: overflow,
  and a subnormal result that is not exact.
\<close>

definition to_dbl :: "rat \<Rightarrow> dbl result" where
  "to_dbl x =
     (let r = round53 x
      in if scale 2 1024 1 \<le> \<bar>r\<bar> then Inl (Out_of_range ''stod'')
         else if \<bar>r\<bar> < scale 2 (- 1022) 1 \<and> r \<noteq> x then Inl (Out_of_range ''stod'')
         else Inr (Fin r))"

section \<open>std::stod\<close>

definition is_xdigit :: "char \<Rightarrow> bool" where
  "is_xdigit c \<longleftrightarrow> is_digit c \<or> 97 \<le> ascii (to_lower_char c) \<and> ascii (to_lower_char c) \<le> 102"

definition xdigit_val :: "char \<Rightarrow> nat" where
  "xdigit_val c = (if is_digit c then digit_val c else ascii (to_lower_char c) - 87)"

definition digits_val :: "int \<Rightarrow> string \<Rightarrow> int" where
  "digits_val base s = foldl (\<lambda>acc c. acc * base + int (xdigit_val c)) 0 s"

text \<open>
  A mantissa: digits, optionally a point and more digits; \<^const>\<open>None\<close> if there is no digit at all.
  The result is the digits without the point, the number of digits behind it, and the rest.
\<close>

definition scan_mantissa :: "(char \<Rightarrow> bool) \<Rightarrow> string \<Rightarrow> (string \<times> nat \<times> string) option" where
  "scan_mantissa isd s =
     (let ip = takeWhile isd s; r = dropWhile isd s;
          (fp, r') = (case r of c # r1 \<Rightarrow> if c = CHR ''.'' then (takeWhile isd r1, dropWhile isd r1) else ([], r)
                              | [] \<Rightarrow> ([], r))
      in if ip = [] \<and> fp = [] then None else Some (ip @ fp, length fp, r'))"

text \<open>An exponent part introduced by the letter \<open>e\<close>; absent or malformed parts count as zero.\<close>

definition scan_exponent :: "char \<Rightarrow> string \<Rightarrow> int" where
  "scan_exponent e s =
     (case s of
        c # r \<Rightarrow>
          if to_lower_char c = e then
            (let (neg, ds) = (case r of d # r' \<Rightarrow> if d = CHR ''-'' then (True, r') else if d = CHR ''+'' then (False, r') else (False, r)
                                     | [] \<Rightarrow> (False, []));
                 ex = int (dec_val (takeWhile is_digit ds))
             in if neg then - ex else ex)
          else 0
      | [] \<Rightarrow> 0)"

definition stod_magnitude :: "string \<Rightarrow> dbl result" where
  "stod_magnitude s =
     (if starts_with (to_lower s) ''inf'' then Inr PInf
      else if starts_with (to_lower s) ''nan'' then Inr NaN
      else if starts_with (to_lower s) ''0x'' \<and> scan_mantissa is_xdigit (drop 2 s) \<noteq> None then
        (case scan_mantissa is_xdigit (drop 2 s) of
           Some (ds, n, r) \<Rightarrow> to_dbl (scale 2 (scan_exponent CHR ''p'' r - 4 * int n) (digits_val 16 ds))
         | None \<Rightarrow> Inl (Invalid_argument ''stod''))
      else
        (case scan_mantissa is_digit s of
           Some (ds, n, r) \<Rightarrow> to_dbl (scale 10 (scan_exponent CHR ''e'' r - int n) (digits_val 10 ds))
         | None \<Rightarrow> Inl (Invalid_argument ''stod'')))"

fun dbl_neg :: "dbl \<Rightarrow> dbl" where
  "dbl_neg (Fin a) = Fin (- a)"
| "dbl_neg PInf = NInf"
| "dbl_neg NInf = PInf"
| "dbl_neg NaN = NaN"

definition stod :: "string \<Rightarrow> dbl result" where
  "stod s =
     (case dropWhile is_space s of
        c # r \<Rightarrow>
          if c = CHR ''-'' then map_sum (\<lambda>e. e) dbl_neg (stod_magnitude r)
          else if c = CHR ''+'' then stod_magnitude r
          else stod_magnitude (c # r)
      | [] \<Rightarrow> Inl (Invalid_argument ''stod''))"

section \<open>Formatting\<close>

text \<open>
  \<^verbatim>\<open>oss << n\<close> with the default precision is \<^verbatim>\<open>%g\<close>: six significant digits, trailing zeros
  removed, an exponent below $-4$ or from $6$ on.
\<close>

function dec_exp_up :: "rat \<Rightarrow> int \<Rightarrow> int" where
  "dec_exp_up x k = (if scale 10 (k + 1) 1 \<le> x \<and> k < 400 then dec_exp_up x (k + 1) else k)"
  by auto
termination by (relation "measure (\<lambda>(x, k). nat (400 - k))") auto

declare dec_exp_up.simps [simp del]

text \<open>The exponent \<open>k\<close> with $10^k \le x < 10^{k+1}$; doubles lie between $10^{-330}$ and $10^{400}$.\<close>

definition dec_exp :: "rat \<Rightarrow> int" where
  "dec_exp x = dec_exp_up x (- 330)"

definition strip_zeros :: "string \<Rightarrow> string" where
  "strip_zeros ds = rev (dropWhile (\<lambda>c. c = CHR ''0'') (rev ds))"

definition with_point :: "string \<Rightarrow> string \<Rightarrow> string" where
  "with_point ip fp = (let fp = strip_zeros fp in if fp = [] then ip else ip @ ''.'' @ fp)"

definition pad_zeros :: "nat \<Rightarrow> string \<Rightarrow> string" where
  "pad_zeros w s = replicate (w - length s) CHR ''0'' @ s"

definition format_pos :: "rat \<Rightarrow> string" where
  "format_pos x =
     (let k0 = dec_exp x;
          m0 = round_half_even (x * scale 10 (5 - k0) 1);
          (m, k) = (if m0 = 1000000 then (100000, k0 + 1) else (m0, k0));
          ds = nat_to_string (nat m)
      in if k < - 4 \<or> 6 \<le> k then
           with_point (take 1 ds) (drop 1 ds) @ ''e'' @ (if k < 0 then ''-'' else ''+'')
             @ pad_zeros 2 (nat_to_string (nat \<bar>k\<bar>))
         else if 0 \<le> k then with_point (take (Suc (nat k)) ds) (drop (Suc (nat k)) ds)
         else with_point ''0'' (replicate (nat (- k) - 1) CHR ''0'' @ ds))"

fun format_g :: "dbl \<Rightarrow> string" where
  "format_g PInf = ''inf''"
| "format_g NInf = ''-inf''"
| "format_g NaN = ''nan''"
| "format_g (Fin x) = (if x = 0 then ''0'' else if x < 0 then ''-'' @ format_pos (- x) else format_pos x)"

lemma dbl_eq_sym: "dbl_eq a b = dbl_eq b a"
  by (cases a; cases b) auto

lemma dbl_eq_refl: "dbl_eq a a \<longleftrightarrow> a \<noteq> NaN"
  by (cases a) auto

text \<open>Integers below $2^{53}$ are doubles.\<close>

lemma round_half_even_int [simp]: "round_half_even (of_int m) = m"
  by (simp add: round_half_even_def)

end
