(* ===== verification/Expr_Evaluator.thy ===== *)
theory Expr_Evaluator
  imports Cxx_Double
begin

text \<open>
  \<^verbatim>\<open>src/src/workflow/ExprEvaluator.cpp\<close>: the expression language of workflow files.  Values and
  their coercions, the context, the tokenizer, the recursive-descent parser that evaluates while it
  parses, the built-in functions, and the interpolation of \<^verbatim>\<open>${{ }}\<close> in text.

  Outcomes are \<open>EOk\<close>, an exception (\<open>EThrow\<close>) or undefined behaviour (\<open>EUndef\<close>: a read behind the
  last token, or a signed overflow).  The parser may fail to return; that is \<^const>\<open>None\<close>.
  nlohmann::json, OpenSSL, glob(3), fnmatch(3) and the file system are parameters, the fields of the
  record \<open>world\<close>.
\<close>

datatype ub = Read_past_end | Signed_overflow

datatype 'a eres = EOk 'a | EThrow exn | EUndef ub

fun ebind :: "'a eres \<Rightarrow> ('a \<Rightarrow> 'b eres) \<Rightarrow> 'b eres" where
  "ebind (EOk x) k = k x"
| "ebind (EThrow e) k = EThrow e"
| "ebind (EUndef u) k = EUndef u"

fun of_result :: "'a result \<Rightarrow> 'a eres" where
  "of_result (Inl e) = EThrow e"
| "of_result (Inr x) = EOk x"

section \<open>Values\<close>

datatype expr_value = ENull | EBool bool | ENumber dbl | EString string

fun isTruthy :: "expr_value \<Rightarrow> bool" where
  "isTruthy ENull \<longleftrightarrow> False"
| "isTruthy (EBool b) \<longleftrightarrow> b"
| "isTruthy (ENumber n) \<longleftrightarrow> \<not> dbl_eq n (Fin 0) \<and> n \<noteq> NaN"
| "isTruthy (EString s) \<longleftrightarrow> s \<noteq> []"

fun toString :: "expr_value \<Rightarrow> string" where
  "toString ENull = []"
| "toString (EBool b) = (if b then ''true'' else ''false'')"
| "toString (ENumber n) =
     (case n of
        Fin x \<Rightarrow> if x = of_int \<lfloor>x\<rfloor> \<and> \<bar>x\<bar> < 10 ^ 15 then int_to_string \<lfloor>x\<rfloor> else format_g n
      | _ \<Rightarrow> format_g n)"
| "toString (EString s) = s"

fun toNumber :: "expr_value \<Rightarrow> dbl" where
  "toNumber ENull = Fin 0"
| "toNumber (EBool b) = Fin (if b then 1 else 0)"
| "toNumber (ENumber n) = n"
| "toNumber (EString s) = (case stod s of Inr d \<Rightarrow> d | Inl _ \<Rightarrow> NaN)"

text \<open>\<^verbatim>\<open>ExprValue::operator==\<close>, branch by branch.\<close>

fun value_eq :: "expr_value \<Rightarrow> expr_value \<Rightarrow> bool" where
  "value_eq ENull ENull \<longleftrightarrow> True"
| "value_eq ENull (EBool b) \<longleftrightarrow> \<not> b"
| "value_eq ENull (ENumber n) \<longleftrightarrow> dbl_eq (Fin 0) n"
| "value_eq ENull (EString s) \<longleftrightarrow> s = []"
| "value_eq (EBool b) ENull \<longleftrightarrow> \<not> b"
| "value_eq (ENumber n) ENull \<longleftrightarrow> dbl_eq n (Fin 0)"
| "value_eq (EString s) ENull \<longleftrightarrow> s = []"
| "value_eq (EBool a) v \<longleftrightarrow> isTruthy (EBool a) = isTruthy v"
| "value_eq v (EBool b) \<longleftrightarrow> isTruthy v = isTruthy (EBool b)"
| "value_eq (ENumber a) v \<longleftrightarrow> dbl_eq (toNumber (ENumber a)) (toNumber v)"
| "value_eq v (ENumber b) \<longleftrightarrow> dbl_eq (toNumber v) (toNumber (ENumber b))"
| "value_eq (EString s) (EString t) \<longleftrightarrow> to_lower s = to_lower t"

section \<open>Context\<close>

type_synonym expr_context = "expr_value smap"

definition ctx_set :: "string \<Rightarrow> expr_value \<Rightarrow> expr_context \<Rightarrow> expr_context" where
  "ctx_set path v ctx = omap_set path v ctx"

definition setString :: "string \<Rightarrow> string \<Rightarrow> expr_context \<Rightarrow> expr_context" where
  "setString path v ctx = ctx_set path (EString v) ctx"

fun find_lower :: "string \<Rightarrow> expr_context \<Rightarrow> expr_value" where
  "find_lower lower [] = ENull"
| "find_lower lower ((k, v) # ctx) = (if to_lower k = lower then v else find_lower lower ctx)"

definition ctx_get :: "expr_context \<Rightarrow> string \<Rightarrow> expr_value" where
  "ctx_get ctx path =
     (case omap_get ctx path of Some v \<Rightarrow> v | None \<Rightarrow> find_lower (to_lower path) ctx)"

section \<open>Tokenizer\<close>

datatype token =
    LitString string | LitNumber string dbl | LitBool bool | LitNull
  | Identifier string
  | OpAnd | OpOr | OpNot | OpEq | OpNeq | OpLt | OpLte | OpGt | OpGte
  | LParen | RParen | Comma | Dot
  | Eof

definition isIdentStart :: "char \<Rightarrow> bool" where
  "isIdentStart c \<longleftrightarrow> is_alpha c \<or> c = CHR ''_''"

definition isIdentChar :: "char \<Rightarrow> bool" where
  "isIdentChar c \<longleftrightarrow> is_alnum c \<or> c = CHR ''_'' \<or> c = CHR ''-''"

fun lex_string :: "char \<Rightarrow> string \<Rightarrow> string \<times> string" where
  "lex_string q [] = ([], [])"
| "lex_string q [c] = (if c = q then ([], []) else ([c], []))"
| "lex_string q (c # d # cs) =
     (if c = q then ([], d # cs)
      else if c = CHR 0x5C then (let (l, r) = lex_string q cs in (d # l, r))
      else (let (l, r) = lex_string q (d # cs) in (c # l, r)))"

lemma lex_string_length [termination_simp]: "(l, r) = lex_string q cs \<Longrightarrow> length r \<le> length cs"
  by (induction q cs arbitrary: l r rule: lex_string.induct)
    (fastforce split: if_splits prod.splits simp: Let_def)+

text \<open>The operators of two characters and of one, in the order of the source.\<close>

definition two_char_op :: "string \<Rightarrow> token option" where
  "two_char_op two =
     (if two = ''&&'' then Some OpAnd else if two = ''||'' then Some OpOr
      else if two = ''=='' then Some OpEq else if two = ''!='' then Some OpNeq
      else if two = ''<='' then Some OpLte else if two = ''>='' then Some OpGte else None)"

definition one_char_op :: "char \<Rightarrow> token option" where
  "one_char_op c =
     (if c = CHR ''!'' then Some OpNot else if c = CHR ''<'' then Some OpLt
      else if c = CHR ''>'' then Some OpGt else if c = CHR ''('' then Some LParen
      else if c = CHR '')'' then Some RParen else if c = CHR '','' then Some Comma
      else if c = CHR ''.'' then Some Dot else None)"

definition keyword :: "string \<Rightarrow> token" where
  "keyword w = (if w = ''true'' then LitBool True else if w = ''false'' then LitBool False
     else if w = ''null'' then LitNull else Identifier w)"

definition is_quote :: "char \<Rightarrow> bool" where
  "is_quote c \<longleftrightarrow> c = CHR 0x27 \<or> c = CHR 0x22"

definition starts_number :: "char \<Rightarrow> string \<Rightarrow> bool" where
  "starts_number c cs \<longleftrightarrow> is_digit c \<or> c = CHR ''-'' \<and> cs \<noteq> [] \<and> is_digit (hd cs)"

definition num_char :: "char \<Rightarrow> bool" where
  "num_char c \<longleftrightarrow> is_digit c \<or> c = CHR ''.''"

lemma dropWhile_shorter [simp]: "length (dropWhile P xs) \<le> length xs"
  by (induction xs) auto

lemma dropWhile_rest: "dropWhile P xs = c # cs \<Longrightarrow> n \<le> length cs \<Longrightarrow> n < length xs"
  using dropWhile_shorter [of P xs] by simp

function tokenize :: "string \<Rightarrow> token list eres" where
  "tokenize expr =
     (case dropWhile is_space expr of
        [] \<Rightarrow> EOk [Eof]
      | c # cs \<Rightarrow>
          if is_quote c then
            (let (s, rest) = lex_string c cs in ebind (tokenize rest) (\<lambda>ts. EOk (LitString s # ts)))
          else if starts_number c cs then
            (let ns = c # takeWhile num_char cs
             in ebind (of_result (stod ns)) (\<lambda>d.
                ebind (tokenize (dropWhile num_char cs)) (\<lambda>ts. EOk (LitNumber ns d # ts))))
          else (case two_char_op (take 2 (c # cs)) of
             Some t \<Rightarrow> ebind (tokenize (drop 1 cs)) (\<lambda>ts. EOk (t # ts))
           | None \<Rightarrow>
               (case one_char_op c of
                  Some t \<Rightarrow> ebind (tokenize cs) (\<lambda>ts. EOk (t # ts))
                | None \<Rightarrow>
                    if isIdentStart c then
                      ebind (tokenize (dropWhile isIdentChar cs))
                        (\<lambda>ts. EOk (keyword (c # takeWhile isIdentChar cs) # ts))
                    else tokenize cs)))"
  by pat_completeness auto
termination
  by (relation "measure length") (auto elim!: dropWhile_rest simp: lex_string_length)

declare tokenize.simps [simp del]

section \<open>Built-in functions\<close>

text \<open>What the functions use from outside the sources.\<close>

datatype json_value = JString string | JBool bool | JNumber dbl | JOther string

datatype fs_tree = FileNode | DirNode "(string \<times> fs_tree) list" | UnreadableDir "(string \<times> fs_tree) list" | OtherNode

record world =
  json_dump :: "string \<Rightarrow> string result"
  json_parse :: "string \<Rightarrow> json_value option"
  sha256 :: "string \<Rightarrow> string"
  glob3 :: "string \<Rightarrow> string list"
  is_regular_file :: "string \<Rightarrow> bool"
  fnmatch :: "string \<Rightarrow> string \<Rightarrow> bool"
  dir_tree :: "string \<Rightarrow> fs_tree"
  read_file :: "string \<Rightarrow> string option"
  getenv_workspace :: "string option"

definition fnContains :: "expr_value list \<Rightarrow> expr_value" where
  "fnContains args =
     (case args of
        a # b # _ \<Rightarrow> EBool (str_find (to_lower (toString b)) (to_lower (toString a)) \<noteq> None)
      | _ \<Rightarrow> EBool False)"

definition fnStartsWith :: "expr_value list \<Rightarrow> expr_value" where
  "fnStartsWith args =
     (case args of
        a # b # _ \<Rightarrow> (let s = to_lower (toString a); p = to_lower (toString b) in EBool (take (length p) s = p))
      | _ \<Rightarrow> EBool False)"

definition fnEndsWith :: "expr_value list \<Rightarrow> expr_value" where
  "fnEndsWith args =
     (case args of
        a # b # _ \<Rightarrow>
          (let s = to_lower (toString a); p = to_lower (toString b)
           in if length s < length p then EBool False else EBool (drop (length s - length p) s = p))
      | _ \<Rightarrow> EBool False)"

text \<open>
  One placeholder \<open>{ds}\<close>: \<^verbatim>\<open>std::stoi\<close> throws above \<^verbatim>\<open>INT_MAX\<close>, and \<^verbatim>\<open>idx + 1\<close> overflows at it.
\<close>

definition format_arg :: "expr_value list \<Rightarrow> string \<Rightarrow> string eres" where
  "format_arg args ds =
     (let idx = int (dec_val ds)
      in if 2 ^ 31 - 1 < idx then EThrow (Out_of_range ''stoi'')
         else if idx = 2 ^ 31 - 1 then EUndef Signed_overflow
         else if idx + 1 < int (length args) then EOk (toString (args ! nat (idx + 1)))
         else EOk [])"

lemma dropWhile_tl_shorter [termination_simp]: "length (dropWhile P xs) - Suc 0 < Suc (length xs)"
  using dropWhile_shorter [of P xs] by linarith

fun format_from :: "expr_value list \<Rightarrow> string \<Rightarrow> string eres" where
  "format_from args [] = EOk []"
| "format_from args (c # cs) =
     (let ds = takeWhile is_digit cs; rest = dropWhile is_digit cs
      in if c = CHR ''{'' \<and> ds \<noteq> [] \<and> rest \<noteq> [] \<and> hd rest = CHR ''}''
         then ebind (format_arg args ds) (\<lambda>a. ebind (format_from args (tl rest)) (\<lambda>r. EOk (a @ r)))
         else ebind (format_from args cs) (\<lambda>r. EOk (c # r)))"

definition fnFormat :: "expr_value list \<Rightarrow> expr_value eres" where
  "fnFormat args =
     (case args of
        [] \<Rightarrow> EOk (EString [])
      | fmt # _ \<Rightarrow> ebind (format_from args (toString fmt)) (\<lambda>s. EOk (EString s)))"

definition fnJoin :: "expr_value list \<Rightarrow> expr_value" where
  "fnJoin args = (case args of [] \<Rightarrow> EString [] | a # _ \<Rightarrow> EString (toString a))"

definition fnToJSON :: "world \<Rightarrow> expr_value list \<Rightarrow> expr_value eres" where
  "fnToJSON w args =
     (case args of
        [] \<Rightarrow> EOk (EString ''null'')
      | v # _ \<Rightarrow>
          (case v of
             ENull \<Rightarrow> EOk (EString ''null'')
           | EBool b \<Rightarrow> EOk (EString (if b then ''true'' else ''false''))
           | ENumber n \<Rightarrow> EOk (EString (toString v))
           | EString s \<Rightarrow> ebind (of_result (json_dump w s)) (\<lambda>d. EOk (EString d))))"

definition fnFromJSON :: "world \<Rightarrow> expr_value list \<Rightarrow> expr_value" where
  "fnFromJSON w args =
     (case args of
        [] \<Rightarrow> ENull
      | a # _ \<Rightarrow>
          (case json_parse w (toString a) of
             None \<Rightarrow> ENull
           | Some (JString s) \<Rightarrow> EString s
           | Some (JBool b) \<Rightarrow> EBool b
           | Some (JNumber n) \<Rightarrow> ENumber n
           | Some (JOther d) \<Rightarrow> EString d))"

text \<open>
  \<^verbatim>\<open>globRecursive\<close>: without \<^verbatim>\<open>**\<close> plain glob(3); otherwise a walk over the directory tree that
  matches every regular file's path relative to the base directory.
\<close>

definition strip_slash :: "string \<Rightarrow> string" where
  "strip_slash s = (if s \<noteq> [] \<and> hd s = CHR ''/'' then tl s else s)"

definition rel_pattern_of :: "string \<Rightarrow> string \<Rightarrow> string" where
  "rel_pattern_of base_dir pat =
     (if pat \<noteq> [] \<and> hd pat = CHR ''/'' \<and> take (length base_dir) pat = base_dir
      then strip_slash (drop (length base_dir) pat) else pat)"

fun walk_dir :: "world \<Rightarrow> string \<Rightarrow> string \<Rightarrow> string \<Rightarrow> fs_tree \<Rightarrow> string list"
  and walk_entries :: "world \<Rightarrow> string \<Rightarrow> string \<Rightarrow> string \<Rightarrow> (string \<times> fs_tree) list \<Rightarrow> string list" where
  "walk_dir w base pat dir (DirNode entries) = walk_entries w base pat dir entries"
| "walk_dir w base pat dir _ = []"
| "walk_entries w base pat dir [] = []"
| "walk_entries w base pat dir ((name, node) # rest) =
     (let abs_path = dir @ ''/'' @ name;
          here = (if name = ''.'' \<or> name = ''..'' then []
                  else case node of
                    FileNode \<Rightarrow>
                      (if fnmatch w pat (strip_slash (drop (length base) abs_path)) then [abs_path] else [])
                  | OtherNode \<Rightarrow> []
                  | _ \<Rightarrow> walk_dir w base pat abs_path node)
      in here @ walk_entries w base pat dir rest)"

definition globRecursive :: "world \<Rightarrow> string \<Rightarrow> string \<Rightarrow> string list" where
  "globRecursive w base_dir pat =
     (if str_find ''**'' pat = None then
        filter (is_regular_file w)
          (glob3 w (if pat \<noteq> [] \<and> hd pat = CHR ''/'' then pat else base_dir @ ''/'' @ pat))
      else walk_dir w base_dir (rel_pattern_of base_dir pat) base_dir (dir_tree w base_dir))"

definition hex_digit :: "nat \<Rightarrow> char" where
  "hex_digit d = ''0123456789abcdef'' ! d"

definition to_hex :: "string \<Rightarrow> string" where
  "to_hex bs = concat (map (\<lambda>c. [hex_digit (ascii c div 16 mod 16), hex_digit (ascii c mod 16)]) bs)"

definition hash_workspace :: "world \<Rightarrow> expr_context \<Rightarrow> string" where
  "hash_workspace w ctx =
     (let ws = (case ctx_get ctx ''env.GITHUB_WORKSPACE'' of
                  EString s \<Rightarrow> if s \<noteq> [] then s else (case getenv_workspace w of Some e \<Rightarrow> e | None \<Rightarrow> [])
                | _ \<Rightarrow> (case getenv_workspace w of Some e \<Rightarrow> e | None \<Rightarrow> []))
      in if ws = [] then ''.'' else ws)"

definition fnHashFiles :: "world \<Rightarrow> expr_context \<Rightarrow> expr_value list \<Rightarrow> expr_value" where
  "fnHashFiles w ctx args =
     (if args = [] then EString []
      else
        let ws = hash_workspace w ctx;
            pats = filter (\<lambda>p. p \<noteq> []) (map toString args);
            matched = sort (remdups (concat (map (globRecursive w ws) pats)));
            digests = concat (map (\<lambda>p. case read_file w p of None \<Rightarrow> [] | Some c \<Rightarrow> sha256 w c) matched)
        in if matched = [] then EString []
           else if digests = [] then EString []
           else EString (to_hex (sha256 w digests)))"

record evaluator =
  ev_world :: world
  ev_ctx :: expr_context
  job_success :: bool
  job_failure :: bool
  job_cancelled :: bool

definition new_evaluator :: "world \<Rightarrow> expr_context \<Rightarrow> evaluator" where
  "new_evaluator w ctx =
     \<lparr>ev_world = w, ev_ctx = ctx, job_success = True, job_failure = False, job_cancelled = False\<rparr>"

definition callFunction :: "evaluator \<Rightarrow> string \<Rightarrow> expr_value list \<Rightarrow> expr_value eres" where
  "callFunction ev name args =
     (let lname = to_lower name
      in if lname = ''contains'' then EOk (fnContains args)
         else if lname = ''startswith'' then EOk (fnStartsWith args)
         else if lname = ''endswith'' then EOk (fnEndsWith args)
         else if lname = ''format'' then fnFormat args
         else if lname = ''join'' then EOk (fnJoin args)
         else if lname = ''tojson'' then fnToJSON (ev_world ev) args
         else if lname = ''fromjson'' then EOk (fnFromJSON (ev_world ev) args)
         else if lname = ''always'' then EOk (EBool True)
         else if lname = ''success'' then EOk (EBool (job_success ev))
         else if lname = ''failure'' then EOk (EBool (job_failure ev))
         else if lname = ''cancelled'' then EOk (EBool (job_cancelled ev))
         else if lname = ''hashfiles'' then EOk (fnHashFiles (ev_world ev) (ev_ctx ev) args)
         else EOk ENull)"

section \<open>Parser\<close>

text \<open>
  The parser's position is the list of tokens not yet consumed.  Its seven mutually recursive methods
  and their three loops are one function over a mode; \<open>Args\<close> is the argument loop of \<^verbatim>\<open>parseCall\<close>.
\<close>

datatype pmode = POr | POrLoop expr_value | PAnd | PAndLoop expr_value | PNot | PComparison | PPrimary
  | PCall string | PArgs string "expr_value list"

fun path_tail :: "string \<Rightarrow> token list \<Rightarrow> (string \<times> token list) eres" where
  "path_tail name [] = EUndef Read_past_end"
| "path_tail name (Dot # ts) =
     (case ts of
        Identifier x # ts' \<Rightarrow> path_tail (name @ ''.'' @ x) ts'
      | LitNumber x _ # ts' \<Rightarrow> path_tail (name @ ''.'' @ x) ts'
      | _ \<Rightarrow> path_tail name ts)"
| "path_tail name (t # ts) = EOk (name, t # ts)"

fun compare_op :: "token \<Rightarrow> expr_value \<Rightarrow> expr_value \<Rightarrow> bool option" where
  "compare_op OpEq l r = Some (value_eq l r)"
| "compare_op OpNeq l r = Some (\<not> value_eq l r)"
| "compare_op OpLt l r = Some (dbl_less (toNumber l) (toNumber r))"
| "compare_op OpLte l r = Some (dbl_le (toNumber l) (toNumber r))"
| "compare_op OpGt l r = Some (dbl_less (toNumber r) (toNumber l))"
| "compare_op OpGte l r = Some (dbl_le (toNumber r) (toNumber l))"
| "compare_op _ _ _ = None"

definition pbind :: "'a eres option \<Rightarrow> ('a \<Rightarrow> 'b eres option) \<Rightarrow> 'b eres option" where
  "pbind m k = Option.bind m (\<lambda>r. case r of EOk x \<Rightarrow> k x | EThrow e \<Rightarrow> Some (EThrow e) | EUndef u \<Rightarrow> Some (EUndef u))"

lemma pbind_simps [simp]:
  "pbind (Some (EOk x)) k = k x"
  "pbind (Some (EThrow e)) k = Some (EThrow e)"
  "pbind (Some (EUndef u)) k = Some (EUndef u)"
  "pbind None k = None"
  by (simp_all add: pbind_def)

lemma pbind_mono [partial_function_mono]:
  assumes "mono_option B" "\<And>y. mono_option (\<lambda>f. C y f)"
  shows "mono_option (\<lambda>f. pbind (B f) (\<lambda>y. C y f))"
  unfolding pbind_def
proof (intro bind_mono assms(1))
  fix y
  show "mono_option (\<lambda>f. case y of EOk x \<Rightarrow> C x f | EThrow e \<Rightarrow> Some (EThrow e) | EUndef u \<Rightarrow> Some (EUndef u))"
    by (cases y) (simp_all add: assms(2) option.const_mono)
qed

partial_function (option) parse :: "evaluator \<Rightarrow> pmode \<Rightarrow> token list \<Rightarrow> (expr_value \<times> token list) eres option" where
  "parse ev m ts =
     (case m of
        POr \<Rightarrow> pbind (parse ev PAnd ts) (\<lambda>(l, ts1). parse ev (POrLoop l) ts1)
      | POrLoop l \<Rightarrow>
          (case ts of
             [] \<Rightarrow> Some (EUndef Read_past_end)
           | t # r \<Rightarrow>
               if t = OpOr then pbind (parse ev PAnd r) (\<lambda>(v, ts1). parse ev (POrLoop (if isTruthy l then l else v)) ts1)
               else Some (EOk (l, ts)))
      | PAnd \<Rightarrow> pbind (parse ev PNot ts) (\<lambda>(l, ts1). parse ev (PAndLoop l) ts1)
      | PAndLoop l \<Rightarrow>
          (case ts of
             [] \<Rightarrow> Some (EUndef Read_past_end)
           | t # r \<Rightarrow>
               if t = OpAnd then pbind (parse ev PNot r) (\<lambda>(v, ts1). parse ev (PAndLoop (if \<not> isTruthy l then l else v)) ts1)
               else Some (EOk (l, ts)))
      | PNot \<Rightarrow>
          (case ts of
             [] \<Rightarrow> Some (EUndef Read_past_end)
           | t # r \<Rightarrow>
               if t = OpNot then pbind (parse ev PNot r) (\<lambda>(v, ts1). Some (EOk (EBool (\<not> isTruthy v), ts1)))
               else parse ev PComparison ts)
      | PComparison \<Rightarrow>
          pbind (parse ev PPrimary ts) (\<lambda>(l, ts1).
            case ts1 of
              [] \<Rightarrow> Some (EUndef Read_past_end)
            | t # r \<Rightarrow>
                if compare_op t ENull ENull = None then Some (EOk (l, ts1))
                else pbind (parse ev PPrimary r) (\<lambda>(v, ts2). Some (EOk (EBool (the (compare_op t l v)), ts2))))
      | PPrimary \<Rightarrow>
          (case ts of
             [] \<Rightarrow> Some (EUndef Read_past_end)
           | LParen # r \<Rightarrow>
               pbind (parse ev POr r) (\<lambda>(v, ts1).
                 case ts1 of [] \<Rightarrow> Some (EUndef Read_past_end) | t # r1 \<Rightarrow> Some (EOk (v, if t = RParen then r1 else ts1)))
           | LitString s # r \<Rightarrow> Some (EOk (EString s, r))
           | LitNumber _ n # r \<Rightarrow> Some (EOk (ENumber n, r))
           | LitBool b # r \<Rightarrow> Some (EOk (EBool b, r))
           | LitNull # r \<Rightarrow> Some (EOk (ENull, r))
           | Identifier name0 # r \<Rightarrow>
               pbind (Some (path_tail name0 r)) (\<lambda>(name, ts1).
                 case ts1 of
                   [] \<Rightarrow> Some (EUndef Read_past_end)
                 | t # r1 \<Rightarrow> if t = LParen then parse ev (PCall name) ts1 else Some (EOk (ctx_get (ev_ctx ev) name, ts1)))
           | _ \<Rightarrow> Some (EOk (ENull, ts)))
      | PCall name \<Rightarrow> (case ts of [] \<Rightarrow> Some (EUndef Read_past_end) | _ # r \<Rightarrow> parse ev (PArgs name []) r)
      | PArgs name args \<Rightarrow>
          (case ts of
             [] \<Rightarrow> Some (EUndef Read_past_end)
           | t # r \<Rightarrow>
               if t = RParen then pbind (Some (callFunction ev name args)) (\<lambda>v. Some (EOk (v, r)))
               else if t = Eof then pbind (Some (callFunction ev name args)) (\<lambda>v. Some (EOk (v, ts)))
               else pbind (parse ev POr ts) (\<lambda>(v, ts1).
                 case ts1 of
                   [] \<Rightarrow> Some (EUndef Read_past_end)
                 | t1 # r1 \<Rightarrow> parse ev (PArgs name (args @ [v])) (if t1 = Comma then r1 else ts1))))"

declare parse.simps [code]

section \<open>Evaluation\<close>

definition trim :: "string \<Rightarrow> string" where
  "trim e = rev (dropWhile is_space (rev (dropWhile is_space e)))"

definition evaluateExpr :: "evaluator \<Rightarrow> string \<Rightarrow> expr_value eres option" where
  "evaluateExpr ev expr =
     (let e = trim expr
      in if e = [] then Some (EOk (EString []))
         else pbind (Some (tokenize e)) (\<lambda>ts. pbind (parse ev POr ts) (\<lambda>(v, _). Some (EOk v))))"

text \<open>\<^verbatim>\<open>e.size() - 5\<close> wraps around for the four characters \<^verbatim>\<open>${{}\<close>, where the rest is taken.\<close>

definition strip_delims :: "string \<Rightarrow> string" where
  "strip_delims e =
     (if take 3 e = ''${{'' \<and> last e = CHR ''}'' then
        (if length e < 5 then drop 3 e else take (length e - 5) (drop 3 e))
      else e)"

definition evaluateCondition :: "evaluator \<Rightarrow> string \<Rightarrow> bool eres option" where
  "evaluateCondition ev expr =
     (if expr = [] then Some (EOk True)
      else pbind (evaluateExpr ev (strip_delims expr)) (\<lambda>v. Some (EOk (isTruthy v))))"

text \<open>
  \<^verbatim>\<open>interpolate\<close>: the text up to the next \<^verbatim>\<open>}}\<close> (or the end) is evaluated.  When no \<^verbatim>\<open>}}\<close> follows,
  the loop stops at the end of the input and nothing is skipped.
\<close>

definition split_close :: "string \<Rightarrow> string \<times> string" where
  "split_close s = (case str_find ''}}'' s of
     Some i \<Rightarrow> (take i s, drop (i + 2) s) | None \<Rightarrow> (s, []))"

lemma split_close_length [termination_simp]: "length (snd (split_close (drop n s))) < Suc (length s)"
  by (auto simp: split_close_def split: option.splits)

fun interpolate :: "evaluator \<Rightarrow> string \<Rightarrow> string eres option" where
  "interpolate ev [] = Some (EOk [])"
| "interpolate ev (c # cs) =
     (if take 3 (c # cs) = ''${{'' then
        (let sc = split_close (drop 2 cs)
         in pbind (evaluateExpr ev (fst sc)) (\<lambda>v.
            pbind (interpolate ev (snd sc)) (\<lambda>r. Some (EOk (toString v @ r)))))
      else pbind (interpolate ev cs) (\<lambda>r. Some (EOk (c # r))))"

definition evaluate :: "evaluator \<Rightarrow> string \<Rightarrow> string eres option" where
  "evaluate ev input = interpolate ev input"

section \<open>Comparison\<close>

text \<open>
  Loose equality is symmetric for all operand types, although every coercion is written out
  separately for the left and the right operand.
\<close>

theorem value_eq_sym: "value_eq a b = value_eq b a"
  by (cases a; cases b) (auto simp: dbl_eq_sym)

section \<open>Interpolation\<close>

lemma interpolate_plain:
  "\<not> sublist ''${{'' a \<Longrightarrow> interpolate ev a = Some (EOk a)"
proof (induction a)
  case (Cons c cs)
  then have "take 3 (c # cs) \<noteq> ''${{''" "\<not> sublist ''${{'' cs"
    using take_is_prefix [of 3 "c # cs"] by (auto simp: sublist_Cons_right)
  with Cons.IH show ?case by auto
qed simp

lemma interpolate_before:
  assumes "\<not> sublist ''${{'' a"
  shows "interpolate ev (a @ ''${{'' @ rest) =
    pbind (interpolate ev (''${{'' @ rest)) (\<lambda>r. Some (EOk (a @ r)))"
  using assms
proof (induction a)
  case Nil
  then show ?case by (cases "interpolate ev (''${{'' @ rest)") (auto simp: pbind_def split: eres.splits)
next
  case (Cons c cs)
  have "\<not> sublist ''${{'' cs" using Cons.prems by (simp add: sublist_Cons_right)
  moreover have "take 3 (c # cs @ ''${{'' @ rest) \<noteq> ''${{''"
  proof
    assume a: "take 3 (c # cs @ ''${{'' @ rest) = ''${{''"
    show False
    proof (cases "2 \<le> length cs")
      case True
      with a have "take 3 (c # cs) = ''${{''" by (simp add: take_Cons')
      then show False using Cons.prems take_is_prefix [of 3 "c # cs"] by (auto simp: sublist_Cons_right)
    next
      case False
      then show False using a by (cases cs; cases "tl cs") auto
    qed
  qed
  ultimately show ?case
    using Cons.IH by (cases "interpolate ev (''${{'' @ rest)") (auto simp: pbind_def split: eres.splits)
qed

text \<open>
  Text is copied unchanged up to the first \<^verbatim>\<open>${{\<close>, the expression up to the next \<^verbatim>\<open>}}\<close> is
  replaced by the text of its value, and interpolation goes on behind it; an exception of the
  expression is the exception of the whole.
\<close>

theorem interpolate_expression:
  assumes "\<not> sublist ''${{'' a" "str_find ''}}'' (e @ ''}}'' @ b) = Some (length e)"
  shows "interpolate ev (a @ ''${{'' @ e @ ''}}'' @ b) =
    pbind (evaluateExpr ev e) (\<lambda>v. pbind (interpolate ev b) (\<lambda>r. Some (EOk (a @ toString v @ r))))"
proof -
  have "interpolate ev (''${{'' @ e @ ''}}'' @ b) =
      pbind (evaluateExpr ev e) (\<lambda>v. pbind (interpolate ev b) (\<lambda>r. Some (EOk (toString v @ r))))"
    using assms(2) by (simp add: split_close_def Let_def)
  then show ?thesis
    unfolding interpolate_before [OF assms(1)]
    by (cases "evaluateExpr ev e"; cases "interpolate ev b") (auto simp: pbind_def split: eres.splits)
qed

definition demo_world :: world where
  "demo_world = \<lparr>json_dump = (\<lambda>s. Inr (CHR 0x22 # s @ [CHR 0x22])), json_parse = (\<lambda>_. None), sha256 = (\<lambda>_. []),
     glob3 = (\<lambda>_. []), is_regular_file = (\<lambda>_. False), fnmatch = (\<lambda>_ _. False), dir_tree = (\<lambda>_. OtherNode),
     read_file = (\<lambda>_. None), getenv_workspace = None\<rparr>"

definition demo_evaluator :: evaluator where
  "demo_evaluator = new_evaluator demo_world [(''github.ref'', EString ''main'')]"

theorem interpolate_expression_witness:
  "interpolate demo_evaluator (''on '' @ ''${{'' @ '' github.ref '' @ ''}}'' @ ''!'') = Some (EOk ''on main!'')"
proof -
  have t: "tokenize ''github.ref'' = EOk [Identifier ''github'', Dot, Identifier ''ref'', Eof]"
    by (simp add: tokenize.simps is_space_def is_quote_def starts_number_def is_digit_def two_char_op_def
        one_char_op_def isIdentStart_def isIdentChar_def is_alnum_def is_alpha_def ascii_def keyword_def)
  have "trim '' github.ref '' = ''github.ref''" by (simp add: trim_def is_space_def ascii_def)
  then have "evaluateExpr demo_evaluator '' github.ref '' = Some (EOk (EString ''main''))"
    by (simp add: evaluateExpr_def t parse.simps demo_evaluator_def new_evaluator_def ctx_get_def omap_get_def)
  moreover have "\<not> sublist ''${{'' ''on ''" by (simp add: sublist_Cons_right)
  moreover have "str_find ''}}'' ('' github.ref '' @ ''}}'' @ ''!'') = Some (length '' github.ref '')"
    by (simp add: starts_with_def)
  ultimately show ?thesis
    using interpolate_expression [of "''on ''" "'' github.ref ''" "''!''" demo_evaluator]
    by (simp add: interpolate_plain sublist_Cons_right)
qed

section \<open>Literals\<close>

text \<open>A string between quotes, with the quote and the backslash escaped.\<close>

definition escape :: "string \<Rightarrow> string" where
  "escape s = concat (map (\<lambda>c. if c = CHR 0x27 \<or> c = CHR 0x5C then [CHR 0x5C, c] else [c]) s)"

definition quote_literal :: "string \<Rightarrow> string" where
  "quote_literal s = CHR 0x27 # escape s @ [CHR 0x27]"

lemma lex_string_escape: "lex_string (CHR 0x27) (escape s @ CHR 0x27 # rest) = (s, rest)"
proof (induction s)
  case Nil
  then show ?case by (cases rest) (simp_all add: escape_def)
next
  case (Cons c s)
  obtain d ds where d: "escape s @ CHR 0x27 # rest = d # ds"
    by (cases "escape s @ CHR 0x27 # rest") auto
  from Cons d show ?case
    by (cases "c = CHR 0x27 \<or> c = CHR 0x5C") (auto simp: escape_def)
qed

lemma tokenize_literal: "tokenize (quote_literal s) = EOk [LitString s, Eof]"
proof -
  have "dropWhile is_space (quote_literal s) = CHR 0x27 # escape s @ [CHR 0x27]"
    by (simp add: quote_literal_def is_space_def ascii_def)
  then show ?thesis
    using lex_string_escape [of s "[]"]
    by (subst tokenize.simps) (simp add: is_quote_def tokenize.simps [of "[]"])
qed

lemma trim_literal: "trim (quote_literal s) = quote_literal s"
  by (simp add: trim_def quote_literal_def is_space_def ascii_def)

text \<open>
  Every string can be written as a literal and evaluates to itself.
\<close>

theorem literal_roundtrip: "evaluateExpr ev (quote_literal s) = Some (EOk (EString s))"
  by (simp add: evaluateExpr_def trim_literal tokenize_literal Let_def)
    (simp add: quote_literal_def parse.simps)

section \<open>The parser returns\<close>

text \<open>
  A dot is only reached at the head of a primary expression if it does not follow a path.  The scan
  distinguishes tokens outside a path, behind a path component, and behind a dot of a path.
\<close>

datatype dot_state = Outside | InPath | AfterDot

fun dots_ok :: "dot_state \<Rightarrow> token list \<Rightarrow> bool" where
  "dots_ok st [] \<longleftrightarrow> True"
| "dots_ok st (Dot # ts) \<longleftrightarrow> st \<noteq> Outside \<and> dots_ok AfterDot ts"
| "dots_ok st (Identifier _ # ts) \<longleftrightarrow> dots_ok InPath ts"
| "dots_ok AfterDot (LitNumber _ _ # ts) \<longleftrightarrow> dots_ok InPath ts"
| "dots_ok st (_ # ts) \<longleftrightarrow> dots_ok Outside ts"

definition ends_eof :: "token list \<Rightarrow> bool" where
  "ends_eof ts \<longleftrightarrow> ts \<noteq> [] \<and> last ts = Eof"

text \<open>
  A rule for sequences of parser calls: \<open>returns r Q\<close> says that the call comes back, does not read
  behind the last token, and that a value it yields satisfies \<open>Q\<close>.
\<close>

definition returns :: "'a eres option \<Rightarrow> ('a \<Rightarrow> bool) \<Rightarrow> bool" where
  "returns r Q \<longleftrightarrow> (\<exists>x. r = Some x \<and> x \<noteq> EUndef Read_past_end \<and> (\<forall>y. x = EOk y \<longrightarrow> Q y))"

lemma returns_simps [simp]:
  "returns (Some (EOk y)) Q \<longleftrightarrow> Q y"
  "returns (Some (EThrow e)) Q"
  "returns (Some (EUndef u)) Q \<longleftrightarrow> u \<noteq> Read_past_end"
  by (auto simp: returns_def)

lemma returns_pbind: "returns m (\<lambda>x. returns (k x) Q) \<Longrightarrow> returns (pbind m k) Q"
  by (auto simp: returns_def) (metis eres.exhaust pbind_simps(1-3) eres.inject(3) eres.distinct)

lemma returns_mono: "returns m P \<Longrightarrow> (\<And>x. P x \<Longrightarrow> Q x) \<Longrightarrow> returns m Q"
  by (auto simp: returns_def)

lemma returns_seq: "returns m P \<Longrightarrow> (\<And>x. P x \<Longrightarrow> returns (k x) Q) \<Longrightarrow> returns (pbind m k) Q"
  by (blast intro: returns_pbind returns_mono)

definition safe :: "token list \<Rightarrow> bool" where
  "safe ts \<longleftrightarrow> ends_eof ts \<and> dots_ok Outside ts"

lemma safe_Cons: "safe (t # ts) \<Longrightarrow> t \<noteq> Eof \<Longrightarrow> (\<And>x. t \<noteq> Identifier x) \<Longrightarrow> safe ts"
  by (cases t) (auto simp: safe_def ends_eof_def split: if_splits)

lemma safe_not_Nil [simp]: "\<not> safe []"
  by (simp add: safe_def ends_eof_def)

lemma safe_no_Dot [simp]: "\<not> safe (Dot # ts)"
  by (simp add: safe_def)

lemma callFunction_no_read: "callFunction ev name args \<noteq> EUndef Read_past_end"
proof -
  have b: "ebind m k = EUndef Read_past_end \<Longrightarrow> m = EUndef Read_past_end \<or> (\<exists>x. k x = EUndef Read_past_end)"
    for m :: "'a eres" and k :: "'a \<Rightarrow> 'b eres"
    by (cases m) auto
  have "format_arg args ds \<noteq> EUndef Read_past_end" for ds
    by (simp add: format_arg_def Let_def)
  then have "format_from args cs \<noteq> EUndef Read_past_end" for cs
    by (induction args cs rule: format_from.induct) (auto simp: Let_def dest!: b, blast+)
  then have "fnFormat args \<noteq> EUndef Read_past_end"
    by (auto simp: fnFormat_def split: list.splits dest!: b)
  moreover have "fnToJSON w args \<noteq> EUndef Read_past_end" for w
    by (cases args) (auto simp: fnToJSON_def split: expr_value.splits dest!: b elim: of_result.elims)
  ultimately show ?thesis by (simp add: callFunction_def Let_def)
qed

lemma path_tail_returns:
  "ends_eof ts \<Longrightarrow> dots_ok InPath ts \<Longrightarrow>
   returns (Some (path_tail name ts)) (\<lambda>(n, ts'). safe ts' \<and> suffix ts' ts)"
proof (induction name ts rule: path_tail.induct)
  case (2 name ts)
  then have ts: "ends_eof ts" "dots_ok AfterDot ts" by (auto simp: ends_eof_def split: if_splits)
  then obtain t r where tr: "ts = t # r" by (cases ts) (auto simp: ends_eof_def)
  consider (ident) x where "t = Identifier x" | (num) x d where "t = LitNumber x d"
    | (other) "\<And>x. t \<noteq> Identifier x" "\<And>x d. t \<noteq> LitNumber x d" by blast
  then show ?case
  proof cases
    case ident
    with "2" ts tr show ?thesis
      by (auto simp: ends_eof_def suffix_Cons elim!: returns_mono split: if_splits)
  next
    case num
    with "2" ts tr show ?thesis
      by (auto simp: ends_eof_def suffix_Cons elim!: returns_mono split: if_splits)
  next
    case other
    with ts tr have "dots_ok InPath ts" by (cases t) auto
    moreover have "path_tail name (Dot # ts) = path_tail name ts"
      using other tr by (cases t) auto
    moreover have "returns (Some (path_tail name ts)) (\<lambda>(n, ts'). safe ts' \<and> suffix ts' ts)"
      using "2.IH" ts(1) tr other \<open>dots_ok InPath ts\<close> by (cases t) auto
    ultimately show ?thesis by (auto simp: suffix_Cons elim!: returns_mono)
  qed
qed (auto simp: ends_eof_def safe_def)

text \<open>
  The tokens at which a method consumes at least one token: literals, identifiers and parentheses for
  a primary expression, and further up the operators that the method's own loop consumes.
\<close>

fun starts_primary :: "token \<Rightarrow> bool" where
  "starts_primary t \<longleftrightarrow> (case t of LParen \<Rightarrow> True | LitString _ \<Rightarrow> True | LitNumber _ _ \<Rightarrow> True | LitBool _ \<Rightarrow> True
     | LitNull \<Rightarrow> True | Identifier _ \<Rightarrow> True | _ \<Rightarrow> False)"

definition is_compare :: "token \<Rightarrow> bool" where
  "is_compare t \<longleftrightarrow> compare_op t ENull ENull \<noteq> None"

fun consumes :: "pmode \<Rightarrow> token \<Rightarrow> bool" where
  "consumes PPrimary t \<longleftrightarrow> starts_primary t"
| "consumes PComparison t \<longleftrightarrow> starts_primary t \<or> is_compare t"
| "consumes PNot t \<longleftrightarrow> starts_primary t \<or> is_compare t \<or> t = OpNot"
| "consumes (PAndLoop _) t \<longleftrightarrow> t = OpAnd"
| "consumes PAnd t \<longleftrightarrow> starts_primary t \<or> is_compare t \<or> t = OpNot \<or> t = OpAnd"
| "consumes (POrLoop _) t \<longleftrightarrow> t = OpOr"
| "consumes POr t \<longleftrightarrow> starts_primary t \<or> is_compare t \<or> t = OpNot \<or> t = OpAnd \<or> t = OpOr"
| "consumes _ t \<longleftrightarrow> False"

fun rank :: "pmode \<Rightarrow> nat" where
  "rank PPrimary = 1"
| "rank PComparison = 2"
| "rank PNot = 3"
| "rank (PAndLoop _) = 4"
| "rank PAnd = 5"
| "rank (POrLoop _) = 6"
| "rank POr = 7"
| "rank (PCall _) = 0"
| "rank (PArgs _ _) = 8"

definition psize :: "pmode \<Rightarrow> token list \<Rightarrow> nat" where
  "psize m ts = 9 * length ts + rank m"

definition ready :: "pmode \<Rightarrow> token list \<Rightarrow> bool" where
  "ready m ts \<longleftrightarrow> safe ts \<and> (\<forall>name. m = PCall name \<longrightarrow> hd ts = LParen)"

definition parsed :: "pmode \<Rightarrow> token list \<Rightarrow> expr_value \<times> token list \<Rightarrow> bool" where
  "parsed m ts res \<longleftrightarrow> safe (snd res) \<and> suffix (snd res) ts \<and> (consumes m (hd ts) \<longrightarrow> length (snd res) < length ts)"

lemma suffix_shorter: "suffix ts' ts \<Longrightarrow> ts' = ts \<or> length ts' < length ts"
  by (metis strict_suffix_def suffix_length_less)

lemma parsedD:
  assumes "parsed m ts (v, ts')"
  shows "safe ts'" "suffix ts' ts" "length ts' \<le> length ts" "consumes m (hd ts) \<Longrightarrow> length ts' < length ts"
    "ts' = ts \<or> length ts' < length ts"
  using assms suffix_shorter [of ts' ts] by (auto simp: parsed_def suffix_length_le)

lemma parsed_trans:
  assumes "parsed m ts (l, ts1)" "parsed m' ts1 (v, ts2)"
    "\<And>t. consumes k t \<Longrightarrow> consumes m t \<or> consumes m' t"
  shows "parsed k ts (v, ts2)"
proof -
  note 1 = parsedD [OF assms(1)] and 2 = parsedD [OF assms(2)]
  have "length ts2 < length ts" if "consumes k (hd ts)"
    using assms(3) [OF that] 1 2 by (cases "ts1 = ts") auto
  with 1 2 show ?thesis by (auto simp: parsed_def intro: suffix_order.order_trans)
qed

text \<open>The induction hypothesis of the totality proof: all smaller calls return.\<close>

definition smaller_return :: "evaluator \<Rightarrow> nat \<Rightarrow> bool" where
  "smaller_return ev n \<longleftrightarrow> (\<forall>m ts. psize m ts < n \<longrightarrow> ready m ts \<longrightarrow> returns (parse ev m ts) (parsed m ts))"

lemma smaller_returnD:
  "smaller_return ev n \<Longrightarrow> psize m ts < n \<Longrightarrow> ready m ts \<Longrightarrow> returns (parse ev m ts) (parsed m ts)"
  by (simp add: smaller_return_def)

lemma parse_mode_eqs:
  "parse ev POr ts = pbind (parse ev PAnd ts) (\<lambda>(l, ts1). parse ev (POrLoop l) ts1)"
  "parse ev PAnd ts = pbind (parse ev PNot ts) (\<lambda>(l, ts1). parse ev (PAndLoop l) ts1)"
  "parse ev (POrLoop l) (t # r) =
     (if t = OpOr then pbind (parse ev PAnd r) (\<lambda>(v, ts1). parse ev (POrLoop (if isTruthy l then l else v)) ts1)
      else Some (EOk (l, t # r)))"
  "parse ev (PAndLoop l) (t # r) =
     (if t = OpAnd then pbind (parse ev PNot r) (\<lambda>(v, ts1). parse ev (PAndLoop (if \<not> isTruthy l then l else v)) ts1)
      else Some (EOk (l, t # r)))"
  "parse ev PNot (t # r) =
     (if t = OpNot then pbind (parse ev PNot r) (\<lambda>(v, ts1). Some (EOk (EBool (\<not> isTruthy v), ts1)))
      else parse ev PComparison (t # r))"
  "parse ev (PCall name) (t # r) = parse ev (PArgs name []) r"
  by (subst parse.simps, simp)+

lemma parse_POr:
  assumes "smaller_return ev (psize POr ts)" "safe ts"
  shows "returns (parse ev POr ts) (parsed POr ts)"
proof (subst parse_mode_eqs(1), rule returns_seq)
  show "returns (parse ev PAnd ts) (parsed PAnd ts)"
    using assms by (intro smaller_returnD) (auto simp: psize_def ready_def)
next
  fix x assume "parsed PAnd ts x"
  then obtain l ts1 where x: "x = (l, ts1)" "parsed PAnd ts (l, ts1)" by (cases x) auto
  then have "returns (parse ev (POrLoop l) ts1) (parsed (POrLoop l) ts1)"
    using parsedD [OF x(2)] by (intro smaller_returnD [OF assms(1)]) (auto simp: psize_def ready_def)
  moreover have "parsed POr ts y" if "parsed (POrLoop l) ts1 y" for y
    using that by (cases y) (auto intro!: parsed_trans [OF x(2)])
  ultimately show "returns (case x of (l, ts1) \<Rightarrow> parse ev (POrLoop l) ts1) (parsed POr ts)"
    using x(1) by (auto elim: returns_mono)
qed

lemma parse_PAnd:
  assumes "smaller_return ev (psize PAnd ts)" "safe ts"
  shows "returns (parse ev PAnd ts) (parsed PAnd ts)"
proof (subst parse_mode_eqs(2), rule returns_seq)
  show "returns (parse ev PNot ts) (parsed PNot ts)"
    using assms by (intro smaller_returnD) (auto simp: psize_def ready_def)
next
  fix x assume "parsed PNot ts x"
  then obtain l ts1 where x: "x = (l, ts1)" "parsed PNot ts (l, ts1)" by (cases x) auto
  then have "returns (parse ev (PAndLoop l) ts1) (parsed (PAndLoop l) ts1)"
    using parsedD [OF x(2)] by (intro smaller_returnD [OF assms(1)]) (auto simp: psize_def ready_def)
  moreover have "parsed PAnd ts y" if "parsed (PAndLoop l) ts1 y" for y
    using that by (cases y) (auto intro!: parsed_trans [OF x(2)])
  ultimately show "returns (case x of (l, ts1) \<Rightarrow> parse ev (PAndLoop l) ts1) (parsed PAnd ts)"
    using x(1) by (auto elim: returns_mono)
qed

text \<open>Behind a consumed token the rest of the input is shorter and still safe.\<close>

lemma parsed_behind:
  assumes "parsed m r (v, ts')"
  shows "parsed k (t # r) (w, ts')"
  using parsedD [OF assms] by (auto simp: parsed_def suffix_Cons)

lemma parsed_behind2:
  assumes "parsed m r (v, ts1)" "parsed m' ts1 (v', ts2)"
  shows "parsed k (t # r) (w, ts2)"
proof -
  note 1 = parsedD [OF assms(1)] and 2 = parsedD [OF assms(2)]
  have "suffix ts2 r" using 1 2 by (blast intro: suffix_order.order_trans)
  with 1 2 show ?thesis by (auto simp: parsed_def suffix_Cons)
qed

text \<open>The body of the two operator loops, behind the operator.\<close>

lemma returns_loop_body:
  assumes "smaller_return ev (psize k (t # r))" "safe r" "sub = PAnd \<or> sub = PNot"
    "\<And>v. (\<exists>w. next v = POrLoop w) \<or> (\<exists>w. next v = PAndLoop w)"
  shows "returns (pbind (parse ev sub r) (\<lambda>(v, ts1). parse ev (next v) ts1)) (parsed k (t # r))"
proof (rule returns_seq)
  show "returns (parse ev sub r) (parsed sub r)"
    using assms(2,3) by (intro smaller_returnD [OF assms(1)]) (auto simp: psize_def ready_def)
next
  fix x assume "parsed sub r x"
  then obtain v ts1 where x: "x = (v, ts1)" "parsed sub r (v, ts1)" by (cases x) auto
  have "rank (next v) \<le> 6" using assms(4) [of v] by auto
  then have "returns (parse ev (next v) ts1) (parsed (next v) ts1)"
    using parsedD [OF x(2)] assms(4) [of v]
    by (intro smaller_returnD [OF assms(1)]) (auto simp: psize_def ready_def)
  moreover have "parsed k (t # r) y" if "parsed (next v) ts1 y" for y
    using that parsed_behind2 [OF x(2)] by (cases y) auto
  ultimately show "returns (case x of (v, ts1) \<Rightarrow> parse ev (next v) ts1) (parsed k (t # r))"
    using x(1) by (auto elim: returns_mono)
qed

lemma parse_POrLoop:
  assumes "smaller_return ev (psize (POrLoop l) ts)" "safe ts"
  shows "returns (parse ev (POrLoop l) ts) (parsed (POrLoop l) ts)"
proof -
  obtain t r where ts: "ts = t # r" using assms(2) by (cases ts) auto
  show ?thesis
    using assms safe_Cons [of t r] unfolding ts
    by (auto simp: parse_mode_eqs(3,4) parsed_def [of _ _ "(l, t # r)"] intro!: returns_loop_body)
qed

lemma parse_PAndLoop:
  assumes "smaller_return ev (psize (PAndLoop l) ts)" "safe ts"
  shows "returns (parse ev (PAndLoop l) ts) (parsed (PAndLoop l) ts)"
proof -
  obtain t r where ts: "ts = t # r" using assms(2) by (cases ts) auto
  show ?thesis
    using assms safe_Cons [of t r] unfolding ts
    by (auto simp: parse_mode_eqs(3,4) parsed_def [of _ _ "(l, t # r)"] intro!: returns_loop_body)
qed

lemma parse_PNot:
  assumes "smaller_return ev (psize PNot ts)" "safe ts"
  shows "returns (parse ev PNot ts) (parsed PNot ts)"
proof -
  obtain t r where ts: "ts = t # r" using assms(2) by (cases ts) auto
  show ?thesis
  proof (cases "t = OpNot")
    case True
    with assms(2) ts have "safe r" using safe_Cons [of t r] by auto
    then have "returns (parse ev PNot r) (parsed PNot r)"
      using ts by (intro smaller_returnD [OF assms(1)]) (auto simp: psize_def ready_def)
    then show ?thesis
      unfolding ts True parse_mode_eqs(5) by (auto intro!: returns_seq intro: parsed_behind)
  next
    case False
    have "returns (parse ev PComparison ts) (parsed PComparison ts)"
      using assms by (intro smaller_returnD) (auto simp: psize_def ready_def)
    moreover have "parsed PNot ts y" if "parsed PComparison ts y" for y
      using that False ts by (auto simp: parsed_def)
    ultimately show ?thesis
      using False ts parse_mode_eqs(5) [of ev t r] by (auto elim: returns_mono)
  qed
qed

text \<open>The tail of \<^verbatim>\<open>parseComparison\<close>, behind its left operand.\<close>

definition after_left :: "evaluator \<Rightarrow> expr_value \<Rightarrow> token list \<Rightarrow> (expr_value \<times> token list) eres option" where
  "after_left ev l ts1 =
     (case ts1 of
        [] \<Rightarrow> Some (EUndef Read_past_end)
      | t # r \<Rightarrow>
          if \<not> is_compare t then Some (EOk (l, ts1))
          else pbind (parse ev PPrimary r) (\<lambda>(v, ts2). Some (EOk (EBool (the (compare_op t l v)), ts2))))"

lemma parse_PComparison_eq:
  "parse ev PComparison ts = pbind (parse ev PPrimary ts) (\<lambda>(l, ts1). after_left ev l ts1)"
  unfolding after_left_def is_compare_def not_not by (subst parse.simps) simp

lemma after_left_returns:
  assumes "smaller_return ev n" "9 * length ts1 < n" "safe ts1"
  shows "returns (after_left ev l ts1)
    (\<lambda>(v, ts2). safe ts2 \<and> suffix ts2 ts1 \<and> (is_compare (hd ts1) \<longrightarrow> length ts2 < length ts1))"
proof -
  obtain t r where ts: "ts1 = t # r" using assms(3) by (cases ts1) auto
  show ?thesis
  proof (cases "is_compare t")
    case True
    with assms(3) ts have "safe r" using safe_Cons [of t r] by (cases t) (auto simp: is_compare_def)
    then have "returns (parse ev PPrimary r) (parsed PPrimary r)"
      using ts assms(2) by (intro smaller_returnD [OF assms(1)]) (auto simp: psize_def ready_def)
    then show ?thesis
      using True ts
      by (auto simp: after_left_def suffix_Cons less_Suc_eq_le intro!: returns_seq dest: parsedD)
  qed (use assms(3) ts in \<open>simp add: after_left_def\<close>)
qed

lemma parse_PComparison:
  assumes "smaller_return ev (psize PComparison ts)" "safe ts"
  shows "returns (parse ev PComparison ts) (parsed PComparison ts)"
proof (subst parse_PComparison_eq, rule returns_seq)
  show "returns (parse ev PPrimary ts) (parsed PPrimary ts)"
    using assms by (intro smaller_returnD) (auto simp: psize_def ready_def)
next
  fix x assume "parsed PPrimary ts x"
  then obtain l ts1 where x: "x = (l, ts1)" "parsed PPrimary ts (l, ts1)" by (cases x) auto
  note 1 = parsedD [OF x(2)]
  have "returns (after_left ev l ts1)
      (\<lambda>(v, ts2). safe ts2 \<and> suffix ts2 ts1 \<and> (is_compare (hd ts1) \<longrightarrow> length ts2 < length ts1))"
    using 1 by (intro after_left_returns [OF assms(1)]) (auto simp: psize_def)
  then show "returns (case x of (l, ts1) \<Rightarrow> after_left ev l ts1) (parsed PComparison ts)"
    unfolding x(1) prod.case
  proof (rule returns_mono, clarify)
    fix v ts2 assume "safe ts2" and s: "suffix ts2 ts1" and "is_compare (hd ts1) \<longrightarrow> length ts2 < length ts1"
    with 1 suffix_length_le [OF s] show "parsed PComparison ts (v, ts2)"
      by (auto simp: parsed_def intro: suffix_order.order_trans)
  qed
qed

lemma parse_PPrimary_eqs:
  "parse ev PPrimary (LParen # r) =
     pbind (parse ev POr r) (\<lambda>(v, ts1).
       case ts1 of [] \<Rightarrow> Some (EUndef Read_past_end) | t # r1 \<Rightarrow> Some (EOk (v, if t = RParen then r1 else ts1)))"
  "parse ev PPrimary (Identifier name0 # r) =
     pbind (Some (path_tail name0 r)) (\<lambda>(name, ts1).
       case ts1 of
         [] \<Rightarrow> Some (EUndef Read_past_end)
       | t # r1 \<Rightarrow> if t = LParen then parse ev (PCall name) ts1 else Some (EOk (ctx_get (ev_ctx ev) name, ts1)))"
  by (subst parse.simps, simp)+

lemma parse_PPrimary:
  assumes "smaller_return ev (psize PPrimary ts)" "safe ts"
  shows "returns (parse ev PPrimary ts) (parsed PPrimary ts)"
proof -
  obtain t r where ts: "ts = t # r" using assms(2) by (cases ts) auto
  consider (paren) "t = LParen" | (ident) name0 where "t = Identifier name0"
    | (other) "t \<noteq> LParen" "\<And>n. t \<noteq> Identifier n" by blast
  then show ?thesis
  proof cases
    case paren
    with assms(2) ts have "safe r" using safe_Cons [of t r] by auto
    then have "returns (parse ev POr r) (parsed POr r)"
      using ts by (intro smaller_returnD [OF assms(1)]) (auto simp: psize_def ready_def)
    then show ?thesis
      unfolding ts paren parse_PPrimary_eqs
    proof (rule returns_seq, clarify)
      fix v ts1 assume p: "parsed POr r (v, ts1)"
      then obtain t1 r1 where t1: "ts1 = t1 # r1" using parsedD(1) [OF p] by (cases ts1) auto
      then have "t1 = RParen \<Longrightarrow> safe r1" using parsedD(1) [OF p] safe_Cons [of t1 r1] by auto
      with parsed_behind [OF p, of PPrimary LParen] t1
      show "returns (case ts1 of [] \<Rightarrow> Some (EUndef Read_past_end)
          | t # r1 \<Rightarrow> Some (EOk (v, if t = RParen then r1 else ts1))) (parsed PPrimary (LParen # r))"
        by (auto simp: parsed_def dest: suffix_ConsD)
    qed
  next
    case ident
    then have "ends_eof r" "dots_ok InPath r"
      using assms(2) ts by (auto simp: safe_def ends_eof_def split: if_splits)
    from path_tail_returns [OF this, of name0] show ?thesis
      unfolding ts ident parse_PPrimary_eqs
    proof (rule returns_seq, clarify)
      fix name ts1 assume ts1: "safe ts1" "suffix ts1 r"
      then obtain t1 r1 where t1: "ts1 = t1 # r1" by (cases ts1) auto
      have p: "parsed PPrimary (Identifier name0 # r) (v, ts2)" if "safe ts2" "suffix ts2 ts1" for v ts2
        using that ts1 suffix_length_le [of ts2 ts1] suffix_length_le [of ts1 r]
        by (auto simp: parsed_def suffix_Cons intro: suffix_order.order_trans)
      have "returns (parse ev (PCall name) ts1) (parsed (PCall name) ts1)" if "t1 = LParen"
        using ts1 t1 ts that suffix_length_le [OF ts1(2)]
        by (intro smaller_returnD [OF assms(1)]) (auto simp: psize_def ready_def)
      then have "returns (parse ev (PCall name) ts1) (parsed PPrimary (Identifier name0 # r))" if "t1 = LParen"
        using that p by (auto elim!: returns_mono simp: parsed_def [of "PCall name"])
      with t1 p ts1 show "returns (case ts1 of [] \<Rightarrow> Some (EUndef Read_past_end)
          | t # r1 \<Rightarrow> if t = LParen then parse ev (PCall name) ts1 else Some (EOk (ctx_get (ev_ctx ev) name, ts1)))
          (parsed PPrimary (Identifier name0 # r))"
        by auto
    qed
  next
    case other
    with assms(2) show ?thesis
      unfolding ts using safe_Cons [of t r]
      by (subst parse.simps) (auto simp: parsed_def suffix_Cons split: token.splits)
  qed
qed

lemma parse_PCall:
  assumes "smaller_return ev (psize (PCall name) ts)" "ready (PCall name) ts"
  shows "returns (parse ev (PCall name) ts) (parsed (PCall name) ts)"
proof -
  obtain r where ts: "ts = LParen # r" using assms(2) by (cases ts) (auto simp: ready_def)
  with assms(2) have "safe r" using safe_Cons [of LParen r] by (auto simp: ready_def)
  then have "returns (parse ev (PArgs name []) r) (parsed (PArgs name []) r)"
    using ts by (intro smaller_returnD [OF assms(1)]) (auto simp: psize_def ready_def)
  then show ?thesis
    unfolding ts parse_mode_eqs(6) by (auto elim!: returns_mono intro: parsed_behind)
qed

lemma parse_PArgs_eq:
  "parse ev (PArgs name args) (t # r) =
     (if t = RParen then pbind (Some (callFunction ev name args)) (\<lambda>v. Some (EOk (v, r)))
      else if t = Eof then pbind (Some (callFunction ev name args)) (\<lambda>v. Some (EOk (v, t # r)))
      else pbind (parse ev POr (t # r)) (\<lambda>(v, ts1).
        case ts1 of
          [] \<Rightarrow> Some (EUndef Read_past_end)
        | t1 # r1 \<Rightarrow> parse ev (PArgs name (args @ [v])) (if t1 = Comma then r1 else ts1)))"
  by (subst parse.simps) simp

lemma returns_call:
  "(\<And>v. Q (v, ts)) \<Longrightarrow> returns (pbind (Some (callFunction ev name args)) (\<lambda>v. Some (EOk (v, ts)))) Q"
  using callFunction_no_read [of ev name args] by (cases "callFunction ev name args") auto

text \<open>An argument starts with a token that is consumed, or is empty before a comma.\<close>

lemma argument_consumes:
  "safe (t # r) \<Longrightarrow> t \<noteq> RParen \<Longrightarrow> t \<noteq> Eof \<Longrightarrow> consumes POr t \<or> t = Comma"
  by (cases t) (auto simp: is_compare_def)

lemma parse_PArgs:
  assumes "smaller_return ev (psize (PArgs name args) ts)" "safe ts"
  shows "returns (parse ev (PArgs name args) ts) (parsed (PArgs name args) ts)"
proof -
  obtain t r where ts: "ts = t # r" using assms(2) by (cases ts) auto
  consider (stop) "t = RParen \<or> t = Eof" | (arg) "t \<noteq> RParen" "t \<noteq> Eof" by blast
  then show ?thesis
  proof cases
    case stop
    then show ?thesis
      unfolding ts parse_PArgs_eq using assms(2) ts safe_Cons [of RParen r]
      by (auto intro!: returns_call simp: parsed_def suffix_Cons)
  next
    case arg
    have "returns (parse ev POr ts) (parsed POr ts)"
      using assms by (intro smaller_returnD) (auto simp: psize_def ready_def)
    then have "returns (pbind (parse ev POr ts) (\<lambda>(v, ts1).
        case ts1 of
          [] \<Rightarrow> Some (EUndef Read_past_end)
        | t1 # r1 \<Rightarrow> parse ev (PArgs name (args @ [v])) (if t1 = Comma then r1 else ts1))) (parsed (PArgs name args) ts)"
    proof (rule returns_seq, clarify)
      fix v ts1 assume p: "parsed POr ts (v, ts1)"
      note 1 = parsedD [OF p]
      then obtain t1 r1 where t1: "ts1 = t1 # r1" by (cases ts1) auto
      let ?ts2 = "if t1 = Comma then r1 else ts1"
      have s2: "safe ?ts2" "suffix ?ts2 ts"
        using 1(1,2) t1 safe_Cons [of t1 r1] by (auto dest: suffix_ConsD)
      have lt: "length ?ts2 < length ts"
        using argument_consumes [of t r] arg assms(2) ts 1(3-5) t1 by auto
      then have "returns (parse ev (PArgs name (args @ [v])) ?ts2) (parsed (PArgs name (args @ [v])) ?ts2)"
        using s2(1) by (intro smaller_returnD [OF assms(1)]) (auto simp: psize_def ready_def split del: if_split)
      then have "returns (parse ev (PArgs name (args @ [v])) ?ts2) (parsed (PArgs name args) ts)"
        by (rule returns_mono) (use s2(2) in \<open>auto simp: parsed_def intro: suffix_order.order_trans split del: if_split\<close>)
      then show "returns (case ts1 of [] \<Rightarrow> Some (EUndef Read_past_end)
          | t1 # r1 \<Rightarrow> parse ev (PArgs name (args @ [v])) (if t1 = Comma then r1 else ts1)) (parsed (PArgs name args) ts)"
        using t1 by simp
    qed
    then show ?thesis unfolding ts parse_PArgs_eq using arg by simp
  qed
qed

lemma parse_returns: "ready m ts \<Longrightarrow> returns (parse ev m ts) (parsed m ts)"
proof (induction "psize m ts" arbitrary: m ts rule: less_induct)
  case less
  then have "smaller_return ev (psize m ts)" "safe ts" by (auto simp: smaller_return_def ready_def)
  with less.prems show ?case
    by (cases m) (auto intro: parse_POr parse_PAnd parse_POrLoop parse_PAndLoop parse_PNot parse_PComparison
        parse_PPrimary parse_PCall parse_PArgs)
qed

text \<open>
  C28. The parser returns on every token list that ends in the end marker and in which dots only
  follow paths, and it never reads behind the end marker: the result is a value or an exception, or
  the overflow of a format placeholder, and the tokens it leaves are a suffix of its input.
\<close>

theorem parser_returns:
  assumes "ts \<noteq> []" "last ts = Eof" "dots_ok Outside ts"
  shows "\<exists>r. parse ev POr ts = Some r \<and> r \<noteq> EUndef Read_past_end
    \<and> (\<forall>v rest. r = EOk (v, rest) \<longrightarrow> suffix rest ts \<and> rest \<noteq> [])"
proof -
  have "ready POr ts" using assms by (simp add: ready_def safe_def ends_eof_def)
  from parse_returns [OF this, of ev] show ?thesis
    by (auto simp: returns_def parsed_def safe_def ends_eof_def)
qed

theorem parser_returns_witness:
  "\<exists>r. parse demo_evaluator POr [Identifier ''github'', Dot, Identifier ''ref'', OpEq, LitString ''main'', Eof] = Some r
     \<and> r \<noteq> EUndef Read_past_end"
proof -
  have "dots_ok Outside [Identifier ''github'', Dot, Identifier ''ref'', OpEq, LitString ''main'', Eof]" by simp
  from parser_returns [OF _ _ this, of demo_evaluator] show ?thesis by auto
qed

text \<open>At a dot every other method leaves the input alone, so the argument loop repeats itself.\<close>

definition stuck_at_dot :: "pmode \<Rightarrow> token list \<Rightarrow> (expr_value \<times> token list) eres \<Rightarrow> bool" where
  "stuck_at_dot m ts y \<longleftrightarrow> (\<forall>r. ts = Dot # r \<longrightarrow>
     (case m of PArgs _ _ \<Rightarrow> False | PCall _ \<Rightarrow> True | _ \<Rightarrow> \<exists>v. y = EOk (v, Dot # r)))"

lemma pbind_SomeE:
  assumes "pbind m k = Some y"
  obtains x where "m = Some (EOk x)" "k x = Some y" | e where "m = Some (EThrow e)" "y = EThrow e"
    | u where "m = Some (EUndef u)" "y = EUndef u"
  using assms by (cases m; cases "the m") (auto simp: pbind_def)

lemma parse_stuck:
  assumes "parse ev m ts = Some y"
  shows "stuck_at_dot m ts y"
proof (rule parse.raw_induct [where P = "\<lambda>ev m ts y. stuck_at_dot m ts y", OF _ assms], goal_cases)
  case (1 f ev m ts y)
  note IH = "1"(1) [unfolded stuck_at_dot_def]
  from "1"(2) show ?case
    unfolding stuck_at_dot_def
    by (cases m) (auto elim!: pbind_SomeE dest!: IH split: if_splits)
qed

text \<open>
  Where that condition fails the parser can hang: with a dot at the head of an argument the
  argument loop adds one empty argument after the other without consuming a token, so an expression
  such as \<^verbatim>\<open>f(.x)\<close>, or a path on a call inside an argument list, never returns.
\<close>

theorem dotted_argument_hangs:
  "parse ev (PArgs name args) (Dot # ts) = None \<and> evaluateExpr ev ''f(.x)'' = None"
proof -
  have stuck: "parse ev (PArgs name args) (Dot # ts) = None" for name args ts
    using parse_stuck [of ev "PArgs name args" "Dot # ts"]
    by (cases "parse ev (PArgs name args) (Dot # ts)") (auto simp: stuck_at_dot_def)
  have t: "tokenize ''f(.x)'' = EOk [Identifier ''f'', LParen, Dot, Identifier ''x'', RParen, Eof]"
    by (simp add: tokenize.simps is_space_def is_quote_def starts_number_def is_digit_def two_char_op_def
        one_char_op_def isIdentStart_def isIdentChar_def is_alnum_def is_alpha_def ascii_def keyword_def)
  have "parse ev POr [Identifier ''f'', LParen, Dot, Identifier ''x'', RParen, Eof] = None"
    by (simp add: parse_mode_eqs(1,2) parse_mode_eqs(5,6) parse_PComparison_eq parse_PPrimary_eqs stuck)
  moreover have "trim ''f(.x)'' = ''f(.x)''" by (simp add: trim_def is_space_def ascii_def)
  ultimately show ?thesis using stuck by (simp add: evaluateExpr_def t)
qed

end
