(* ===== verification/Proto_Wire.thy ===== *)
theory Proto_Wire
  imports Prelude "HOL-Library.Word"
begin

unbundle bit_operations_syntax

text \<open>
  The protobuf wire format of \<^verbatim>\<open>src/src/client/RunnerClient.cpp\<close>, namespace \<^verbatim>\<open>proto\<close>:
  the encoding and decoding helpers and the message loop that all its decoders share.

  A \<^verbatim>\<open>uint64_t\<close> is a \<^typ>\<open>64 word\<close>.  A decoder walks a pointer over a buffer; the pointer is its
  offset from the start of the buffer, an integer, because \<^verbatim>\<open>p += len\<close> is unchecked in
  \<^verbatim>\<open>skipField\<close> and the addition wraps modulo $2^{64}$.  The address of a buffer is chosen by the
  allocator: the parameter \<open>addr\<close>.  Outcomes are \<open>POk\<close>, an exception (\<open>PThrow\<close>), or undefined
  behaviour (\<open>PUndef\<close>: a read before the buffer, or a shift by 64 and more); a decoder that never
  returns is \<^const>\<open>None\<close>.
\<close>

type_synonym u64 = "64 word"

datatype 'a presult = POk 'a | PThrow exn | PUndef

section \<open>Encoding\<close>

lemma unat_drop_bit_7: "unat (drop_bit 7 (v :: u64)) = unat v div 128"
  by (simp add: unat_drop_bit_eq drop_bit_eq_div unat_div)

function appendVarint :: "string \<Rightarrow> u64 \<Rightarrow> string" where
  "appendVarint out v =
     (if 0x7F < v then appendVarint (out @ [char_of (unat ((v AND 0x7F) OR 0x80))]) (drop_bit 7 v)
      else out @ [char_of (unat v)])"
  by auto
termination
  by (relation "measure (\<lambda>(out, v). unat v)") (simp_all add: unat_drop_bit_7 word_less_nat_alt)

declare appendVarint.simps [simp del]

definition appendTag :: "string \<Rightarrow> 32 word \<Rightarrow> 32 word \<Rightarrow> string" where
  "appendTag out field wire_type = appendVarint out (push_bit 3 (ucast field) OR ucast wire_type)"

definition appendString :: "string \<Rightarrow> 32 word \<Rightarrow> string \<Rightarrow> string" where
  "appendString out field s = appendVarint (appendTag out field 2) (of_nat (length s)) @ s"

text \<open>An \<^verbatim>\<open>int64_t\<close> is an integer here; the cast to \<^verbatim>\<open>uint64_t\<close> is \<open>word_of_int\<close>.\<close>

definition appendInt64 :: "string \<Rightarrow> 32 word \<Rightarrow> int \<Rightarrow> string" where
  "appendInt64 out field v =
     (if v = 0 then out else appendVarint (appendTag out field 0) (word_of_int v))"

definition appendBool :: "string \<Rightarrow> 32 word \<Rightarrow> bool \<Rightarrow> string" where
  "appendBool out field v = (if \<not> v then out else appendVarint (appendTag out field 0) 1)"

definition appendEnum :: "string \<Rightarrow> 32 word \<Rightarrow> int \<Rightarrow> string" where
  "appendEnum out field v =
     (if v = 0 then out else appendVarint (appendTag out field 0) (word_of_int v))"

definition encodeTimestamp :: "int \<Rightarrow> int \<Rightarrow> string" where
  "encodeTimestamp secs nanos =
     (let ts = appendInt64 [] 1 secs in if nanos \<noteq> 0 then appendInt64 ts 2 nanos else ts)"

definition appendMessage :: "string \<Rightarrow> 32 word \<Rightarrow> string \<Rightarrow> string" where
  "appendMessage out field msg =
     (if msg = [] then out else appendVarint (appendTag out field 2) (of_nat (length msg)) @ msg)"

section \<open>Decoding\<close>

definition byte_at :: "string \<Rightarrow> int \<Rightarrow> u64" where
  "byte_at buf p = of_nat (of_char (buf ! nat p))"

function decode_loop :: "string \<Rightarrow> int \<Rightarrow> u64 \<Rightarrow> nat \<Rightarrow> (u64 \<times> int) presult" where
  "decode_loop buf p result shift =
     (if p < int (length buf) then
        if p < 0 \<or> 64 \<le> shift then PUndef
        else
          let b = byte_at buf p;
              result' = result OR push_bit shift (b AND 0x7F)
          in if b AND 0x80 = 0 then POk (result', p + 1)
             else decode_loop buf (p + 1) result' (shift + 7)
      else POk (result, p))"
  by auto
termination
  by (relation "measure (\<lambda>(buf, p, result, shift). nat (int (length buf) - p))") auto

declare decode_loop.simps [simp del]

definition decodeVarint :: "string \<Rightarrow> int \<Rightarrow> (u64 \<times> int) presult" where
  "decodeVarint buf p = decode_loop buf p 0 0"

text \<open>\<^verbatim>\<open>p + len\<close> on 64-bit addresses, read back as an offset.\<close>

definition ptr_add :: "(string \<Rightarrow> nat) \<Rightarrow> string \<Rightarrow> int \<Rightarrow> nat \<Rightarrow> int" where
  "ptr_add addr buf p len = (int (addr buf) + p + int len) mod 2 ^ 64 - int (addr buf)"

text \<open>
  The string constructor throws \<^verbatim>\<open>std::length_error\<close> above \<^verbatim>\<open>max_size()\<close>; if the addition
  wrapped and the length is still below it, the copy reads outside the buffer.
\<close>

definition decodeString :: "(string \<Rightarrow> nat) \<Rightarrow> string \<Rightarrow> int \<Rightarrow> (string \<times> int) presult" where
  "decodeString addr buf p =
     (case decodeVarint buf p of
        PThrow e \<Rightarrow> PThrow e
      | PUndef \<Rightarrow> PUndef
      | POk (len, p') \<Rightarrow>
          let q = ptr_add addr buf p' (unat len)
          in if int (length buf) < q then PThrow (Runtime_error ''Proto decode: string overrun'')
             else if 2 ^ 63 \<le> unat len then PThrow (Length_error ''basic_string::_M_create'')
             else if q \<noteq> p' + int (unat len) then PUndef
             else POk (take (unat len) (drop (nat p') buf), q))"

definition skipField :: "(string \<Rightarrow> nat) \<Rightarrow> nat \<Rightarrow> string \<Rightarrow> int \<Rightarrow> int presult" where
  "skipField addr wire_type buf p =
     (if wire_type = 0 then
        (case decodeVarint buf p of POk (_, p') \<Rightarrow> POk p' | PThrow e \<Rightarrow> PThrow e | PUndef \<Rightarrow> PUndef)
      else if wire_type = 1 then POk (ptr_add addr buf p 8)
      else if wire_type = 2 then
        (case decodeVarint buf p of
           POk (len, p') \<Rightarrow> POk (ptr_add addr buf p' (unat len))
         | PThrow e \<Rightarrow> PThrow e | PUndef \<Rightarrow> PUndef)
      else if wire_type = 5 then POk (ptr_add addr buf p 4)
      else PThrow (Runtime_error ''Proto decode: unknown wire type''))"

text \<open>The head of every decoder's loop: the tag, split into field number and wire type.\<close>

definition read_tag :: "string \<Rightarrow> int \<Rightarrow> (nat \<times> nat \<times> int) presult" where
  "read_tag buf p =
     (case decodeVarint buf p of
        POk (tag, p') \<Rightarrow> POk (unat (ucast (drop_bit 3 tag) :: 32 word), unat (tag AND 7), p')
      | PThrow e \<Rightarrow> PThrow e | PUndef \<Rightarrow> PUndef)"

datatype 'a flow = Next 'a int | Return 'a

partial_function (option) msg_loop ::
  "(nat \<Rightarrow> nat \<Rightarrow> 'st \<Rightarrow> int \<Rightarrow> 'st flow presult option) \<Rightarrow> string \<Rightarrow> 'st \<Rightarrow> int \<Rightarrow> 'st presult option" where
  "msg_loop h buf st p =
     (if p < int (length buf) then
        (case read_tag buf p of
           POk (field, wt, p1) \<Rightarrow>
             (case h field wt st p1 of
                None \<Rightarrow> None
              | Some r \<Rightarrow>
                  (case r of
                     POk (Next st' p') \<Rightarrow> msg_loop h buf st' p'
                   | POk (Return st') \<Rightarrow> Some (POk st')
                   | PThrow e \<Rightarrow> Some (PThrow e)
                   | PUndef \<Rightarrow> Some PUndef))
         | PThrow e \<Rightarrow> Some (PThrow e)
         | PUndef \<Rightarrow> Some PUndef)
      else Some (POk st))"

declare msg_loop.simps [code]

text \<open>The three things a decoder does with a field: read a string, read a varint, skip it.\<close>

definition on_string :: "(string \<Rightarrow> nat) \<Rightarrow> string \<Rightarrow> int \<Rightarrow> (string \<Rightarrow> 'st presult option) \<Rightarrow> 'st flow presult option" where
  "on_string addr buf p k =
     (case decodeString addr buf p of
        PThrow e \<Rightarrow> Some (PThrow e)
      | PUndef \<Rightarrow> Some PUndef
      | POk (s, p') \<Rightarrow>
          (case k s of
             None \<Rightarrow> None
           | Some (POk st) \<Rightarrow> Some (POk (Next st p'))
           | Some (PThrow e) \<Rightarrow> Some (PThrow e)
           | Some PUndef \<Rightarrow> Some PUndef))"

definition on_varint :: "string \<Rightarrow> int \<Rightarrow> (u64 \<Rightarrow> 'st) \<Rightarrow> 'st flow presult option" where
  "on_varint buf p k =
     (case decodeVarint buf p of
        POk (v, p') \<Rightarrow> Some (POk (Next (k v) p'))
      | PThrow e \<Rightarrow> Some (PThrow e) | PUndef \<Rightarrow> Some PUndef)"

definition on_skip :: "(string \<Rightarrow> nat) \<Rightarrow> nat \<Rightarrow> string \<Rightarrow> 'st \<Rightarrow> int \<Rightarrow> 'st flow presult option" where
  "on_skip addr wt buf st p =
     (case skipField addr wt buf p of
        POk p' \<Rightarrow> Some (POk (Next st p'))
      | PThrow e \<Rightarrow> Some (PThrow e) | PUndef \<Rightarrow> Some PUndef)"

section \<open>Varints round-trip\<close>

lemma appendVarint_append: "appendVarint out v = out @ appendVarint [] v"
proof (induction "unat v" arbitrary: out v rule: less_induct)
  case less
  show ?case
  proof (cases "0x7F < v")
    case True
    let ?c = "char_of (unat ((v AND 0x7F) OR 0x80)) :: char"
    have "unat (drop_bit 7 v) < unat v"
      using True by (simp add: unat_drop_bit_7 word_less_nat_alt)
    then have "appendVarint (out @ [?c]) (drop_bit 7 v) = (out @ [?c]) @ appendVarint [] (drop_bit 7 v)"
      "appendVarint [?c] (drop_bit 7 v) = [?c] @ appendVarint [] (drop_bit 7 v)"
      using less by blast+
    then show ?thesis
      using True by (simp add: appendVarint.simps [of out v] appendVarint.simps [of "[]" v])
  qed (simp add: appendVarint.simps [of out v] appendVarint.simps [of "[]" v])
qed

abbreviation varint :: "u64 \<Rightarrow> string" where
  "varint v \<equiv> appendVarint [] v"

lemma varint_more: "0x7F < v \<Longrightarrow> varint v = char_of (unat ((v AND 0x7F) OR 0x80)) # varint (drop_bit 7 v)"
  using appendVarint_append [of "[char_of (unat ((v AND 0x7F) OR 0x80))]" "drop_bit 7 v"]
  by (simp add: appendVarint.simps [of "[]" v])

lemma varint_last: "\<not> 0x7F < v \<Longrightarrow> varint v = [char_of (unat v)]"
  by (simp add: appendVarint.simps [of "[]" v])

lemma varint_not_Nil [simp]: "varint v \<noteq> []"
  by (cases "0x7F < v") (simp_all add: varint_more varint_last)

lemma byte_at_app: "byte_at (pre @ c # post) (int (length pre)) = of_nat (of_char c)"
  by (simp add: byte_at_def nth_append)

lemma split_7: "(v :: u64) = (v AND 0x7F) OR push_bit 7 (drop_bit 7 v)"
proof -
  have m: "(0x7F :: u64) = mask 7" by (simp add: mask_eq_exp_minus_1)
  show ?thesis unfolding m
  proof (rule bit_eqI)
    fix n
    show "bit v n = bit ((v AND mask 7) OR push_bit 7 (drop_bit 7 v)) n"
      by (cases "n < 7") (auto simp: bit_simps not_less dest!: le_Suc_ex dest: bit_imp_le_length)
  qed
qed

lemma take_bit_u64_iff: "take_bit n (v :: u64) = v \<longleftrightarrow> unat v < 2 ^ n"
  by (simp add: word_unat_eq_iff unsigned_take_bit_eq take_bit_nat_eq_self_iff)

lemma bit_128: "bit (0x80 :: int) n \<longleftrightarrow> n = 7"
proof -
  have "bit ((2 :: int) ^ 7) n \<longleftrightarrow> n = 7" unfolding bit_exp_iff by auto
  then show ?thesis by simp
qed

text \<open>What a byte with the continuation bit carries.\<close>

lemma unat_lt_256: "(b :: u64) < 256 \<Longrightarrow> (of_nat (of_char (char_of (unat b) :: char)) :: u64) = b"
  by (simp add: word_less_nat_alt)

lemma continuation_byte:
  assumes "b = (v AND 0x7F) OR (0x80 :: u64)"
  shows "b < 256" "b AND 0x7F = v AND 0x7F" "b AND 0x80 \<noteq> 0"
proof -
  have m: "(0x7F :: u64) = mask 7" by (simp add: mask_eq_exp_minus_1)
  have "take_bit 8 b = b"
    unfolding assms m by (rule bit_eqI) (auto simp: bit_and_iff bit_or_iff bit_take_bit_iff bit_mask_iff bit_128)
  then show "b < 256"
    using take_bit_u64_iff [of 8 b] by (simp add: word_less_nat_alt)
  show "b AND 0x7F = v AND 0x7F"
    unfolding assms m by (rule bit_eqI) (auto simp: bit_and_iff bit_or_iff bit_take_bit_iff bit_mask_iff bit_128)
  have "bit (b AND 0x80) 7" unfolding assms by (simp add: bit_and_iff bit_or_iff bit_128)
  then show "b AND 0x80 \<noteq> 0" by auto
qed

lemma final_byte:
  assumes "\<not> (0x7F :: u64) < v"
  shows "v < 256" "v AND 0x7F = v" "v AND 0x80 = 0"
proof -
  have m: "(0x7F :: u64) = mask 7" by (simp add: mask_eq_exp_minus_1)
  show "v < 256" using assms by (simp add: word_less_nat_alt)
  have t: "take_bit 7 v = v" using assms by (simp add: take_bit_u64_iff word_less_nat_alt)
  then show "v AND 0x7F = v" by (simp add: m take_bit_eq_mask)
  show "v AND 0x80 = 0"
    by (subst t [symmetric], rule bit_eqI) (auto simp: bit_and_iff bit_or_iff bit_take_bit_iff bit_mask_iff bit_128)
qed

text \<open>
  The loop started with \<open>shift = 7 k\<close> on the rest of an encoding of a value that still fits.
\<close>

lemma decode_loop_varint:
  assumes "unat v < 2 ^ (64 - shift)" "shift < 64"
  shows "decode_loop (pre @ varint v @ post) (int (length pre)) r shift =
    POk (r OR push_bit shift v, int (length pre + length (varint v)))"
  using assms
proof (induction "unat v" arbitrary: v pre r shift rule: less_induct)
  case less
  show ?case
  proof (cases "0x7F < v")
    case True
    let ?b = "(v AND 0x7F) OR 0x80" and ?v = "drop_bit 7 v"
    let ?c = "char_of (unat ?b) :: char"
    note cb = continuation_byte [OF refl, of v]
    have b: "of_nat (of_char ?c) = ?b" using unat_lt_256 [OF cb(1)] .
    have big: "127 < unat v" using True by (simp add: word_less_nat_alt)
    have sh: "shift + 7 < 64"
    proof (rule ccontr)
      assume "\<not> shift + 7 < 64"
      then have "64 - shift \<le> 7" by simp
      then have "(2 :: nat) ^ (64 - shift) \<le> 2 ^ 7" by (rule power_increasing) simp
      with less.prems(1) big show False by simp
    qed
    have "unat ?v < 2 ^ (64 - (shift + 7))"
    proof -
      have "(2 :: nat) ^ (64 - shift) = 2 ^ (64 - (shift + 7)) * 128"
        using sh power_add [of "2 :: nat" "57 - shift" 7] by (simp add: algebra_simps)
      with less.prems(1) show ?thesis by (simp add: unat_drop_bit_7 div_less_iff_less_mult)
    qed
    moreover have "unat ?v < unat v" using big by (simp add: unat_drop_bit_7)
    ultimately have IH: "decode_loop ((pre @ [?c]) @ varint ?v @ post) (int (length (pre @ [?c])))
        (r OR push_bit shift (v AND 0x7F)) (shift + 7) =
      POk ((r OR push_bit shift (v AND 0x7F)) OR push_bit (shift + 7) ?v, int (length (pre @ [?c]) + length (varint ?v)))"
      using less.hyps sh by blast
    have "decode_loop (pre @ varint v @ post) (int (length pre)) r shift =
        decode_loop ((pre @ [?c]) @ varint ?v @ post) (int (length pre) + 1) (r OR push_bit shift (v AND 0x7F)) (shift + 7)"
      using less.prems(2) cb(3)
      by (subst decode_loop.simps) (simp add: varint_more [OF True] byte_at_app b Let_def cb(2) del: of_char_of push_bit_and push_bit_or)
    also have "\<dots> = POk (r OR push_bit shift v, int (length pre + length (varint v)))"
    proof -
      have "push_bit shift v = push_bit shift (v AND 0x7F) OR push_bit (shift + 7) ?v"
        by (subst split_7 [of v]) (simp add: push_bit_or add.commute)
      then show ?thesis using IH by (simp add: varint_more [OF True] or.assoc add.commute)
    qed
    finally show ?thesis .
  next
    case False
    with less.prems(2) show ?thesis
      by (subst decode_loop.simps)
        (simp add: varint_last byte_at_app Let_def final_byte unat_lt_256 del: of_char_of push_bit_and)
  qed
qed

lemma decodeVarint_varint:
  "decodeVarint (pre @ varint v @ post) (int (length pre)) = POk (v, int (length pre + length (varint v)))"
  using decode_loop_varint [of v 0 pre post 0] unsigned_less [of v]
  by (simp add: decodeVarint_def)

section \<open>Fields\<close>

text \<open>
  The reference: a message is a sequence of numbered fields, each a varint or a byte string.  The
  field numbers of protobuf are below $2^{29}$.
\<close>

datatype wire_value = VarintV u64 | LenV string

fun wire_type :: "wire_value \<Rightarrow> nat" where
  "wire_type (VarintV _) = 0"
| "wire_type (LenV _) = 2"

fun render_value :: "wire_value \<Rightarrow> string" where
  "render_value (VarintV v) = varint v"
| "render_value (LenV s) = varint (of_nat (length s)) @ s"

definition render_tag :: "nat \<Rightarrow> nat \<Rightarrow> string" where
  "render_tag f w = varint (push_bit 3 (of_nat f) OR of_nat w)"

definition render_field :: "nat \<times> wire_value \<Rightarrow> string" where
  "render_field fv = render_tag (fst fv) (wire_type (snd fv)) @ render_value (snd fv)"

definition render_fields :: "(nat \<times> wire_value) list \<Rightarrow> string" where
  "render_fields fs = concat (map render_field fs)"

lemma render_fields_simps [simp]:
  "render_fields [] = []"
  "render_fields (fv # fs) = render_field fv @ render_fields fs"
  "render_fields (fs @ fs') = render_fields fs @ render_fields fs'"
  by (simp_all add: render_fields_def)

lemma render_field_not_Nil [simp]: "render_field fv \<noteq> []"
  by (simp add: render_field_def render_tag_def)

text \<open>The encoders append fields.\<close>

lemma appendTag_eq: "appendTag out (of_nat f) (of_nat w) = out @ render_tag f w"
  if "f < 2 ^ 29" "w < 8"
proof -
  have "ucast (of_nat f :: 32 word) = (of_nat f :: u64)" "ucast (of_nat w :: 32 word) = (of_nat w :: u64)"
    using that by (simp_all add: word_unat_eq_iff unsigned_ucast_eq unsigned_of_nat take_bit_nat_eq_self)
  then show ?thesis
    by (simp add: appendTag_def render_tag_def appendVarint_append [of out])
qed

lemma append_field_simps:
  assumes "f < 2 ^ 29"
  shows "appendString out (of_nat f) s = out @ render_field (f, LenV s)"
    "appendMessage out (of_nat f) s = out @ (if s = [] then [] else render_field (f, LenV s))"
    "appendInt64 out (of_nat f) i = out @ (if i = 0 then [] else render_field (f, VarintV (word_of_int i)))"
    "appendEnum out (of_nat f) i = out @ (if i = 0 then [] else render_field (f, VarintV (word_of_int i)))"
    "appendBool out (of_nat f) b = out @ (if b then render_field (f, VarintV 1) else [])"
  using appendTag_eq [OF assms, of 0 out] appendTag_eq [OF assms, of 2 out]
  by (simp_all add: appendString_def appendMessage_def appendInt64_def appendEnum_def appendBool_def
      render_field_def appendVarint_append [of "out @ _"])

lemma tag_parts:
  assumes "f < 2 ^ 29" "w < 8"
  defines "tag \<equiv> push_bit 3 (of_nat f) OR (of_nat w :: u64)"
  shows "unat (ucast (drop_bit 3 tag) :: 32 word) = f" "unat (tag AND 7) = w"
proof -
  let ?w = "of_nat w :: u64" and ?f = "of_nat f :: u64"
  have uw: "unat ?w = w" and uf: "unat ?f = f"
    using assms(1,2) by (simp_all add: unsigned_of_nat take_bit_nat_eq_self)
  have w: "take_bit 3 ?w = ?w" and f: "take_bit 61 ?f = ?f"
    using assms(1,2) uw uf by (simp_all add: take_bit_u64_iff)
  have m: "(7 :: u64) = mask 3" by (simp add: mask_eq_exp_minus_1)
  have "tag AND 7 = ?w"
    unfolding tag_def m take_bit_eq_mask [symmetric] take_bit_or w by (simp add: take_bit_push_bit)
  then show "unat (tag AND 7) = w" by (simp add: uw)
  have "drop_bit 3 ?w = 0" using w by (simp add: take_bit_eq_self_iff_drop_bit_eq_0)
  moreover have "drop_bit 3 (push_bit 3 ?f) = ?f"
    by (rule bit_eqI, subst (2) f [symmetric]) (auto simp: bit_simps)
  ultimately have "drop_bit 3 tag = ?f" unfolding tag_def drop_bit_or by simp
  then show "unat (ucast (drop_bit 3 tag) :: 32 word) = f"
    using assms(1) by (simp add: unsigned_ucast_eq uf take_bit_nat_eq_self)
qed

lemma read_tag_render:
  "f < 2 ^ 29 \<Longrightarrow> w < 8 \<Longrightarrow>
   read_tag (pre @ render_tag f w @ post) (int (length pre)) = POk (f, w, int (length pre + length (render_tag f w)))"
  unfolding read_tag_def render_tag_def decodeVarint_varint
  by (simp add: tag_parts del: drop_bit_or)

text \<open>
  The allocator places messages of ordinary size so that the addresses of one buffer do not wrap
  and lie in the lower half of the address space.
\<close>

definition addr_ok :: "(string \<Rightarrow> nat) \<Rightarrow> bool" where
  "addr_ok addr \<longleftrightarrow> (\<forall>buf. length buf < 2 ^ 47 \<longrightarrow> addr buf + length buf < 2 ^ 63)"

lemma ptr_add_inside:
  assumes "addr_ok addr" "length buf < 2 ^ 47" "0 \<le> p" "p + int len \<le> int (length buf)"
  shows "ptr_add addr buf p len = p + int len"
proof -
  have "addr buf + length buf < 2 ^ 63" using assms(1,2) by (simp add: addr_ok_def)
  then have "int (addr buf + length buf) < int (2 ^ 63)" by (simp only: of_nat_less_iff)
  with assms(3,4) have "int (addr buf) + p + int len < 2 ^ 64" by simp
  with assms(3) show ?thesis by (simp add: ptr_add_def)
qed

lemma decodeString_render:
  assumes "addr_ok addr" "length (pre @ render_value (LenV s) @ post) < 2 ^ 47"
  shows "decodeString addr (pre @ render_value (LenV s) @ post) (int (length pre)) =
    POk (s, int (length pre + length (render_value (LenV s))))"
proof -
  let ?buf = "pre @ varint (of_nat (length s)) @ s @ post"
  have len: "unat (of_nat (length s) :: u64) = length s" "length s < 2 ^ 63"
    using assms(2) by (simp_all add: unsigned_of_nat take_bit_nat_eq_self)
  have "ptr_add addr ?buf (int (length pre + length (varint (of_nat (length s))))) (length s) =
      int (length pre + length (varint (of_nat (length s)))) + int (length s)"
    using assms by (intro ptr_add_inside) simp_all
  then show ?thesis
    using len(2) decodeVarint_varint [of pre "of_nat (length s)" "s @ post"]
    by (simp add: decodeString_def len(1) Let_def nat_add_distrib)
qed

text \<open>
  What the three field actions do at a rendered field.  Its value starts at \<open>value_pos\<close>, the next
  field at \<open>next_pos\<close>; \<open>fits\<close> bounds the size of a message.
\<close>

definition value_pos :: "string \<Rightarrow> nat \<Rightarrow> wire_value \<Rightarrow> int" where
  "value_pos pre f v = int (length pre + length (render_tag f (wire_type v)))"

definition next_pos :: "string \<Rightarrow> nat \<Rightarrow> wire_value \<Rightarrow> int" where
  "next_pos pre f v = int (length (pre @ render_field (f, v)))"

definition fits :: "string \<Rightarrow> bool" where
  "fits buf \<longleftrightarrow> length buf < 2 ^ 47"

lemma on_string_render:
  assumes "addr_ok addr" "buf = pre @ render_field (f, LenV s) @ post" "fits buf"
  shows "on_string addr buf (value_pos pre f (LenV s)) k =
    (case k s of None \<Rightarrow> None
     | Some (POk st) \<Rightarrow> Some (POk (Next st (next_pos pre f (LenV s))))
     | Some (PThrow e) \<Rightarrow> Some (PThrow e) | Some PUndef \<Rightarrow> Some PUndef)"
  using decodeString_render [OF assms(1), of "pre @ render_tag f 2" s post] assms(2,3)
  by (auto simp: on_string_def render_field_def add.assoc value_pos_def next_pos_def fits_def
      split: option.splits presult.splits)

lemma on_varint_render:
  assumes "buf = pre @ render_field (f, VarintV v) @ post"
  shows "on_varint buf (value_pos pre f (VarintV v)) k = Some (POk (Next (k v) (next_pos pre f (VarintV v))))"
  using decodeVarint_varint [of "pre @ render_tag f 0" v post] assms
  by (simp add: on_varint_def render_field_def add.assoc value_pos_def next_pos_def)

lemma on_skip_render:
  assumes "addr_ok addr" "buf = pre @ render_field (f, v) @ post" "fits buf"
  shows "on_skip addr (wire_type v) buf st (value_pos pre f v) = Some (POk (Next st (next_pos pre f v)))"
proof (cases v)
  case (VarintV x)
  then show ?thesis
    using decodeVarint_varint [of "pre @ render_tag f 0" x post] assms(2)
    by (simp add: on_skip_def skipField_def render_field_def add.assoc value_pos_def next_pos_def)
next
  case (LenV s)
  let ?q = "int (length pre + length (render_tag f 2) + length (varint (of_nat (length s))))"
  have "unat (of_nat (length s) :: u64) = length s"
    using assms(2,3) LenV by (simp add: render_field_def unsigned_of_nat take_bit_nat_eq_self fits_def)
  moreover have "ptr_add addr buf ?q (length s) = ?q + int (length s)"
    using assms LenV by (intro ptr_add_inside) (auto simp: render_field_def fits_def)
  ultimately show ?thesis
    using decodeVarint_varint [of "pre @ render_tag f 2" "of_nat (length s)" "s @ post"] assms(2) LenV
    by (simp add: on_skip_def skipField_def render_field_def add.assoc value_pos_def next_pos_def)
qed

section \<open>The message loop on well-formed messages\<close>

text \<open>
  The contract of a field handler \<open>h\<close>: on every field that satisfies \<open>ok\<close> it updates the message
  as \<open>g\<close> says and moves behind the field.  What the shared loop makes of it: the message is folded
  field by field, and the loop ends exactly at the end of the buffer.
\<close>

locale message_decoder =
  fixes h :: "string \<Rightarrow> nat \<Rightarrow> nat \<Rightarrow> 'st \<Rightarrow> int \<Rightarrow> 'st flow presult option"
    and g :: "nat \<Rightarrow> wire_value \<Rightarrow> 'st \<Rightarrow> 'st"
    and ok :: "nat \<Rightarrow> wire_value \<Rightarrow> bool"
  assumes handles: "ok f v \<Longrightarrow> f < 2 ^ 29 \<Longrightarrow> buf = pre @ render_field (f, v) @ post \<Longrightarrow> fits buf \<Longrightarrow>
    h buf f (wire_type v) st (value_pos pre f v) = Some (POk (Next (g f v st) (next_pos pre f v)))"
begin

lemma msg_loop_from:
  assumes "\<forall>(f, v) \<in> set fs. f < 2 ^ 29 \<and> ok f v" "buf = pre @ render_fields fs" "fits buf"
  shows "msg_loop (h buf) buf st (int (length pre)) = Some (POk (fold (\<lambda>(f, v). g f v) fs st))"
  using assms
proof (induction fs arbitrary: pre st)
  case Nil
  then show ?case by (simp add: msg_loop.simps)
next
  case (Cons fv fs)
  obtain f v where fv: "fv = (f, v)" by (cases fv)
  let ?post = "render_fields fs"
  have f: "f < 2 ^ 29" "ok f v" and buf: "buf = pre @ render_field (f, v) @ ?post"
    using Cons.prems fv by auto
  have "read_tag buf (int (length pre)) = POk (f, wire_type v, value_pos pre f v)"
    using read_tag_render [OF f(1), of "wire_type v" pre "render_value v @ ?post"] buf
    by (cases v) (simp_all add: render_field_def value_pos_def)
  moreover have "length pre < length buf"
    using buf by (metis length_append less_add_same_cancel1 length_greater_0_conv append_is_Nil_conv render_field_not_Nil)
  ultimately have "msg_loop (h buf) buf st (int (length pre)) =
      msg_loop (h buf) buf (g f v st) (int (length (pre @ render_field (f, v))))"
    using handles [OF f(2,1) buf Cons.prems(3), of st]
    by (subst msg_loop.simps) (simp add: next_pos_def)
  also have "\<dots> = Some (POk (fold (\<lambda>(f, v). g f v) fs (g f v st)))"
    using Cons.prems buf fv by (intro Cons.IH) auto
  finally show ?case by (simp add: fv)
qed

lemma decode_render:
  assumes "\<forall>(f, v) \<in> set fs. f < 2 ^ 29 \<and> ok f v" "fits (render_fields fs)"
  shows "msg_loop (h (render_fields fs)) (render_fields fs) st 0 = Some (POk (fold (\<lambda>(f, v). g f v) fs st))"
  using msg_loop_from [OF assms(1) _ assms(2), of "[]" st] by simp

end

lemma decode_as:
  assumes "message_decoder h g ok" "\<And>f v. (f, v) \<in> set fs \<Longrightarrow> f < 2 ^ 29 \<and> ok f v" "fits (render_fields fs)"
    "fold (\<lambda>(f, v). g f v) fs st = r"
  shows "msg_loop (h (render_fields fs)) (render_fields fs) st 0 = Some (POk r)"
  using message_decoder.decode_render [OF assms(1) _ assms(3), of st] assms(2,4) by fast

text \<open>
  The bytes are read back uniquely: two field lists with the same bytes are equal.
\<close>

interpretation raw: message_decoder
  "\<lambda>buf f w fs p. if w = 0 then on_varint buf p (\<lambda>v. fs @ [(f, VarintV v)])
     else on_string (\<lambda>_. 0) buf p (\<lambda>s. Some (POk (fs @ [(f, LenV s)])))"
  "\<lambda>f v fs. fs @ [(f, v)]" "\<lambda>f v. True"
proof
  fix f v and buf pre post :: string and st
  assume "buf = pre @ render_field (f, v) @ post" "fits buf"
  moreover have "addr_ok (\<lambda>_. 0)" by (simp add: addr_ok_def)
  ultimately show "(if wire_type v = 0 then on_varint buf (value_pos pre f v) (\<lambda>v. st @ [(f, VarintV v)])
       else on_string (\<lambda>_. 0) buf (value_pos pre f v) (\<lambda>s. Some (POk (st @ [(f, LenV s)])))) =
     Some (POk (Next (st @ [(f, v)]) (next_pos pre f v)))"
    by (cases v) (simp_all add: on_string_render on_varint_render)
qed

lemma fold_snoc: "fold (\<lambda>(f, v) fs. fs @ [(f, v)]) xs ys = ys @ xs"
  by (induction xs arbitrary: ys) auto

lemma render_fields_inj:
  assumes "\<forall>(f, v) \<in> set fs. f < 2 ^ 29" "\<forall>(f, v) \<in> set fs'. f < 2 ^ 29"
    "fits (render_fields fs)" "render_fields fs = render_fields fs'"
  shows "fs = fs'"
proof -
  have "\<forall>(f, v) \<in> set fs. f < 2 ^ 29 \<and> True" "\<forall>(f, v) \<in> set fs'. f < 2 ^ 29 \<and> True"
    "fits (render_fields fs')"
    using assms by auto
  from raw.decode_render [OF this(1) assms(3), of "[]"] raw.decode_render [OF this(2,3), of "[]"]
  show ?thesis unfolding fold_snoc assms(4) by simp
qed

text \<open>
  Every 64-bit value survives the varint encoding: decoding at the place where it was appended
  gives it back, whatever stands before and behind it, moves the pointer exactly behind its bytes
  and never shifts out of range.
\<close>

theorem varint_roundtrip:
  "decodeVarint (appendVarint out v @ rest) (int (length out)) = POk (v, int (length (appendVarint out v)))"
  using decodeVarint_varint [of out v rest] by (simp add: appendVarint_append [of out])

end
