(* ===== verification/Log_Forwarder.thy ===== *)
theory Log_Forwarder
  imports Prelude
begin

text \<open>
  \<^verbatim>\<open>src/src/runner/LogForwarder.cpp\<close>: secret masking, the line queue, the background worker
  and the batch sender with its acknowledgement protocol; and the log side of
  \<^verbatim>\<open>src/src/client/LocalRunnerClient.h\<close>, the client of a local run.

  The worker runs concurrently with the threads that append lines, so the forwarder is a step
  relation (\<open>lf_step\<close>): every action that is atomic under \<^verbatim>\<open>mutex_\<close> or on an atomic
  variable is one step.  \<^verbatim>\<open>IRunnerClient::updateLog\<close> is a parameter, with the law the sender
  relies on as the locale \<open>log_client\<close>.
\<close>

section \<open>Masking\<close>

text \<open>
  The inner loop of \<^verbatim>\<open>maskSecrets\<close>.  An empty secret is found again behind every replacement,
  so the loop need not end: \<^const>\<open>None\<close> is a loop that never returns.
\<close>

partial_function (option) mask_loop :: "string \<Rightarrow> string \<Rightarrow> nat \<Rightarrow> string option" where
  "mask_loop secret line pos =
     (case str_find_from secret line pos of
        None \<Rightarrow> Some line
      | Some p \<Rightarrow> mask_loop secret (take p line @ ''***'' @ drop (p + length secret) line) (p + 3))"

declare mask_loop.simps [code]

fun maskSecrets :: "string list \<Rightarrow> string \<Rightarrow> string option" where
  "maskSecrets [] line = Some line"
| "maskSecrets (secret # secrets) line =
     (case mask_loop secret line 0 of None \<Rightarrow> None | Some line' \<Rightarrow> maskSecrets secrets line')"

definition addSecret :: "string \<Rightarrow> string list \<Rightarrow> string list" where
  "addSecret v secrets =
     (if v = [] then secrets else if list_ex (\<lambda>s. s = v) secrets then secrets else secrets @ [v])"

text \<open>The reference: every leftmost occurrence replaced, reading the line once.\<close>

fun replace_all :: "string \<Rightarrow> string \<Rightarrow> string" where
  "replace_all p [] = []"
| "replace_all p (c # cs) =
     (if starts_with (c # cs) p then ''***'' @ replace_all p (drop (length p - 1) cs)
      else c # replace_all p cs)"

lemma replace_all_skip:
  "str_find p s = None \<Longrightarrow> p \<noteq> [] \<Longrightarrow> replace_all p s = s"
  by (induction s) (auto split: if_splits)

lemma replace_all_first:
  assumes "str_find p s = Some i" "p \<noteq> []"
  shows "replace_all p s = take i s @ ''***'' @ replace_all p (drop (i + length p) s)"
  using assms
proof (induction s arbitrary: i)
  case (Cons c cs)
  show ?case
  proof (cases "starts_with (c # cs) p")
    case True
    with Cons.prems show ?thesis by (cases p) auto
  next
    case False
    with Cons.prems obtain j where "str_find p cs = Some j" "i = Suc j" by auto
    with Cons.IH [of j] False Cons.prems(2) show ?thesis by simp
  qed
qed simp

lemma mask_loop_eq:
  assumes "secret \<noteq> []"
  shows "mask_loop secret (done @ rest) (length done) = Some (done @ replace_all secret rest)"
proof (induction "length rest" arbitrary: "done" rest rule: less_induct)
  case less
  show ?case
  proof (cases "str_find secret rest")
    case None
    then show ?thesis
      using assms by (simp add: mask_loop.simps [of secret] str_find_from_def replace_all_skip)
  next
    case (Some i)
    let ?done = "done @ take i rest @ ''***''" and ?rest = "drop (i + length secret) rest"
    have i: "i + length secret \<le> length rest" using str_find_Some_le [OF Some] .
    moreover from assms have "0 < length secret" by simp
    ultimately have "length ?rest < length rest" "length ?done = length done + i + 3"
      by (simp_all add: min_def del: length_greater_0_conv)
    then have "mask_loop secret (?done @ ?rest) (length done + i + 3) = Some (?done @ replace_all secret ?rest)"
      using less [of ?rest ?done] by metis
    moreover have "mask_loop secret (done @ rest) (length done) =
        mask_loop secret (?done @ ?rest) (length done + i + 3)"
      using Some by (subst mask_loop.simps) (simp add: str_find_from_def add.assoc)
    ultimately show ?thesis using replace_all_first [OF Some assms] by simp
  qed
qed

lemma mask_loop_replace_all: "secret \<noteq> [] \<Longrightarrow> mask_loop secret line 0 = Some (replace_all secret line)"
  using mask_loop_eq [of secret "[]" line] by simp

lemma maskSecrets_fold:
  "[] \<notin> set secrets \<Longrightarrow> maskSecrets secrets line = Some (fold replace_all secrets line)"
  by (induction secrets arbitrary: line) (auto simp: mask_loop_replace_all)

text \<open>
  A text without stars cannot reach into a replacement, so what occurs in the masked line occurs
  in the original.
\<close>

lemma prefix_replace_all:
  "prefix s (replace_all p line) \<Longrightarrow> CHR ''*'' \<notin> set s \<Longrightarrow> prefix s line"
proof (induction p line arbitrary: s rule: replace_all.induct)
  case (2 p c cs)
  then show ?case
    by (cases s) (auto simp: prefix_Cons split: if_splits)
qed simp

lemma sublist_stars:
  "sublist s (''***'' @ r) \<Longrightarrow> CHR ''*'' \<notin> set s \<Longrightarrow> s \<noteq> [] \<Longrightarrow> sublist s r"
  by (cases s) (auto simp: sublist_Cons_right)

lemma sublist_replace_all:
  "sublist s (replace_all p line) \<Longrightarrow> CHR ''*'' \<notin> set s \<Longrightarrow> s \<noteq> [] \<Longrightarrow> sublist s line"
proof (induction p line rule: replace_all.induct)
  case (2 p c cs)
  show ?case
  proof (cases "starts_with (c # cs) p")
    case True
    with "2.prems" have "sublist s (replace_all p (drop (length p - 1) cs))"
      by (auto intro: sublist_stars)
    with "2" True have "sublist s (drop (length p - 1) cs)" by blast
    then show ?thesis
      by (meson sublist_drop sublist_Cons_right sublist_order.order_trans)
  next
    case False
    with "2.prems"(1) consider "prefix s (c # replace_all p cs)" | "sublist s (replace_all p cs)"
      by (auto simp: sublist_Cons_right)
    then show ?thesis
    proof cases
      case 1
      with "2.prems"(2,3) have "prefix s (c # cs)"
        by (cases s) (auto intro: prefix_replace_all)
      then show ?thesis by (simp add: sublist_Cons_right)
    next
      case 2
      with "2.IH"(2) False "2.prems" show ?thesis by (simp add: sublist_Cons_right)
    qed
  qed
qed simp

lemma replace_all_removes:
  "CHR ''*'' \<notin> set p \<Longrightarrow> p \<noteq> [] \<Longrightarrow> \<not> sublist p (replace_all p line)"
proof (induction p line rule: replace_all.induct)
  case (2 p c cs)
  show ?case
  proof (cases "starts_with (c # cs) p")
    case True
    with "2" show ?thesis using sublist_stars [of p "replace_all p (drop (length p - 1) cs)"] by auto
  next
    case False
    then have "\<not> prefix p (c # replace_all p cs)"
      using "2.prems" by (cases p) (auto simp: starts_with_prefix dest: prefix_replace_all)
    with "2" False show ?thesis by (simp add: sublist_Cons_right)
  qed
qed simp

lemma fold_replace_all_keeps_out:
  "\<not> sublist s line \<Longrightarrow> CHR ''*'' \<notin> set s \<Longrightarrow> s \<noteq> [] \<Longrightarrow> \<not> sublist s (fold replace_all ps line)"
  by (induction ps arbitrary: line) (auto dest: sublist_replace_all)

lemma fold_replace_all_removes:
  "s \<in> set ps \<Longrightarrow> CHR ''*'' \<notin> set s \<Longrightarrow> s \<noteq> [] \<Longrightarrow> \<not> sublist s (fold replace_all ps line)"
  by (induction ps arbitrary: line)
    (auto dest: replace_all_removes fold_replace_all_keeps_out)

text \<open>
  C20. With non-empty secrets the masking loop always ends, and no secret free of stars occurs
  anywhere in the masked line, whatever the other secrets are and in whatever order.
\<close>

theorem maskSecrets_hides:
  assumes "[] \<notin> set secrets"
  shows "\<exists>masked. maskSecrets secrets line = Some masked
    \<and> (\<forall>s \<in> set secrets. CHR ''*'' \<notin> set s \<longrightarrow> \<not> sublist s masked)"
  using assms fold_replace_all_removes by (auto simp: maskSecrets_fold)

theorem maskSecrets_hides_witness:
  "\<exists>masked. maskSecrets [''hunter2'', ''tok''] ''pw=hunter2 t=tok'' = Some masked \<and> \<not> sublist ''hunter2'' masked"
proof -
  have "[] \<notin> set [''hunter2'', ''tok'']" by simp
  from maskSecrets_hides [OF this, of "''pw=hunter2 t=tok''"] show ?thesis by auto
qed

text \<open>
  A secret that extends an earlier registered one is not masked as a whole: only the earlier
  prefix is starred and the rest of the longer secret is forwarded in clear.
\<close>

theorem maskSecrets_prefix_leaks:
  assumes "p \<noteq> []" "r \<noteq> []" "CHR ''*'' \<notin> set (p @ r)" "\<not> sublist p r"
  shows "maskSecrets [p, p @ r] (p @ r) = Some (''***'' @ r)"
proof -
  have "str_find p (p @ r) = Some 0" using assms(1) by (cases p) (auto simp: starts_with_def)
  then have "replace_all p (p @ r) = ''***'' @ r"
    using replace_all_first [of p "p @ r" 0] assms(1,4)
    by (simp add: replace_all_skip str_find_None_iff)
  moreover have "\<not> sublist (p @ r) (''***'' @ r)"
    using sublist_stars [OF _ assms(3), of r] assms(1) sublist_length_le [of "p @ r" r] by auto
  then have "replace_all (p @ r) (''***'' @ r) = ''***'' @ r"
    using assms(1) by (intro replace_all_skip str_find_None_iff [THEN iffD2]) simp_all
  ultimately show ?thesis using assms(1) by (simp add: mask_loop_replace_all)
qed

theorem maskSecrets_prefix_leaks_witness:
  "maskSecrets [''abc'', ''abcdef''] ''abcdef'' = Some ''***def''"
  using maskSecrets_prefix_leaks [of "''abc''" "''def''"] by (simp add: sublist_Cons_right)

section \<open>The batch sender\<close>

record log_row =
  time_s :: int
  time_ns :: int
  content :: string

text \<open>
  \<open>updateLog srv task index rows no_more\<close> is one RPC: it either throws or returns the acknowledged
  index, and moves the remote state \<open>srv\<close>.  The sender also returns the calls it made.
\<close>

type_synonym 's update_log = "'s \<Rightarrow> int \<Rightarrow> int \<Rightarrow> log_row list \<Rightarrow> bool \<Rightarrow> (exn + int) \<times> 's"

record 's send_result =
  calls :: "(int \<times> log_row list) list"
  srv_after :: 's
  next_after :: int
  sent_after :: int

fun send_loop :: "nat \<Rightarrow> 's update_log \<Rightarrow> int \<Rightarrow> bool \<Rightarrow> nat \<Rightarrow> int \<Rightarrow> int \<Rightarrow> 's \<Rightarrow> int \<Rightarrow> log_row list
    \<Rightarrow> 's send_result" where
  "send_loop 0 updateLog tid no_more batch_len next tot srv index rows =
     \<lparr>calls = [], srv_after = srv, next_after = next + int (length rows), sent_after = tot\<rparr>"
| "send_loop (Suc retries) updateLog tid no_more batch_len next tot srv index rows =
     (let (resp, srv') = updateLog srv tid index rows no_more;
          res = (case resp of
              Inl e \<Rightarrow> send_loop retries updateLog tid no_more batch_len next tot srv' index rows
            | Inr ack \<Rightarrow>
                if ack < index + int (length rows) then
                  let skip = ack - index;
                      rows' = (if 0 < skip \<and> skip \<le> int (length rows) then drop (nat skip) rows else rows)
                  in send_loop retries updateLog tid no_more batch_len next tot srv' ack rows'
                else \<lparr>calls = [], srv_after = srv', next_after = index + int (length rows),
                       sent_after = tot + int batch_len\<rparr>)
      in res\<lparr>calls := (index, rows) # calls res\<rparr>)"

definition sendBatch :: "'s update_log \<Rightarrow> int \<Rightarrow> log_row list \<Rightarrow> bool \<Rightarrow> 's \<Rightarrow> int \<Rightarrow> int \<Rightarrow> 's send_result" where
  "sendBatch updateLog tid batch no_more srv next tot =
     (if batch = [] \<and> \<not> no_more
      then \<lparr>calls = [], srv_after = srv, next_after = next, sent_after = tot\<rparr>
      else send_loop 3 updateLog tid no_more (length batch) next tot srv next batch)"

text \<open>
  What the sender relies on: the server never acknowledges less than the index it was sent.
  Inside, what this buys: whatever the failures and partial acknowledgements, every call carries a
  suffix of the batch under the index of its first row.
\<close>

locale log_client =
  fixes updateLog :: "'s update_log"
  assumes ack_ge: "updateLog srv tid index rows no_more = (Inr ack, srv') \<Longrightarrow> index \<le> ack"
begin

lemma send_loop_ack:
  assumes "updateLog srv tid index rows nm = (Inr ack, srv')" "ack < index + int (length rows)"
  shows "send_loop (Suc n) updateLog tid nm bl nxt tot srv index rows =
    (let res = send_loop n updateLog tid nm bl nxt tot srv' ack (drop (nat (ack - index)) rows)
     in res\<lparr>calls := (index, rows) # calls res\<rparr>)"
  using assms ack_ge [OF assms(1)] by (cases "ack = index") (auto simp: Let_def)

lemma send_loop_calls:
  "(i, rs) \<in> set (calls (send_loop n updateLog tid nm bl nxt tot srv index rows)) \<Longrightarrow>
   index \<le> i \<and> rs = drop (nat (i - index)) rows"
proof (induction n arbitrary: srv index rows)
  case (Suc n)
  obtain resp srv' where u: "updateLog srv tid index rows nm = (resp, srv')" by fastforce
  show ?case
  proof (cases resp)
    case (Inl e)
    with Suc u show ?thesis by (auto simp: Let_def)
  next
    case (Inr ack)
    show ?thesis
    proof (cases "ack < index + int (length rows)")
      case True
      with Suc.prems u Inr consider "(i, rs) = (index, rows)"
        | "(i, rs) \<in> set (calls (send_loop n updateLog tid nm bl nxt tot srv' ack (drop (nat (ack - index)) rows)))"
        by (auto simp: send_loop_ack Let_def simp del: send_loop.simps)
      then show ?thesis
      proof cases
        case 2
        then have "ack \<le> i" "rs = drop (nat (i - ack)) (drop (nat (ack - index)) rows)"
          using Suc.IH by blast+
        moreover have "index \<le> ack" using ack_ge u Inr by blast
        ultimately show ?thesis by (simp add: nat_add_distrib [symmetric])
      qed simp
    qed (use Suc.prems u Inr in \<open>auto simp: Let_def\<close>)
  qed
qed simp

lemma send_loop_progress:
  "next_after (send_loop n updateLog tid nm bl nxt tot srv index rows) = index + int (length rows)
   \<and> sent_after (send_loop n updateLog tid nm bl nxt tot srv index rows) = tot + int bl
   \<or> sent_after (send_loop n updateLog tid nm bl nxt tot srv index rows) = tot
   \<and> length (calls (send_loop n updateLog tid nm bl nxt tot srv index rows)) = n"
proof (induction n arbitrary: srv index rows)
  case (Suc n)
  obtain resp srv' where u: "updateLog srv tid index rows nm = (resp, srv')" by fastforce
  show ?case
  proof (cases resp)
    case (Inl e)
    with Suc [of srv' index rows] u show ?thesis by (auto simp: Let_def)
  next
    case (Inr ack)
    show ?thesis
    proof (cases "ack < index + int (length rows)")
      case True
      moreover from u Inr have "index \<le> ack" using ack_ge by blast
      ultimately show ?thesis
        using Suc [of srv' ack "drop (nat (ack - index)) rows"] u Inr
        by (auto simp: send_loop_ack Let_def simp del: send_loop.simps)
    qed (use u Inr in \<open>simp add: Let_def\<close>)
  qed
qed simp

end

text \<open>\<^verbatim>\<open>LocalRunnerClient::updateLog\<close> acknowledges every row.\<close>

definition local_updateLog :: "unit update_log" where
  "local_updateLog srv tid index rows no_more = (Inr (index + int (length rows)), srv)"

interpretation local_log: log_client local_updateLog
  by unfold_locales (simp add: local_updateLog_def)

text \<open>
  However often the RPC fails or is acknowledged in part, every call of one batch carries a
  suffix of the batch under the log index of its first row (so no row is ever sent under another
  row's index), at most three calls are made, and either the whole batch is acknowledged, the next
  index advancing by its length, or all three attempts were used up.
\<close>

theorem sendBatch_indices:
  assumes "log_client updateLog" "batch \<noteq> [] \<or> no_more"
  shows "(\<forall>(i, rs) \<in> set (calls (sendBatch updateLog tid batch no_more srv nxt tot)).
            nxt \<le> i \<and> rs = drop (nat (i - nxt)) batch)
    \<and> (next_after (sendBatch updateLog tid batch no_more srv nxt tot) = nxt + int (length batch)
        \<and> sent_after (sendBatch updateLog tid batch no_more srv nxt tot) = tot + int (length batch)
      \<or> length (calls (sendBatch updateLog tid batch no_more srv nxt tot)) = 3
        \<and> sent_after (sendBatch updateLog tid batch no_more srv nxt tot) = tot)"
proof -
  have e: "sendBatch updateLog tid batch no_more srv nxt tot =
      send_loop 3 updateLog tid no_more (length batch) nxt tot srv nxt batch"
    using assms(2) by (auto simp: sendBatch_def)
  show ?thesis
    unfolding e using log_client.send_loop_calls [OF assms(1)] log_client.send_loop_progress [OF assms(1)]
    by blast
qed

definition demo_row :: "string \<Rightarrow> log_row" where
  "demo_row s = \<lparr>time_s = 0, time_ns = 0, content = s\<rparr>"

text \<open>A server that stores one row per call and fails every other time.\<close>

definition flaky_server :: "nat update_log" where
  "flaky_server srv tid index rows no_more =
     (if even srv then Inr (index + min 1 (int (length rows))) else Inl (Runtime_error ''timeout''), Suc srv)"

theorem sendBatch_indices_witness:
  "log_client flaky_server
   \<and> calls (sendBatch flaky_server 7 [demo_row ''a'', demo_row ''b''] False 0 10 0)
     = [(10, [demo_row ''a'', demo_row ''b'']), (11, [demo_row ''b'']), (11, [demo_row ''b''])]
   \<and> list_all (\<lambda>(i, rs). 10 \<le> i \<and> rs = drop (nat (i - 10)) [demo_row ''a'', demo_row ''b''])
       (calls (sendBatch flaky_server 7 [demo_row ''a'', demo_row ''b''] False 0 10 0))"
proof -
  have fl: "log_client flaky_server" by unfold_locales (auto simp: flaky_server_def split: if_splits)
  have "calls (sendBatch flaky_server 7 [demo_row ''a'', demo_row ''b''] False 0 10 0)
     = [(10, [demo_row ''a'', demo_row ''b'']), (11, [demo_row ''b'']), (11, [demo_row ''b''])]"
    by code_simp
  then show ?thesis
    unfolding list_all_iff
    using fl sendBatch_indices [OF fl, of "[demo_row ''a'', demo_row ''b'']" False 7 0 10 0] by blast
qed

text \<open>Against \<^verbatim>\<open>LocalRunnerClient\<close> the first call always succeeds.\<close>

lemma sendBatch_local:
  "batch \<noteq> [] \<or> no_more \<Longrightarrow>
   sendBatch local_updateLog tid batch no_more srv nxt tot =
     \<lparr>calls = [(nxt, batch)], srv_after = srv, next_after = nxt + int (length batch),
      sent_after = tot + int (length batch)\<rparr>"
  by (auto simp: sendBatch_def local_updateLog_def numeral_3_eq_3 Let_def)

section \<open>The queue and the worker\<close>

text \<open>
  \<open>Waiting\<close>: the worker is before or inside the wait; \<open>Drained b\<close>: it has left the critical section
  with the batch \<open>b\<close> and has not yet read \<^verbatim>\<open>done_\<close>; \<open>Stopped\<close>: it has left the loop.
\<close>

datatype worker = Waiting | Drained "log_row list" | Stopped

record 's log_forwarder =
  lf_task_id :: int
  lf_batch_size :: nat
  lf_secrets :: "string list"
  lf_queue :: "log_row list"
  lf_done :: bool
  lf_next_index :: int
  lf_total_sent :: int
  lf_worker :: worker
  lf_remote :: 's

definition new_log_forwarder :: "int \<Rightarrow> nat \<Rightarrow> string list \<Rightarrow> 's \<Rightarrow> 's log_forwarder" where
  "new_log_forwarder tid bs secrets srv =
     \<lparr>lf_task_id = tid, lf_batch_size = bs, lf_secrets = secrets, lf_queue = [], lf_done = False,
      lf_next_index = 0, lf_total_sent = 0, lf_worker = Waiting, lf_remote = srv\<rparr>"

definition appendWithTime :: "int \<Rightarrow> int \<Rightarrow> string \<Rightarrow> 's log_forwarder \<Rightarrow> 's log_forwarder option" where
  "appendWithTime s ns line lf =
     (case maskSecrets (lf_secrets lf) line of
        None \<Rightarrow> None
      | Some masked \<Rightarrow>
          Some (lf\<lparr>lf_queue := lf_queue lf @ [\<lparr>time_s = s, time_ns = ns, content = masked\<rparr>]\<rparr>))"

definition drain :: "'s log_forwarder \<Rightarrow> 's log_forwarder" where
  "drain lf = lf\<lparr>lf_queue := drop (lf_batch_size lf) (lf_queue lf),
                lf_worker := Drained (take (lf_batch_size lf) (lf_queue lf))\<rparr>"

definition after_drain :: "'s update_log \<Rightarrow> log_row list \<Rightarrow> 's log_forwarder \<Rightarrow> 's log_forwarder" where
  "after_drain updateLog batch lf =
     (let is_last = lf_done lf;
          r = sendBatch updateLog (lf_task_id lf) batch is_last (lf_remote lf) (lf_next_index lf) (lf_total_sent lf);
          lf = (if batch \<noteq> [] \<or> is_last
                then lf\<lparr>lf_remote := srv_after r, lf_next_index := next_after r, lf_total_sent := sent_after r\<rparr>
                else lf)
      in lf\<lparr>lf_worker := (if is_last then Stopped else Waiting)\<rparr>)"

text \<open>
  One atomic step, labelled with what it appended to the log and what it handed to the sender.
  The worker's wait ends on its own when the flush interval is over, so a drain is always possible.
\<close>

datatype lf_event = Appended log_row | Batched "log_row list" | Silent

inductive lf_step :: "'s update_log \<Rightarrow> 's log_forwarder \<Rightarrow> lf_event \<Rightarrow> 's log_forwarder \<Rightarrow> bool"
  for updateLog where
  Append: "appendWithTime s ns line lf = Some lf' \<Longrightarrow> lf_step updateLog lf (Appended (last (lf_queue lf'))) lf'"
| Add_secret: "lf_step updateLog lf Silent (lf\<lparr>lf_secrets := addSecret v (lf_secrets lf)\<rparr>)"
| Finish: "lf_step updateLog lf Silent (lf\<lparr>lf_done := True\<rparr>)"
| Drain: "lf_worker lf = Waiting \<Longrightarrow> lf_step updateLog lf Silent (drain lf)"
| Send: "lf_worker lf = Drained batch \<Longrightarrow> lf_step updateLog lf (Batched batch) (after_drain updateLog batch lf)"

inductive lf_run :: "'s update_log \<Rightarrow> 's log_forwarder \<Rightarrow> lf_event list \<Rightarrow> 's log_forwarder \<Rightarrow> bool"
  for updateLog where
  Start: "lf_run updateLog lf [] lf"
| Step: "lf_run updateLog lf es lf' \<Longrightarrow> lf_step updateLog lf' e lf'' \<Longrightarrow> lf_run updateLog lf (es @ [e]) lf''"

fun appended_rows :: "lf_event list \<Rightarrow> log_row list" where
  "appended_rows [] = []"
| "appended_rows (Appended r # es) = r # appended_rows es"
| "appended_rows (_ # es) = appended_rows es"

fun batched_rows :: "lf_event list \<Rightarrow> log_row list" where
  "batched_rows [] = []"
| "batched_rows (Batched b # es) = b @ batched_rows es"
| "batched_rows (_ # es) = batched_rows es"

fun pending :: "worker \<Rightarrow> log_row list" where
  "pending (Drained b) = b"
| "pending _ = []"

lemma appended_rows_append [simp]: "appended_rows (es @ fs) = appended_rows es @ appended_rows fs"
  by (induction es rule: appended_rows.induct) auto

lemma batched_rows_append [simp]: "batched_rows (es @ fs) = batched_rows es @ batched_rows fs"
  by (induction es rule: batched_rows.induct) auto

lemma after_drain_simps [simp]:
  "lf_queue (after_drain u b lf) = lf_queue lf"
  "lf_secrets (after_drain u b lf) = lf_secrets lf"
  "lf_batch_size (after_drain u b lf) = lf_batch_size lf"
  "lf_done (after_drain u b lf) = lf_done lf"
  "pending (lf_worker (after_drain u b lf)) = []"
  by (auto simp: after_drain_def Let_def)

lemma lf_run_rows:
  "lf_run updateLog lf es lf' \<Longrightarrow>
   batched_rows es @ pending (lf_worker lf') @ lf_queue lf' = pending (lf_worker lf) @ lf_queue lf @ appended_rows es"
proof (induction rule: lf_run.induct)
  case (Step lf es lf' e lf'')
  from Step(2) Step.IH show ?case
    by cases (auto simp: appendWithTime_def drain_def split: option.splits)
qed simp

lemma addSecret_keeps: "set secrets \<subseteq> set (addSecret v secrets)" "[] \<notin> set secrets \<Longrightarrow> [] \<notin> set (addSecret v secrets)"
  by (auto simp: addSecret_def)

lemma lf_run_secrets:
  "lf_run updateLog lf es lf' \<Longrightarrow> set (lf_secrets lf) \<subseteq> set (lf_secrets lf') \<and>
     ([] \<notin> set (lf_secrets lf) \<longrightarrow> [] \<notin> set (lf_secrets lf'))"
proof (induction rule: lf_run.induct)
  case (Step lf es lf' e lf'')
  from Step(2) have "set (lf_secrets lf') \<subseteq> set (lf_secrets lf'')"
    "[] \<notin> set (lf_secrets lf') \<Longrightarrow> [] \<notin> set (lf_secrets lf'')"
    by (cases; use addSecret_keeps in \<open>force simp: appendWithTime_def drain_def split: option.splits\<close>)+
  with Step.IH show ?case by blast
qed simp

lemma appendWithTime_masked:
  assumes "appendWithTime s ns line lf = Some lf'" "[] \<notin> set (lf_secrets lf)"
    "v \<in> set (lf_secrets lf)" "CHR ''*'' \<notin> set v"
  shows "\<not> sublist v (content (last (lf_queue lf')))"
proof -
  have "v \<noteq> []" using assms(2,3) by auto
  then show ?thesis
    using assms fold_replace_all_removes [of v "lf_secrets lf" line]
    by (auto simp: appendWithTime_def maskSecrets_fold)
qed

lemma lf_run_masked:
  assumes "lf_run updateLog lf es lf'" "[] \<notin> set (lf_secrets lf)"
    "v \<in> set (lf_secrets lf)" "CHR ''*'' \<notin> set v"
  shows "\<forall>r \<in> set (appended_rows es). \<not> sublist v (content r)"
  using assms
proof (induction rule: lf_run.induct)
  case (Step lf es lf' e lf'')
  from lf_run_secrets [OF Step(1)] Step.prems have "[] \<notin> set (lf_secrets lf')" "v \<in> set (lf_secrets lf')"
    by auto
  with Step(2) Step.prems(3) have "\<forall>r \<in> set (appended_rows [e]). \<not> sublist v (content r)"
    by cases (auto dest: appendWithTime_masked)
  with Step show ?case by auto
qed simp


text \<open>Appending lines one after the other from a state whose worker is waiting.\<close>

lemma lf_run_appends:
  assumes "[] \<notin> set (lf_secrets lf)"
  shows "\<exists>es rs. lf_run updateLog lf es (lf\<lparr>lf_queue := lf_queue lf @ rs\<rparr>) \<and> appended_rows es = rs
    \<and> batched_rows es = [] \<and> length rs = length (lines :: string list)"
proof (induction lines rule: rev_induct)
  case Nil
  have "lf_run updateLog lf [] (lf\<lparr>lf_queue := lf_queue lf @ []\<rparr>)" by (simp add: lf_run.Start)
  then show ?case by fastforce
next
  case (snoc line lines)
  then obtain es rs where run: "lf_run updateLog lf es (lf\<lparr>lf_queue := lf_queue lf @ rs\<rparr>)"
    and es: "appended_rows es = rs" "batched_rows es = []" "length rs = length lines" by blast
  let ?r = "\<lparr>time_s = 0, time_ns = 0, content = fold replace_all (lf_secrets lf) line\<rparr>"
  have "appendWithTime 0 0 line (lf\<lparr>lf_queue := lf_queue lf @ rs\<rparr>) =
      Some (lf\<lparr>lf_queue := lf_queue lf @ rs @ [?r]\<rparr>)"
    using assms by (simp add: appendWithTime_def maskSecrets_fold)
  from lf_step.Append [OF this, of updateLog]
  have "lf_run updateLog lf (es @ [Appended ?r]) (lf\<lparr>lf_queue := lf_queue lf @ rs @ [?r]\<rparr>)"
    using run by (auto intro: lf_run.Step)
  with es show ?case
    by (intro exI [of _ "es @ [Appended ?r]"] exI [of _ "rs @ [?r]"]) simp
qed

text \<open>
  Finishing does not flush the queue: whenever more lines than one batch are queued at the time
  of \<^verbatim>\<open>finish()\<close>, the worker can send a single batch, declare it the last one and stop, and the
  remaining lines are never sent.
\<close>

theorem finish_drops_lines:
  assumes "[] \<notin> set secrets" "bs < length (lines :: string list)"
  shows "\<exists>es lf'. lf_run updateLog (new_log_forwarder tid bs secrets srv) es lf'
    \<and> length (appended_rows es) = length lines \<and> lf_done lf' \<and> lf_worker lf' = Stopped
    \<and> batched_rows es = take bs (appended_rows es) \<and> lf_queue lf' \<noteq> []"
proof -
  let ?lf = "new_log_forwarder tid bs secrets srv"
  obtain es rs where run: "lf_run updateLog ?lf es (?lf\<lparr>lf_queue := rs\<rparr>)"
    and es: "appended_rows es = rs" "batched_rows es = []" "length rs = length lines"
    using lf_run_appends [of ?lf updateLog lines] assms(1) by (auto simp: new_log_forwarder_def)
  let ?f = "?lf\<lparr>lf_queue := rs, lf_done := True\<rparr>"
  let ?d = "drain ?f" and ?b = "take bs rs"
  have w: "lf_worker ?f = Waiting" "lf_worker ?d = Drained ?b"
    by (simp_all add: new_log_forwarder_def drain_def)
  have "lf_run updateLog ?lf (((es @ [Silent]) @ [Silent]) @ [Batched ?b]) (after_drain updateLog ?b ?d)"
    using lf_run.Step [OF lf_run.Step [OF lf_run.Step [OF run lf_step.Finish]
        lf_step.Drain [of "?lf\<lparr>lf_queue := rs\<rparr>\<lparr>lf_done := True\<rparr>"]] lf_step.Send] w by simp
  moreover have "lf_queue ?d \<noteq> []" "lf_done ?d"
    using es assms(2) by (simp_all add: drain_def new_log_forwarder_def)
  moreover from this have "lf_worker (after_drain updateLog ?b ?d) = Stopped"
    by (simp add: after_drain_def Let_def)
  ultimately show ?thesis using es by (intro exI) (auto simp del: append_assoc)
qed

theorem finish_drops_lines_witness:
  "\<exists>es lf'. lf_run local_updateLog (new_log_forwarder 1 2 [''pw''] ()) es lf'
    \<and> length (appended_rows es) = 3 \<and> lf_worker lf' = Stopped \<and> lf_queue lf' \<noteq> []"
  using finish_drops_lines [of "[''pw'']" 2 "[''a'', ''b'', ''c'']" local_updateLog 1 "()"] by force


end
