(* ===== verification/Runner_Client.thy ===== *)
theory Runner_Client
  imports Proto_Wire Log_Forwarder
begin

text \<open>
  \<^verbatim>\<open>src/src/client/RunnerClient.cpp\<close> and \<^verbatim>\<open>src/src/client/RunnerDtos.h\<close>: the request encoders,
  the response decoders, and the RPC methods on top of one HTTP exchange.  libcurl is not part of
  the sources: the outcome of a request is a parameter (\<open>http_outcome\<close>).
\<close>

unbundle bit_operations_syntax

section \<open>Data transfer objects\<close>

record register_result =
  runner_token :: string
  rr_uuid :: string
  rr_name :: string
  rr_labels :: "string list"

record needs_context_entry =
  need_outputs :: "(string \<times> string) list"
  need_result :: int

record task_dto =
  td_id :: int
  workflow_payload :: string
  td_context :: "(string \<times> string) list"
  td_secrets :: "(string \<times> string) list"
  td_vars :: "(string \<times> string) list"
  gitea_runtime_token :: string
  needs_context :: "(string \<times> needs_context_entry) list"
  td_timeout :: int
  td_machine :: string

record fetch_task_result =
  fetched_task :: "task_dto option"
  tasks_version :: int

record step_state_dto =
  ss_id :: int
  ss_result :: int
  ss_started_at :: int
  ss_stopped_at :: int
  ss_log_index :: int
  ss_log_length :: int

record update_task_result =
  ut_task_id :: int
  ut_state :: string

definition empty_register_result :: register_result where
  "empty_register_result = \<lparr>runner_token = [], rr_uuid = [], rr_name = [], rr_labels = []\<rparr>"

definition empty_task :: task_dto where
  "empty_task = \<lparr>td_id = 0, workflow_payload = [], td_context = [], td_secrets = [], td_vars = [],
     gitea_runtime_token = [], needs_context = [], td_timeout = 0, td_machine = []\<rparr>"

definition empty_fetch_result :: fetch_task_result where
  "empty_fetch_result = \<lparr>fetched_task = None, tasks_version = 0\<rparr>"

text \<open>The casts \<^verbatim>\<open>static_cast<int64_t>\<close> and \<^verbatim>\<open>static_cast<int>\<close> of a \<^verbatim>\<open>uint64_t\<close>.\<close>

definition to_int64 :: "u64 \<Rightarrow> int" where
  "to_int64 v = sint v"

definition to_int32 :: "u64 \<Rightarrow> int" where
  "to_int32 v = sint (ucast v :: 32 word)"

section \<open>Request encoders\<close>

definition encodePingRequest :: "string \<Rightarrow> string" where
  "encodePingRequest data = appendString [] 1 data"

definition encodeRegisterRequest :: "string \<Rightarrow> string \<Rightarrow> string list \<Rightarrow> string \<Rightarrow> string" where
  "encodeRegisterRequest token name labels version =
     foldl (\<lambda>out l. appendString out 6 l)
       (appendString (appendString (appendString [] 1 name) 2 token) 5 version) labels"

definition encodeDeclareRequest :: "string \<Rightarrow> string list \<Rightarrow> string" where
  "encodeDeclareRequest version labels =
     foldl (\<lambda>out l. appendString out 2 l) (appendString [] 1 version) labels"

definition encodeFetchTaskRequest :: "int \<Rightarrow> string" where
  "encodeFetchTaskRequest version = appendInt64 [] 1 version"

definition encode_step_state :: "step_state_dto \<Rightarrow> string" where
  "encode_step_state s =
     (let m = appendInt64 [] 1 (ss_id s);
          m = appendEnum m 2 (ss_result s);
          m = (if ss_started_at s \<noteq> 0 then appendMessage m 3 (encodeTimestamp (ss_started_at s) 0) else m);
          m = (if ss_stopped_at s \<noteq> 0 then appendMessage m 4 (encodeTimestamp (ss_stopped_at s) 0) else m);
          m = appendInt64 m 5 (ss_log_index s)
      in appendInt64 m 6 (ss_log_length s))"

definition encode_task_state :: "int \<Rightarrow> int \<Rightarrow> step_state_dto list \<Rightarrow> int \<Rightarrow> int \<Rightarrow> string" where
  "encode_task_state task_id state steps started stopped =
     (let m = appendInt64 [] 1 task_id;
          m = appendEnum m 2 state;
          m = (if started \<noteq> 0 then appendMessage m 3 (encodeTimestamp started 0) else m);
          m = (if stopped \<noteq> 0 then appendMessage m 4 (encodeTimestamp stopped 0) else m)
      in foldl (\<lambda>m s. appendMessage m 5 (encode_step_state s)) m steps)"

definition encodeUpdateTaskRequest ::
  "int \<Rightarrow> int \<Rightarrow> step_state_dto list \<Rightarrow> int \<Rightarrow> int \<Rightarrow> (string \<times> string) list \<Rightarrow> string" where
  "encodeUpdateTaskRequest task_id state steps started stopped outputs =
     foldl (\<lambda>out (k, v). appendMessage out 2 (appendString (appendString [] 1 k) 2 v))
       (appendMessage [] 1 (encode_task_state task_id state steps started stopped)) outputs"

definition encode_log_row :: "log_row \<Rightarrow> string" where
  "encode_log_row row =
     appendString (appendMessage [] 1 (encodeTimestamp (time_s row) (time_ns row))) 2 (content row)"

definition encodeUpdateLogRequest :: "int \<Rightarrow> int \<Rightarrow> log_row list \<Rightarrow> bool \<Rightarrow> string" where
  "encodeUpdateLogRequest task_id index rows no_more =
     appendBool (foldl (\<lambda>out row. appendMessage out 3 (encode_log_row row))
       (appendInt64 (appendInt64 [] 1 task_id) 2 index) rows) 4 no_more"

section \<open>Response decoders\<close>

text \<open>Apply a function to the value of a nested decoder.\<close>

definition pmap :: "('a \<Rightarrow> 'b) \<Rightarrow> 'a presult option \<Rightarrow> 'b presult option" where
  "pmap f r = (case r of None \<Rightarrow> None | Some (POk x) \<Rightarrow> Some (POk (f x))
     | Some (PThrow e) \<Rightarrow> Some (PThrow e) | Some PUndef \<Rightarrow> Some PUndef)"

definition ping_field :: "(string \<Rightarrow> nat) \<Rightarrow> string \<Rightarrow> nat \<Rightarrow> nat \<Rightarrow> string \<Rightarrow> int \<Rightarrow> string flow presult option" where
  "ping_field addr buf field wt data p =
     (if field = 1 \<and> wt = 2 then on_string addr buf p (\<lambda>s. Some (POk s)) else on_skip addr wt buf data p)"

definition decodePingResponse_data :: "(string \<Rightarrow> nat) \<Rightarrow> string \<Rightarrow> string presult option" where
  "decodePingResponse_data addr bytes = msg_loop (ping_field addr bytes) bytes [] 0"

definition runner_field :: "(string \<Rightarrow> nat) \<Rightarrow> string \<Rightarrow> nat \<Rightarrow> nat \<Rightarrow> register_result \<Rightarrow> int
    \<Rightarrow> register_result flow presult option" where
  "runner_field addr buf field wt r p =
     (if field = 2 then on_string addr buf p (\<lambda>s. Some (POk (r\<lparr>rr_uuid := s\<rparr>)))
      else if field = 3 then on_string addr buf p (\<lambda>s. Some (POk (r\<lparr>runner_token := s\<rparr>)))
      else if field = 4 then on_string addr buf p (\<lambda>s. Some (POk (r\<lparr>rr_name := s\<rparr>)))
      else if field = 9 then on_string addr buf p (\<lambda>s. Some (POk (r\<lparr>rr_labels := rr_labels r @ [s]\<rparr>)))
      else on_skip addr wt buf r p)"

definition decodeRunner :: "(string \<Rightarrow> nat) \<Rightarrow> string \<Rightarrow> register_result presult option" where
  "decodeRunner addr bytes = msg_loop (runner_field addr bytes) bytes empty_register_result 0"

definition register_field :: "(string \<Rightarrow> nat) \<Rightarrow> string \<Rightarrow> nat \<Rightarrow> nat \<Rightarrow> register_result \<Rightarrow> int
    \<Rightarrow> register_result flow presult option" where
  "register_field addr buf field wt r p =
     (if field = 1 \<and> wt = 2
      then pmap (\<lambda>fl. case fl of Next r' _ \<Rightarrow> Return r' | Return r' \<Rightarrow> Return r')
             (on_string addr buf p (decodeRunner addr))
      else on_skip addr wt buf r p)"

definition decodeRegisterResponse :: "(string \<Rightarrow> nat) \<Rightarrow> string \<Rightarrow> register_result presult option" where
  "decodeRegisterResponse addr bytes = msg_loop (register_field addr bytes) bytes empty_register_result 0"

definition map_entry_field :: "(string \<Rightarrow> nat) \<Rightarrow> string \<Rightarrow> nat \<Rightarrow> nat \<Rightarrow> string \<times> string \<Rightarrow> int
    \<Rightarrow> (string \<times> string) flow presult option" where
  "map_entry_field addr buf field wt kv p =
     (if field = 1 \<and> wt = 2 then on_string addr buf p (\<lambda>s. Some (POk (s, snd kv)))
      else if field = 2 \<and> wt = 2 then on_string addr buf p (\<lambda>s. Some (POk (fst kv, s)))
      else on_skip addr wt buf kv p)"

definition decodeMapEntry :: "(string \<Rightarrow> nat) \<Rightarrow> string \<Rightarrow> (string \<times> string) presult option" where
  "decodeMapEntry addr bytes = msg_loop (map_entry_field addr bytes) bytes ([], []) 0"

text \<open>The three nested loops of \<^verbatim>\<open>decodeStruct\<close>, innermost first.\<close>

definition value_field :: "(string \<Rightarrow> nat) \<Rightarrow> string \<Rightarrow> nat \<Rightarrow> nat \<Rightarrow> string \<Rightarrow> int \<Rightarrow> string flow presult option" where
  "value_field addr buf field wt map_val p =
     (if field = 3 \<and> wt = 2 then on_string addr buf p (\<lambda>s. Some (POk s)) else on_skip addr wt buf map_val p)"

definition struct_entry_field :: "(string \<Rightarrow> nat) \<Rightarrow> string \<Rightarrow> nat \<Rightarrow> nat \<Rightarrow> string \<times> string \<Rightarrow> int
    \<Rightarrow> (string \<times> string) flow presult option" where
  "struct_entry_field addr buf field wt kv p =
     (if field = 1 \<and> wt = 2 then on_string addr buf p (\<lambda>s. Some (POk (s, snd kv)))
      else if field = 2 \<and> wt = 2
      then on_string addr buf p (\<lambda>s. pmap (Pair (fst kv)) (msg_loop (value_field addr s) s (snd kv) 0))
      else on_skip addr wt buf kv p)"

definition struct_field :: "(string \<Rightarrow> nat) \<Rightarrow> string \<Rightarrow> nat \<Rightarrow> nat \<Rightarrow> (string \<times> string) list \<Rightarrow> int
    \<Rightarrow> (string \<times> string) list flow presult option" where
  "struct_field addr buf field wt res p =
     (if field = 1 \<and> wt = 2
      then on_string addr buf p (\<lambda>s. pmap (\<lambda>kv. if fst kv \<noteq> [] then res @ [kv] else res)
             (msg_loop (struct_entry_field addr s) s ([], []) 0))
      else on_skip addr wt buf res p)"

definition decodeStruct :: "(string \<Rightarrow> nat) \<Rightarrow> string \<Rightarrow> (string \<times> string) list presult option" where
  "decodeStruct addr bytes = msg_loop (struct_field addr bytes) bytes [] 0"

text \<open>The two nested loops of the \<^verbatim>\<open>needs\<close> field of \<^verbatim>\<open>decodeTask\<close>.\<close>

definition task_need_field :: "(string \<Rightarrow> nat) \<Rightarrow> string \<Rightarrow> nat \<Rightarrow> nat \<Rightarrow> needs_context_entry \<Rightarrow> int
    \<Rightarrow> needs_context_entry flow presult option" where
  "task_need_field addr buf field wt e p =
     (if field = 1 \<and> wt = 2
      then on_string addr buf p (\<lambda>s. pmap (\<lambda>kv. e\<lparr>need_outputs := need_outputs e @ [kv]\<rparr>) (decodeMapEntry addr s))
      else if field = 2 \<and> wt = 0 then on_varint buf p (\<lambda>v. e\<lparr>need_result := to_int32 v\<rparr>)
      else on_skip addr wt buf e p)"

definition need_entry_field :: "(string \<Rightarrow> nat) \<Rightarrow> string \<Rightarrow> nat \<Rightarrow> nat \<Rightarrow> string \<times> needs_context_entry \<Rightarrow> int
    \<Rightarrow> (string \<times> needs_context_entry) flow presult option" where
  "need_entry_field addr buf field wt ne p =
     (if field = 1 \<and> wt = 2 then on_string addr buf p (\<lambda>s. Some (POk (s, snd ne)))
      else if field = 2 \<and> wt = 2
      then on_string addr buf p (\<lambda>s. pmap (Pair (fst ne)) (msg_loop (task_need_field addr s) s (snd ne) 0))
      else on_skip addr wt buf ne p)"

definition decode_need :: "(string \<Rightarrow> nat) \<Rightarrow> string \<Rightarrow> (string \<times> needs_context_entry) presult option" where
  "decode_need addr s = msg_loop (need_entry_field addr s) s ([], \<lparr>need_outputs = [], need_result = 0\<rparr>) 0"

definition task_field :: "(string \<Rightarrow> nat) \<Rightarrow> string \<Rightarrow> nat \<Rightarrow> nat \<Rightarrow> task_dto \<Rightarrow> int
    \<Rightarrow> task_dto flow presult option" where
  "task_field addr buf field wt t p =
     (if field = 1 then on_varint buf p (\<lambda>v. t\<lparr>td_id := to_int64 v\<rparr>)
      else if field = 2 then on_string addr buf p (\<lambda>s. Some (POk (t\<lparr>workflow_payload := s\<rparr>)))
      else if field = 3 then
        on_string addr buf p (\<lambda>s. pmap (\<lambda>kv. t\<lparr>td_context := td_context t @ kv\<rparr>) (decodeStruct addr s))
      else if field = 4 then
        on_string addr buf p (\<lambda>s. pmap (\<lambda>kv. t\<lparr>td_secrets := td_secrets t @ [kv]\<rparr>) (decodeMapEntry addr s))
      else if field = 5 then on_string addr buf p (\<lambda>s. Some (POk (t\<lparr>td_machine := s\<rparr>)))
      else if field = 6 then
        on_string addr buf p (\<lambda>s. pmap (\<lambda>ne. if fst ne \<noteq> []
            then t\<lparr>needs_context := needs_context t @ [ne]\<rparr> else t) (decode_need addr s))
      else if field = 7 then
        on_string addr buf p (\<lambda>s. pmap (\<lambda>kv. t\<lparr>td_vars := td_vars t @ [kv]\<rparr>) (decodeMapEntry addr s))
      else on_skip addr wt buf t p)"

definition decodeTask :: "(string \<Rightarrow> nat) \<Rightarrow> string \<Rightarrow> task_dto presult option" where
  "decodeTask addr bytes = msg_loop (task_field addr bytes) bytes empty_task 0"

definition fetch_field :: "(string \<Rightarrow> nat) \<Rightarrow> string \<Rightarrow> nat \<Rightarrow> nat \<Rightarrow> fetch_task_result \<Rightarrow> int
    \<Rightarrow> fetch_task_result flow presult option" where
  "fetch_field addr buf field wt r p =
     (if field = 1 then
        on_string addr buf p (\<lambda>s. pmap (\<lambda>t. if td_id t \<noteq> 0 then r\<lparr>fetched_task := Some t\<rparr> else r) (decodeTask addr s))
      else if field = 2 then on_varint buf p (\<lambda>v. r\<lparr>tasks_version := to_int64 v\<rparr>)
      else on_skip addr wt buf r p)"

definition decodeFetchTaskResponse :: "(string \<Rightarrow> nat) \<Rightarrow> string \<Rightarrow> fetch_task_result presult option" where
  "decodeFetchTaskResponse addr bytes = msg_loop (fetch_field addr bytes) bytes empty_fetch_result 0"

definition result_name :: "int \<Rightarrow> string" where
  "result_name res =
     (if res = 1 then ''success'' else if res = 2 then ''failure'' else if res = 3 then ''cancelled''
      else if res = 4 then ''skipped'' else ''unknown'')"

definition task_state_field :: "(string \<Rightarrow> nat) \<Rightarrow> string \<Rightarrow> nat \<Rightarrow> nat \<Rightarrow> update_task_result \<Rightarrow> int
    \<Rightarrow> update_task_result flow presult option" where
  "task_state_field addr buf field wt r p =
     (if field = 1 \<and> wt = 0 then on_varint buf p (\<lambda>v. r\<lparr>ut_task_id := to_int64 v\<rparr>)
      else if field = 2 \<and> wt = 0 then on_varint buf p (\<lambda>v. r\<lparr>ut_state := result_name (to_int32 v)\<rparr>)
      else on_skip addr wt buf r p)"

definition update_task_field :: "(string \<Rightarrow> nat) \<Rightarrow> string \<Rightarrow> nat \<Rightarrow> nat \<Rightarrow> update_task_result \<Rightarrow> int
    \<Rightarrow> update_task_result flow presult option" where
  "update_task_field addr buf field wt r p =
     (if field = 1 \<and> wt = 2
      then on_string addr buf p (\<lambda>s. msg_loop (task_state_field addr s) s r 0)
      else on_skip addr wt buf r p)"

definition decodeUpdateTaskResponse :: "(string \<Rightarrow> nat) \<Rightarrow> string \<Rightarrow> update_task_result presult option" where
  "decodeUpdateTaskResponse addr bytes =
     msg_loop (update_task_field addr bytes) bytes \<lparr>ut_task_id = 0, ut_state = []\<rparr> 0"

definition update_log_field :: "(string \<Rightarrow> nat) \<Rightarrow> string \<Rightarrow> nat \<Rightarrow> nat \<Rightarrow> int \<Rightarrow> int \<Rightarrow> int flow presult option" where
  "update_log_field addr buf field wt ack p =
     (if field = 1 \<and> wt = 0 then on_varint buf p to_int64 else on_skip addr wt buf ack p)"

definition decodeUpdateLogResponse :: "(string \<Rightarrow> nat) \<Rightarrow> string \<Rightarrow> int presult option" where
  "decodeUpdateLogResponse addr bytes = msg_loop (update_log_field addr bytes) bytes 0 0"

section \<open>RPC methods\<close>

record http_request =
  req_url :: string
  req_headers :: "string list"
  req_body :: string
  req_timeout :: int
  req_verify_tls :: bool

datatype http_outcome = Curl_init_failed | Curl_timed_out | Curl_error string | Http_response int string

record runner_client =
  base_url :: string
  cl_token :: string
  cl_uuid :: string
  cl_insecure :: bool

definition new_runner_client :: "string \<Rightarrow> bool \<Rightarrow> runner_client" where
  "new_runner_client url ins = \<lparr>base_url = url, cl_token = [], cl_uuid = [], cl_insecure = ins\<rparr>"

definition setRunnerToken :: "string \<Rightarrow> runner_client \<Rightarrow> runner_client" where
  "setRunnerToken token cl = cl\<lparr>cl_token := token\<rparr>"

definition setRunnerUUID :: "string \<Rightarrow> runner_client \<Rightarrow> runner_client" where
  "setRunnerUUID uuid cl = cl\<lparr>cl_uuid := uuid\<rparr>"

definition encodeRequest :: "string \<Rightarrow> string" where
  "encodeRequest proto_bytes = proto_bytes"

definition decodeResponse :: "string \<Rightarrow> string" where
  "decodeResponse raw = raw"

definition rpc_request :: "runner_client \<Rightarrow> string \<Rightarrow> string \<Rightarrow> int \<Rightarrow> http_request" where
  "rpc_request cl service_method request_proto timeout_s =
     \<lparr>req_url = base_url cl @ ''/api/actions/'' @ service_method,
      req_headers = [''Content-Type: application/proto'', ''Accept: application/proto'']
        @ (if cl_token cl \<noteq> [] then [''x-runner-token: '' @ cl_token cl] else [])
        @ (if cl_uuid cl \<noteq> [] then [''x-runner-uuid: '' @ cl_uuid cl] else []),
      req_body = encodeRequest request_proto, req_timeout = timeout_s,
      req_verify_tls = (\<not> cl_insecure cl)\<rparr>"

definition doRPC_url :: "(http_request \<Rightarrow> http_outcome) \<Rightarrow> runner_client \<Rightarrow> string \<Rightarrow> string \<Rightarrow> int \<Rightarrow> string result" where
  "doRPC_url http cl service_method request_proto timeout_s =
     (case http (rpc_request cl service_method request_proto timeout_s) of
        Curl_init_failed \<Rightarrow> Inl (Runtime_error ''curl_easy_init() failed in doRPC'')
      | Curl_timed_out \<Rightarrow> Inr []
      | Curl_error e \<Rightarrow> Inl (Runtime_error (''RPC '' @ service_method @ '' failed: '' @ e))
      | Http_response code body \<Rightarrow>
          if code < 200 \<or> 300 \<le> code
          then Inl (Runtime_error (''RPC '' @ service_method @ '' HTTP '' @ int_to_string code @ '': '' @ body))
          else if body = [] then Inr []
          else Inr (decodeResponse body))"

definition doRPC :: "(http_request \<Rightarrow> http_outcome) \<Rightarrow> runner_client \<Rightarrow> string \<Rightarrow> string \<Rightarrow> int \<Rightarrow> string result" where
  "doRPC http cl meth request_proto timeout_s =
     doRPC_url http cl (''runner.v1.RunnerService/'' @ meth) request_proto timeout_s"

text \<open>Continue with the response body, or pass the exception on.\<close>

definition with_response :: "string result \<Rightarrow> (string \<Rightarrow> 'a presult option) \<Rightarrow> 'a presult option" where
  "with_response resp k = (case resp of Inl e \<Rightarrow> Some (PThrow e) | Inr body \<Rightarrow> k body)"

definition rpc_ping :: "(string \<Rightarrow> nat) \<Rightarrow> (http_request \<Rightarrow> http_outcome) \<Rightarrow> runner_client \<Rightarrow> string \<Rightarrow> string presult option" where
  "rpc_ping addr http cl data =
     with_response (doRPC_url http cl ''ping.v1.PingService/Ping'' (encodePingRequest data) 10)
       (\<lambda>resp. if resp = [] then Some (POk []) else decodePingResponse_data addr resp)"

definition registerRunner :: "(string \<Rightarrow> nat) \<Rightarrow> (http_request \<Rightarrow> http_outcome) \<Rightarrow> runner_client \<Rightarrow> string \<Rightarrow> string
    \<Rightarrow> string list \<Rightarrow> string \<Rightarrow> register_result presult option" where
  "registerRunner addr http cl reg_token name labels version =
     with_response (doRPC http cl ''Register'' (encodeRegisterRequest reg_token name labels version) 30)
       (\<lambda>resp. if resp = [] then Some (PThrow (Runtime_error ''Register RPC returned empty response''))
               else decodeRegisterResponse addr resp)"

definition rpc_declare :: "(string \<Rightarrow> nat) \<Rightarrow> (http_request \<Rightarrow> http_outcome) \<Rightarrow> runner_client \<Rightarrow> string list
    \<Rightarrow> string \<Rightarrow> register_result presult option" where
  "rpc_declare addr http cl labels version =
     with_response (doRPC http cl ''Declare'' (encodeDeclareRequest version labels) 30)
       (\<lambda>resp. if resp = [] then Some (PThrow (Runtime_error ''Declare RPC returned empty response''))
               else decodeRegisterResponse addr resp)"

definition fetchTask :: "(string \<Rightarrow> nat) \<Rightarrow> (http_request \<Rightarrow> http_outcome) \<Rightarrow> runner_client \<Rightarrow> int \<Rightarrow> int
    \<Rightarrow> fetch_task_result presult option" where
  "fetchTask addr http cl version timeout_s =
     with_response (doRPC http cl ''FetchTask'' (encodeFetchTaskRequest version) timeout_s)
       (\<lambda>resp. if resp = [] then Some (POk empty_fetch_result) else decodeFetchTaskResponse addr resp)"

definition updateTask :: "(string \<Rightarrow> nat) \<Rightarrow> (http_request \<Rightarrow> http_outcome) \<Rightarrow> runner_client \<Rightarrow> int \<Rightarrow> int
    \<Rightarrow> step_state_dto list \<Rightarrow> int \<Rightarrow> int \<Rightarrow> (string \<times> string) list \<Rightarrow> update_task_result presult option" where
  "updateTask addr http cl tid state steps started stopped outputs =
     with_response (doRPC http cl ''UpdateTask'' (encodeUpdateTaskRequest tid state steps started stopped outputs) 30)
       (\<lambda>resp. if resp = [] then Some (POk \<lparr>ut_task_id = tid, ut_state = []\<rparr>)
               else decodeUpdateTaskResponse addr resp)"

definition updateLog :: "(string \<Rightarrow> nat) \<Rightarrow> (http_request \<Rightarrow> http_outcome) \<Rightarrow> runner_client \<Rightarrow> int \<Rightarrow> int
    \<Rightarrow> log_row list \<Rightarrow> bool \<Rightarrow> int presult option" where
  "updateLog addr http cl tid index rows no_more =
     with_response (doRPC http cl ''UpdateLog'' (encodeUpdateLogRequest tid index rows no_more) 30)
       (\<lambda>resp. if resp = [] then Some (POk (index + int (length rows))) else decodeUpdateLogResponse addr resp)"

section \<open>Decoders on well-formed messages\<close>

lemma pmap_POk [simp]: "pmap f (Some (POk x)) = Some (POk (f x))"
  by (simp add: pmap_def)

lemmas on_skip_renders = on_skip_render [where v = "VarintV _", simplified wire_type.simps]
  on_skip_render [where v = "LenV _", simplified wire_type.simps]

lemma fits_part: "fits (pre @ render_field (f, LenV s) @ post) \<Longrightarrow> fits s"
  by (simp add: fits_def render_field_def)

text \<open>The byte string of a field and the value of a decoder that returned.\<close>

fun string_of :: "wire_value \<Rightarrow> string" where
  "string_of (LenV s) = s"
| "string_of (VarintV _) = []"

fun number_of :: "wire_value \<Rightarrow> u64" where
  "number_of (VarintV v) = v"
| "number_of (LenV _) = 0"

fun value_of :: "'a presult option \<Rightarrow> 'a" where
  "value_of (Some (POk x)) = x"
| "value_of _ = undefined"

definition good :: "'a presult option \<Rightarrow> bool" where
  "good r \<longleftrightarrow> r = Some (POk (value_of r))"

lemma goodE: "good r \<Longrightarrow> (\<And>x. r = Some (POk x) \<Longrightarrow> P) \<Longrightarrow> P"
  unfolding good_def by blast

lemma good_POk [simp]: "good (Some (POk x))"
  by (simp add: good_def)

definition render_map_entry :: "string \<times> string \<Rightarrow> string" where
  "render_map_entry kv = render_fields [(1, LenV (fst kv)), (2, LenV (snd kv))]"

lemma map_entry_decoder:
  "addr_ok addr \<Longrightarrow> message_decoder (map_entry_field addr)
     (\<lambda>f v kv. if f = 1 then (string_of v, snd kv) else (fst kv, string_of v))
     (\<lambda>f v. (f = 1 \<or> f = 2) \<and> wire_type v = 2)"
proof
  fix f v and buf pre post :: string and st
  assume "addr_ok addr" "(f = 1 \<or> f = 2) \<and> wire_type v = 2" "buf = pre @ render_field (f, v) @ post" "fits buf"
  then show "map_entry_field addr buf f (wire_type v) st (value_pos pre f v) =
      Some (POk (Next (if f = 1 then (string_of v, snd st) else (fst st, string_of v)) (next_pos pre f v)))"
    by (cases v) (auto simp: map_entry_field_def on_string_render)
qed

lemma decodeMapEntry_render:
  assumes "addr_ok addr" "fits (render_map_entry kv)"
  shows "decodeMapEntry addr (render_map_entry kv) = Some (POk kv)"
  unfolding decodeMapEntry_def render_map_entry_def
  by (rule decode_as [OF map_entry_decoder [OF assms(1)]])
    (use assms(2) in \<open>auto simp: render_map_entry_def\<close>)

definition render_value_message :: "string \<Rightarrow> string" where
  "render_value_message w = render_fields [(3, LenV w)]"

lemma value_decoder:
  "addr_ok addr \<Longrightarrow> message_decoder (value_field addr) (\<lambda>f v _. string_of v) (\<lambda>f v. f = 3 \<and> wire_type v = 2)"
proof
  fix f v and buf pre post st :: string
  assume "addr_ok addr" "f = 3 \<and> wire_type v = 2" "buf = pre @ render_field (f, v) @ post" "fits buf"
  then show "value_field addr buf f (wire_type v) st (value_pos pre f v) =
      Some (POk (Next (string_of v) (next_pos pre f v)))"
    by (cases v) (auto simp: value_field_def on_string_render)
qed

lemma decode_value_message:
  assumes "addr_ok addr" "fits (render_value_message w)"
  shows "msg_loop (value_field addr (render_value_message w)) (render_value_message w) m 0 = Some (POk w)"
  unfolding render_value_message_def
  by (rule decode_as [OF value_decoder [OF assms(1)]])
    (use assms(2) in \<open>auto simp: render_value_message_def\<close>)

definition render_struct_entry :: "string \<times> string \<Rightarrow> string" where
  "render_struct_entry kv = render_fields [(1, LenV (fst kv)), (2, LenV (render_value_message (snd kv)))]"

lemma struct_entry_decoder:
  "addr_ok addr \<Longrightarrow> message_decoder (struct_entry_field addr)
     (\<lambda>f v kv. if f = 1 then (string_of v, snd kv)
        else (fst kv, value_of (msg_loop (value_field addr (string_of v)) (string_of v) (snd kv) 0)))
     (\<lambda>f v. wire_type v = 2 \<and> (f = 1 \<or> f = 2 \<and> (\<exists>w. v = LenV (render_value_message w))))"
proof
  fix f v and buf pre post :: string and st :: "string \<times> string"
  assume a: "addr_ok addr" "wire_type v = 2 \<and> (f = 1 \<or> f = 2 \<and> (\<exists>w. v = LenV (render_value_message w)))"
    "buf = pre @ render_field (f, v) @ post" "fits buf"
  then have "fits (string_of v)" using fits_part by (cases v) auto
  with a show "struct_entry_field addr buf f (wire_type v) st (value_pos pre f v) =
      Some (POk (Next (if f = 1 then (string_of v, snd st)
        else (fst st, value_of (msg_loop (value_field addr (string_of v)) (string_of v) (snd st) 0))) (next_pos pre f v)))"
    by (cases v) (auto simp: struct_entry_field_def on_string_render decode_value_message)
qed

lemma decode_struct_entry:
  assumes "addr_ok addr" "fits (render_struct_entry kv)"
  shows "msg_loop (struct_entry_field addr (render_struct_entry kv)) (render_struct_entry kv) ([], []) 0 = Some (POk kv)"
proof -
  have "fits (render_value_message (snd kv))"
    using assms(2) fits_part [of _ 2 _ "[]"] by (auto simp: render_struct_entry_def)
  then show ?thesis
    unfolding render_struct_entry_def
    by (intro decode_as [OF struct_entry_decoder [OF assms(1)]])
      (use assms in \<open>auto simp: render_struct_entry_def decode_value_message\<close>)
qed

definition render_struct :: "(string \<times> string) list \<Rightarrow> string" where
  "render_struct kvs = render_fields (map (\<lambda>kv. (1, LenV (render_struct_entry kv))) kvs)"

lemma struct_decoder:
  "addr_ok addr \<Longrightarrow> message_decoder (struct_field addr)
     (\<lambda>f v res. res @ [value_of (msg_loop (struct_entry_field addr (string_of v)) (string_of v) ([], []) 0)])
     (\<lambda>f v. f = 1 \<and> (\<exists>kv. v = LenV (render_struct_entry kv) \<and> fst kv \<noteq> []))"
proof
  fix f v and buf pre post :: string and st :: "(string \<times> string) list"
  assume a: "addr_ok addr" "f = 1 \<and> (\<exists>kv. v = LenV (render_struct_entry kv) \<and> fst kv \<noteq> [])"
    "buf = pre @ render_field (f, v) @ post" "fits buf"
  then have "fits (string_of v)" using fits_part by (cases v) auto
  with a show "struct_field addr buf f (wire_type v) st (value_pos pre f v) =
      Some (POk (Next (st @ [value_of (msg_loop (struct_entry_field addr (string_of v)) (string_of v) ([], []) 0)]) (next_pos pre f v)))"
    by (auto simp: struct_field_def on_string_render decode_struct_entry)
qed

text \<open>Length bounds go down to the parts of a list of embedded messages.\<close>

lemma fits_embedded:
  "fits (render_fields (map (\<lambda>x. (f, LenV (r x))) xs)) \<Longrightarrow> x \<in> set xs \<Longrightarrow> fits (r x)"
proof (induction xs)
  case (Cons a xs)
  then show ?case by (auto simp: fits_def render_field_def)
qed simp

lemma fold_snoc_map:
  "(\<And>x. x \<in> set xs \<Longrightarrow> d (r x) = x) \<Longrightarrow>
   fold (\<lambda>(f, v) res. res @ [d v]) (map (\<lambda>x. (n, r x)) xs) ys = ys @ xs"
  by (induction xs arbitrary: ys) auto

lemma decodeStruct_render:
  assumes "addr_ok addr" "fits (render_struct kvs)" "\<forall>kv \<in> set kvs. fst kv \<noteq> []"
  shows "decodeStruct addr (render_struct kvs) = Some (POk kvs)"
proof -
  have "fits (render_struct_entry kv)" if "kv \<in> set kvs" for kv
    using fits_embedded [OF assms(2) [unfolded render_struct_def] that] .
  then have "fold (\<lambda>(f, v) res. res @ [value_of (msg_loop (struct_entry_field addr (string_of v)) (string_of v) ([], []) 0)])
      (map (\<lambda>kv. (1 :: nat, LenV (render_struct_entry kv))) kvs) [] = [] @ kvs"
    by (intro fold_snoc_map) (simp add: decode_struct_entry assms(1))
  then show ?thesis
    unfolding decodeStruct_def render_struct_def
  proof (intro decode_as [OF struct_decoder [OF assms(1)]])
    fix f :: nat and v assume "(f, v) \<in> set (map (\<lambda>kv. (1, LenV (render_struct_entry kv))) kvs)"
    then obtain kv where "kv \<in> set kvs" "f = 1" "v = LenV (render_struct_entry kv)" by auto
    with assms(3) show "f < 2 ^ 29 \<and> f = 1 \<and> (\<exists>kv. v = LenV (render_struct_entry kv) \<and> fst kv \<noteq> [])"
      by fastforce
  qed (use assms(2) in \<open>simp_all add: render_struct_def\<close>)
qed

definition render_task_need :: "needs_context_entry \<Rightarrow> string" where
  "render_task_need e = render_fields (map (\<lambda>kv. (1, LenV (render_map_entry kv))) (need_outputs e)
     @ [(2, VarintV (word_of_int (need_result e)))])"

definition render_need :: "string \<times> needs_context_entry \<Rightarrow> string" where
  "render_need ne = render_fields [(1, LenV (fst ne)), (2, LenV (render_task_need (snd ne)))]"

lemma to_int32_of_int: "- (2 ^ 31) \<le> i \<Longrightarrow> i < 2 ^ 31 \<Longrightarrow> to_int32 (word_of_int i) = i"
  by (simp add: to_int32_def unsigned_of_int ucast_eq signed_of_int signed_take_bit_take_bit
      signed_take_bit_int_eq_self)

lemma to_int64_of_int: "- (2 ^ 63) \<le> i \<Longrightarrow> i < 2 ^ 63 \<Longrightarrow> to_int64 (word_of_int i) = i"
  by (simp add: to_int64_def signed_of_int signed_take_bit_int_eq_self)

lemma task_need_decoder:
  "addr_ok addr \<Longrightarrow> message_decoder (task_need_field addr)
     (\<lambda>f v e. if f = 1 then e\<lparr>need_outputs := need_outputs e @ [value_of (decodeMapEntry addr (string_of v))]\<rparr>
        else e\<lparr>need_result := to_int32 (number_of v)\<rparr>)
     (\<lambda>f v. f = 1 \<and> wire_type v = 2 \<and> good (decodeMapEntry addr (string_of v)) \<or> f = 2 \<and> wire_type v = 0)"
proof
  fix f v and buf pre post :: string and st :: needs_context_entry
  assume a: "addr_ok addr" "buf = pre @ render_field (f, v) @ post" "fits buf"
    "f = 1 \<and> wire_type v = 2 \<and> good (decodeMapEntry addr (string_of v)) \<or> f = 2 \<and> wire_type v = 0"
  then show "task_need_field addr buf f (wire_type v) st (value_pos pre f v) =
      Some (POk (Next (if f = 1 then st\<lparr>need_outputs := need_outputs st @ [value_of (decodeMapEntry addr (string_of v))]\<rparr>
        else st\<lparr>need_result := to_int32 (number_of v)\<rparr>) (next_pos pre f v)))"
    by (cases v) (auto simp: task_need_field_def on_string_render on_varint_render elim: goodE)
qed

lemma fold_outputs:
  assumes "\<And>kv. kv \<in> set kvs \<Longrightarrow> decodeMapEntry addr (render_map_entry kv) = Some (POk kv)"
  shows "fold (\<lambda>(f, v) e. if f = 1 then e\<lparr>need_outputs := need_outputs e @ [value_of (decodeMapEntry addr (string_of v))]\<rparr>
        else e\<lparr>need_result := to_int32 (number_of v)\<rparr>) (map (\<lambda>kv. (1 :: nat, LenV (render_map_entry kv))) kvs) e
     = e\<lparr>need_outputs := need_outputs e @ kvs\<rparr>"
  using assms by (induction kvs arbitrary: e) auto

lemma decode_task_need:
  assumes "addr_ok addr" "fits (render_task_need e)" "- (2 ^ 31) \<le> need_result e" "need_result e < 2 ^ 31"
  shows "msg_loop (task_need_field addr (render_task_need e)) (render_task_need e) e0 0
    = Some (POk (e0\<lparr>need_outputs := need_outputs e0 @ need_outputs e, need_result := need_result e\<rparr>))"
proof -
  have "fits (render_fields (map (\<lambda>kv. (1, LenV (render_map_entry kv))) (need_outputs e)))"
    using assms(2) by (simp add: render_task_need_def fits_def)
  then have kv: "decodeMapEntry addr (render_map_entry kv) = Some (POk kv)" if "kv \<in> set (need_outputs e)" for kv
    using decodeMapEntry_render [OF assms(1) fits_embedded [OF _ that]] by simp
  show ?thesis
    unfolding render_task_need_def
  proof (rule decode_as [OF task_need_decoder [OF assms(1)]], goal_cases)
    case (1 f v)
    then show ?case using kv by auto
  next
    case 2
    then show ?case using assms(2) by (simp add: render_task_need_def)
  next
    case 3
    then show ?case
      using fold_outputs [OF kv, of "need_outputs e" e0] assms(3,4) by (simp add: to_int32_of_int)
  qed
qed

lemma need_entry_decoder:
  "addr_ok addr \<Longrightarrow> message_decoder (need_entry_field addr)
     (\<lambda>f v ne. if f = 1 then (string_of v, snd ne)
        else (fst ne, value_of (msg_loop (task_need_field addr (string_of v)) (string_of v) (snd ne) 0)))
     (\<lambda>f v. wire_type v = 2 \<and> (f = 1 \<or> f = 2 \<and>
        (\<forall>e. good (msg_loop (task_need_field addr (string_of v)) (string_of v) e 0))))"
proof
  fix f v and buf pre post :: string and st :: "string \<times> needs_context_entry"
  assume a: "addr_ok addr" "buf = pre @ render_field (f, v) @ post" "fits buf"
    "wire_type v = 2 \<and> (f = 1 \<or> f = 2 \<and>
        (\<forall>e. good (msg_loop (task_need_field addr (string_of v)) (string_of v) e 0)))"
  show "need_entry_field addr buf f (wire_type v) st (value_pos pre f v) =
      Some (POk (Next (if f = 1 then (string_of v, snd st)
        else (fst st, value_of (msg_loop (task_need_field addr (string_of v)) (string_of v) (snd st) 0))) (next_pos pre f v)))"
  proof (cases v)
    case (LenV s)
    show ?thesis
    proof (cases "f = 1")
      case False
      with a(4) LenV have "f = 2" "good (msg_loop (task_need_field addr s) s (snd st) 0)" by auto
      from goodE [OF this(2)] obtain x where "msg_loop (task_need_field addr s) s (snd st) 0 = Some (POk x)" .
      with a \<open>f = 2\<close> LenV show ?thesis by (simp add: need_entry_field_def on_string_render)
    qed (use a LenV in \<open>simp add: need_entry_field_def on_string_render\<close>)
  qed (use a in simp)
qed

definition int32 :: "int \<Rightarrow> bool" where
  "int32 i \<longleftrightarrow> - (2 ^ 31) \<le> i \<and> i < 2 ^ 31"

definition int64 :: "int \<Rightarrow> bool" where
  "int64 i \<longleftrightarrow> - (2 ^ 63) \<le> i \<and> i < 2 ^ 63"

lemma decode_need_render:
  assumes "addr_ok addr" "fits (render_need ne)" "int32 (need_result (snd ne))"
  shows "decode_need addr (render_need ne) = Some (POk ne)"
proof -
  have fit: "fits (render_task_need (snd ne))"
    using assms(2) fits_part [of _ 2 _ "[]"] by (auto simp: render_need_def)
  have d: "msg_loop (task_need_field addr (render_task_need (snd ne))) (render_task_need (snd ne)) e0 0
    = Some (POk (e0\<lparr>need_outputs := need_outputs e0 @ need_outputs (snd ne), need_result := need_result (snd ne)\<rparr>))" for e0
    using decode_task_need [OF assms(1) fit] assms(3) by (simp add: int32_def)
  show ?thesis
    unfolding decode_need_def render_need_def
  proof (rule decode_as [OF need_entry_decoder [OF assms(1)]], goal_cases)
    case (1 f v)
    then show ?case using d by auto
  next
    case 2
    then show ?case using assms(2) by (simp add: render_need_def)
  next
    case 3
    then show ?case using d [of "\<lparr>need_outputs = [], need_result = 0\<rparr>"] by (cases ne) simp
  qed
qed

text \<open>A whole task as the server writes it.\<close>

definition task_fields :: "task_dto \<Rightarrow> (nat \<times> wire_value) list" where
  "task_fields t =
     [(1, VarintV (word_of_int (td_id t))), (2, LenV (workflow_payload t)), (3, LenV (render_struct (td_context t)))]
     @ map (\<lambda>kv. (4, LenV (render_map_entry kv))) (td_secrets t) @ [(5, LenV (td_machine t))]
     @ map (\<lambda>ne. (6, LenV (render_need ne))) (needs_context t)
     @ map (\<lambda>kv. (7, LenV (render_map_entry kv))) (td_vars t)"

definition task_apply :: "(string \<Rightarrow> nat) \<Rightarrow> nat \<Rightarrow> wire_value \<Rightarrow> task_dto \<Rightarrow> task_dto" where
  "task_apply addr f v t =
     (if f = 1 then t\<lparr>td_id := to_int64 (number_of v)\<rparr>
      else if f = 2 then t\<lparr>workflow_payload := string_of v\<rparr>
      else if f = 3 then t\<lparr>td_context := td_context t @ value_of (decodeStruct addr (string_of v))\<rparr>
      else if f = 4 then t\<lparr>td_secrets := td_secrets t @ [value_of (decodeMapEntry addr (string_of v))]\<rparr>
      else if f = 5 then t\<lparr>td_machine := string_of v\<rparr>
      else if f = 6 then t\<lparr>needs_context := needs_context t @ [value_of (decode_need addr (string_of v))]\<rparr>
      else t\<lparr>td_vars := td_vars t @ [value_of (decodeMapEntry addr (string_of v))]\<rparr>)"

definition task_field_ok :: "(string \<Rightarrow> nat) \<Rightarrow> nat \<Rightarrow> wire_value \<Rightarrow> bool" where
  "task_field_ok addr f v \<longleftrightarrow>
     f = 1 \<and> wire_type v = 0
   \<or> wire_type v = 2 \<and> (f = 2 \<or> f = 5
     \<or> f = 3 \<and> good (decodeStruct addr (string_of v))
     \<or> (f = 4 \<or> f = 7) \<and> good (decodeMapEntry addr (string_of v))
     \<or> f = 6 \<and> good (decode_need addr (string_of v)) \<and> fst (value_of (decode_need addr (string_of v))) \<noteq> [])"

lemma task_decoder:
  "addr_ok addr \<Longrightarrow> message_decoder (task_field addr) (task_apply addr) (task_field_ok addr)"
proof
  fix f v and buf pre post :: string and st :: task_dto
  assume "addr_ok addr" "buf = pre @ render_field (f, v) @ post" "fits buf" "task_field_ok addr f v"
  then show "task_field addr buf f (wire_type v) st (value_pos pre f v) =
      Some (POk (Next (task_apply addr f v st) (next_pos pre f v)))"
    by (cases v) (auto simp: task_field_def task_apply_def task_field_ok_def on_string_render on_varint_render
        elim!: goodE)
qed

lemma fold_task_lists:
  "(\<And>kv. kv \<in> set kvs \<Longrightarrow> decodeMapEntry addr (render_map_entry kv) = Some (POk kv)) \<Longrightarrow>
   fold (\<lambda>(f, v). task_apply addr f v) (map (\<lambda>kv. (4, LenV (render_map_entry kv))) kvs) t =
     t\<lparr>td_secrets := td_secrets t @ kvs\<rparr>"
  "(\<And>kv. kv \<in> set kvs \<Longrightarrow> decodeMapEntry addr (render_map_entry kv) = Some (POk kv)) \<Longrightarrow>
   fold (\<lambda>(f, v). task_apply addr f v) (map (\<lambda>kv. (7, LenV (render_map_entry kv))) kvs) t =
     t\<lparr>td_vars := td_vars t @ kvs\<rparr>"
  "(\<And>ne. ne \<in> set nes \<Longrightarrow> decode_need addr (render_need ne) = Some (POk ne)) \<Longrightarrow>
   fold (\<lambda>(f, v). task_apply addr f v) (map (\<lambda>ne. (6, LenV (render_need ne))) nes) t =
     t\<lparr>needs_context := needs_context t @ nes\<rparr>"
  by (induction kvs arbitrary: t; simp add: task_apply_def; fail)+
    (induction nes arbitrary: t; simp add: task_apply_def)

text \<open>
  The tasks a server can send: a non-zero 64-bit identifier, 32-bit results, named context fields
  and needs.  The two fields that are not on the wire have their defaults.
\<close>

definition wf_task :: "task_dto \<Rightarrow> bool" where
  "wf_task t \<longleftrightarrow> td_id t \<noteq> 0 \<and> int64 (td_id t) \<and> gitea_runtime_token t = [] \<and> td_timeout t = 0
     \<and> (\<forall>kv \<in> set (td_context t). fst kv \<noteq> [])
     \<and> (\<forall>ne \<in> set (needs_context t). fst ne \<noteq> [] \<and> int32 (need_result (snd ne)))"

lemma fits_member:
  "fits (render_fields fs) \<Longrightarrow> (f, LenV s) \<in> set fs \<Longrightarrow> fits s"
proof (induction fs)
  case (Cons fv fs)
  then show ?case by (auto simp: fits_def render_field_def)
qed simp

lemma decodeTask_render:
  assumes "addr_ok addr" "fits (render_fields (task_fields t))" "wf_task t"
  shows "decodeTask addr (render_fields (task_fields t)) = Some (POk t)"
proof -
  note fit = fits_member [OF assms(2)]
  have kv: "decodeMapEntry addr (render_map_entry kv) = Some (POk kv)"
    if "kv \<in> set (td_secrets t) \<union> set (td_vars t)" for kv
  proof -
    have "fits (render_map_entry kv)"
      using that fit [of 4] fit [of 7] by (auto simp: task_fields_def)
    then show ?thesis by (rule decodeMapEntry_render [OF assms(1)])
  qed
  have ne: "decode_need addr (render_need ne) = Some (POk ne)" if "ne \<in> set (needs_context t)" for ne
    using that assms(3) by (intro decode_need_render assms(1) fit [of 6]) (auto simp: task_fields_def wf_task_def)
  have st: "decodeStruct addr (render_struct (td_context t)) = Some (POk (td_context t))"
    using assms(3) by (intro decodeStruct_render assms(1) fit [of 3]) (auto simp: task_fields_def wf_task_def)
  show ?thesis
    unfolding decodeTask_def
  proof (rule decode_as [OF task_decoder [OF assms(1)]], goal_cases)
    case (1 f v)
    then show ?case
      using kv ne st assms(3) by (auto simp: task_fields_def task_field_ok_def wf_task_def)
  next
    case 3
    show ?case
      using kv ne st assms(3)
      by (cases t) (simp add: task_fields_def fold_task_lists task_apply_def [of addr "Suc 0"] task_apply_def [of addr 2]
          task_apply_def [of addr 3] task_apply_def [of addr 5] empty_task_def wf_task_def to_int64_of_int int64_def)
  qed (rule assms(2))
qed

definition render_fetch_response :: "task_dto \<Rightarrow> int \<Rightarrow> string" where
  "render_fetch_response t version =
     render_fields [(1, LenV (render_fields (task_fields t))), (2, VarintV (word_of_int version))]"

lemma fetch_decoder:
  "addr_ok addr \<Longrightarrow> message_decoder (fetch_field addr)
     (\<lambda>f v r. if f = 1 then r\<lparr>fetched_task := Some (value_of (decodeTask addr (string_of v)))\<rparr>
        else r\<lparr>tasks_version := to_int64 (number_of v)\<rparr>)
     (\<lambda>f v. f = 1 \<and> wire_type v = 2 \<and> good (decodeTask addr (string_of v)) \<and> td_id (value_of (decodeTask addr (string_of v))) \<noteq> 0
        \<or> f = 2 \<and> wire_type v = 0)"
proof
  fix f v and buf pre post :: string and st :: fetch_task_result
  assume "addr_ok addr" "buf = pre @ render_field (f, v) @ post" "fits buf"
    "f = 1 \<and> wire_type v = 2 \<and> good (decodeTask addr (string_of v)) \<and> td_id (value_of (decodeTask addr (string_of v))) \<noteq> 0
        \<or> f = 2 \<and> wire_type v = 0"
  then show "fetch_field addr buf f (wire_type v) st (value_pos pre f v) =
      Some (POk (Next (if f = 1 then st\<lparr>fetched_task := Some (value_of (decodeTask addr (string_of v)))\<rparr>
        else st\<lparr>tasks_version := to_int64 (number_of v)\<rparr>) (next_pos pre f v)))"
    by (cases v) (auto simp: fetch_field_def on_string_render on_varint_render elim!: goodE)
qed

lemma decodeFetchTaskResponse_render:
  assumes "addr_ok addr" "fits (render_fetch_response t version)" "wf_task t" "int64 version"
  shows "decodeFetchTaskResponse addr (render_fetch_response t version) =
    Some (POk \<lparr>fetched_task = Some t, tasks_version = version\<rparr>)"
proof -
  have "fits (render_fields (task_fields t))"
    using fits_member [OF assms(2) [unfolded render_fetch_response_def], of 1] by simp
  note task = decodeTask_render [OF assms(1) this assms(3)]
  show ?thesis
    unfolding decodeFetchTaskResponse_def render_fetch_response_def
  proof (rule decode_as [OF fetch_decoder [OF assms(1)]], goal_cases)
    case (1 f v)
    then show ?case using task assms(3) by (auto simp: wf_task_def)
  next
    case 2
    then show ?case using assms(2) by (simp add: render_fetch_response_def)
  next
    case 3
    then show ?case
      using task assms(4) by (simp add: empty_fetch_result_def to_int64_of_int int64_def)
  qed
qed


definition demo_task :: task_dto where
  "demo_task = empty_task\<lparr>td_id := 7, workflow_payload := ''on: push'', td_secrets := [(''TOKEN'', ''s3'')],
     td_context := [(''actor'', ''me'')],
     needs_context := [(''build'', \<lparr>need_outputs = [(''v'', ''1'')], need_result = 1\<rparr>)]\<rparr>"

lemma demo_task_fits: "fits (render_fetch_response demo_task 3)"
proof -
  have "length (render_fetch_response demo_task 3) < 200" by code_simp
  then show ?thesis by (simp add: fits_def)
qed


section \<open>Registration\<close>

definition runner_fields :: "register_result \<Rightarrow> (nat \<times> wire_value) list" where
  "runner_fields r = [(2, LenV (rr_uuid r)), (3, LenV (runner_token r)), (4, LenV (rr_name r))]
     @ map (\<lambda>l. (9, LenV l)) (rr_labels r)"

definition render_register_response :: "register_result \<Rightarrow> string" where
  "render_register_response r = render_fields [(1, LenV (render_fields (runner_fields r)))]"

definition runner_apply :: "nat \<Rightarrow> wire_value \<Rightarrow> register_result \<Rightarrow> register_result" where
  "runner_apply f v r =
     (if f = 2 then r\<lparr>rr_uuid := string_of v\<rparr> else if f = 3 then r\<lparr>runner_token := string_of v\<rparr>
      else if f = 4 then r\<lparr>rr_name := string_of v\<rparr> else r\<lparr>rr_labels := rr_labels r @ [string_of v]\<rparr>)"

lemma runner_decoder:
  "addr_ok addr \<Longrightarrow> message_decoder (runner_field addr) runner_apply (\<lambda>f v. f \<in> {2, 3, 4, 9} \<and> wire_type v = 2)"
proof
  fix f v and buf pre post :: string and st
  assume "addr_ok addr" "f \<in> {2, 3, 4, 9} \<and> wire_type v = 2" "buf = pre @ render_field (f, v) @ post" "fits buf"
  then show "runner_field addr buf f (wire_type v) st (value_pos pre f v) = Some (POk (Next (runner_apply f v st) (next_pos pre f v)))"
    by (cases v) (auto simp: runner_field_def runner_apply_def on_string_render)
qed

lemma decodeRunner_render:
  assumes "addr_ok addr" "fits (render_fields (runner_fields r))"
  shows "decodeRunner addr (render_fields (runner_fields r)) = Some (POk r)"
proof -
  have labels: "fold (\<lambda>(f, v). runner_apply f v) (map (\<lambda>l. (9, LenV l)) ls) x = x\<lparr>rr_labels := rr_labels x @ ls\<rparr>" for ls x
    by (induction ls arbitrary: x) (simp_all add: runner_apply_def)
  show ?thesis
    unfolding decodeRunner_def
  proof (rule decode_as [OF runner_decoder [OF assms(1)] _ assms(2)], goal_cases)
    case (1 f v)
    then show ?case by (auto simp: runner_fields_def)
  next
    case 2
    show ?case by (cases r) (simp add: runner_fields_def labels, simp add: runner_apply_def empty_register_result_def)
  qed
qed

text \<open>
  What the server sends in answer to \<^verbatim>\<open>Register\<close> is what the call returns.
\<close>

lemma registerRunner_answer:
  assumes "addr_ok addr" "fits (render_register_response r)"
    "\<And>req. http req = Http_response 200 (render_register_response r)"
  shows "registerRunner addr http cl token name labels version = Some (POk r)"
proof -
  let ?m = "render_fields (runner_fields r)"
  have fits: "fits ?m" using fits_member [OF assms(2) [unfolded render_register_response_def], of 1] by simp
  have buf: "render_register_response r = [] @ render_field (1, LenV ?m) @ []" by (simp add: render_register_response_def)
  have "read_tag (render_register_response r) 0 = POk (1, 2, value_pos [] 1 (LenV ?m))"
    using read_tag_render [of 1 2 "[]" "render_value (LenV ?m)"] by (simp add: buf render_field_def value_pos_def)
  moreover have ne: "render_register_response r \<noteq> []" by (simp add: render_register_response_def)
  ultimately have "decodeRegisterResponse addr (render_register_response r) = Some (POk r)"
    unfolding decodeRegisterResponse_def
    using on_string_render [OF assms(1) buf assms(2), of "decodeRunner addr"] decodeRunner_render [OF assms(1) fits]
    by (subst msg_loop.simps) (simp add: register_field_def pmap_def)
  then show ?thesis
    using ne assms(3) by (simp add: registerRunner_def with_response_def doRPC_def doRPC_url_def decodeResponse_def)
qed

section \<open>Encoders\<close>

lemmas append_fields = append_field_simps [of 1, simplified of_nat_numeral of_nat_1, simplified]
  append_field_simps [of 2, simplified] append_field_simps [of 3, simplified]
  append_field_simps [of 4, simplified] append_field_simps [of 5, simplified]
  append_field_simps [of 6, simplified]

text \<open>An integer field, absent when it is the proto3 default.\<close>

definition int_field :: "nat \<Rightarrow> int \<Rightarrow> (nat \<times> wire_value) list" where
  "int_field f i = (if i = 0 then [] else [(f, VarintV (word_of_int i))])"

definition message_field :: "nat \<Rightarrow> string \<Rightarrow> (nat \<times> wire_value) list" where
  "message_field f m = (if m = [] then [] else [(f, LenV m)])"

definition timestamp_fields :: "int \<Rightarrow> int \<Rightarrow> (nat \<times> wire_value) list" where
  "timestamp_fields s ns = int_field 1 s @ int_field 2 ns"

definition log_row_fields :: "log_row \<Rightarrow> (nat \<times> wire_value) list" where
  "log_row_fields r =
     message_field 1 (render_fields (timestamp_fields (time_s r) (time_ns r))) @ [(2, LenV (content r))]"

definition update_log_fields :: "int \<Rightarrow> int \<Rightarrow> log_row list \<Rightarrow> bool \<Rightarrow> (nat \<times> wire_value) list" where
  "update_log_fields tid index rows no_more =
     int_field 1 tid @ int_field 2 index @ map (\<lambda>r. (3, LenV (render_fields (log_row_fields r)))) rows
     @ (if no_more then [(4, VarintV 1)] else [])"

lemma encodeTimestamp_fields: "encodeTimestamp s ns = render_fields (timestamp_fields s ns)"
  by (simp add: encodeTimestamp_def timestamp_fields_def int_field_def append_fields Let_def)

lemma encode_log_row_fields: "encode_log_row r = render_fields (log_row_fields r)"
  by (simp add: encode_log_row_def log_row_fields_def message_field_def append_fields encodeTimestamp_fields)

lemma foldl_append_fields:
  "foldl (\<lambda>out x. out @ f x) out xs = out @ concat (map f xs)"
  by (induction xs arbitrary: out) auto

lemma encodeUpdateLogRequest_fields:
  "encodeUpdateLogRequest tid index rows no_more = render_fields (update_log_fields tid index rows no_more)"
proof -
  have "log_row_fields r \<noteq> []" "render_fields (log_row_fields r) \<noteq> []" for r
    by (simp_all add: log_row_fields_def)
  then have "foldl (\<lambda>out row. appendMessage out 3 (encode_log_row row)) out rows =
      out @ render_fields (map (\<lambda>r. (3, LenV (render_fields (log_row_fields r)))) rows)" for out
    by (induction rows arbitrary: out) (simp_all add: append_fields encode_log_row_fields)
  then show ?thesis
    by (simp add: encodeUpdateLogRequest_def update_log_fields_def int_field_def append_fields)
qed

lemma word_of_int_inj: "int64 i \<Longrightarrow> int64 j \<Longrightarrow> (word_of_int i :: u64) = word_of_int j \<Longrightarrow> i = j"
  by (metis int64_def to_int64_of_int)

lemma int_field_inj:
  assumes "int64 i" "int64 j" "int_field f i @ xs = int_field f j @ ys"
    "\<forall>v. (f, v) \<notin> set xs" "\<forall>v. (f, v) \<notin> set ys"
  shows "i = j \<and> xs = ys"
proof -
  consider "i = 0" "j = 0" | "i \<noteq> 0" "j = 0" | "i = 0" "j \<noteq> 0" | "i \<noteq> 0" "j \<noteq> 0" by blast
  then show ?thesis
  proof cases
    case 2
    with assms(3,5) show ?thesis by (simp add: int_field_def) (metis list.set_intros(1))
  next
    case 3
    with assms(3,4) show ?thesis by (simp add: int_field_def) (metis list.set_intros(1))
  next
    case 4
    with assms(3) word_of_int_inj [OF assms(1,2)] show ?thesis by (simp add: int_field_def)
  qed (use assms(3) in \<open>simp add: int_field_def\<close>)
qed

definition wf_row :: "log_row \<Rightarrow> bool" where
  "wf_row r \<longleftrightarrow> int64 (time_s r) \<and> int64 (time_ns r)"

lemma timestamp_fields_inj:
  assumes "int64 s" "int64 n" "int64 s'" "int64 n'" "timestamp_fields s n = timestamp_fields s' n'"
  shows "s = s' \<and> n = n'"
  using int_field_inj [OF assms(1,3), of 1 "int_field 2 n" "int_field 2 n'"]
    int_field_inj [OF assms(2,4), of 2 "[]" "[]"] assms(5)
  by (auto simp: timestamp_fields_def) (auto simp: int_field_def split: if_splits)

lemma timestamp_fields_small:
  "\<forall>(f, v) \<in> set (timestamp_fields s n). f < 2 ^ 29" "\<forall>(f, v) \<in> set (log_row_fields r). f < 2 ^ 29"
  by (auto simp: timestamp_fields_def int_field_def log_row_fields_def message_field_def)

lemma render_fields_Nil_iff [simp]: "render_fields fs = [] \<longleftrightarrow> fs = []"
  by (cases fs) auto

lemma log_row_fields_inj:
  assumes "wf_row r" "wf_row r'" "fits (render_fields (log_row_fields r))" "log_row_fields r = log_row_fields r'"
  shows "r = r'"
proof -
  let ?ts = "\<lambda>r. timestamp_fields (time_s r) (time_ns r)"
  have "content r = content r'" and ts: "render_fields (?ts r) = render_fields (?ts r')"
    using assms(4) by (auto simp: log_row_fields_def message_field_def split: if_splits)
  moreover have "fits (render_fields (?ts r))"
    using assms(3) by (auto simp: log_row_fields_def message_field_def fits_def render_field_def split: if_splits)
  then have "?ts r = ?ts r'"
    using render_fields_inj [OF timestamp_fields_small(1) timestamp_fields_small(1) _ ts] by simp
  ultimately show ?thesis
    using timestamp_fields_inj [of "time_s r" "time_ns r" "time_s r'" "time_ns r'"] assms(1,2)
    by (simp add: wf_row_def)
qed

lemma rows_inj:
  assumes "\<forall>r \<in> set rows. wf_row r" "\<forall>r \<in> set rows'. wf_row r"
    "map (\<lambda>r. (3 :: nat, LenV (render_fields (log_row_fields r)))) rows @ e =
     map (\<lambda>r. (3, LenV (render_fields (log_row_fields r)))) rows' @ e'"
    "\<forall>v. (3, v) \<notin> set e" "\<forall>v. (3, v) \<notin> set e'"
    "\<forall>r \<in> set rows. fits (render_fields (log_row_fields r))"
  shows "rows = rows' \<and> e = e'"
  using assms
proof (induction rows arbitrary: rows')
  case Nil
  then show ?case by (cases rows') auto
next
  case (Cons r rows)
  then obtain r' rest where rows': "rows' = r' # rest" by (cases rows') auto
  with Cons.prems have eq: "render_fields (log_row_fields r) = render_fields (log_row_fields r')"
    "wf_row r" "wf_row r'" "fits (render_fields (log_row_fields r))" by auto
  then have "log_row_fields r = log_row_fields r'"
    using render_fields_inj [OF timestamp_fields_small(2) timestamp_fields_small(2) eq(4,1)] by simp
  then have "r = r'" using eq by (intro log_row_fields_inj)
  with Cons.IH [of rest] Cons.prems rows' show ?case by auto
qed

text \<open>
  An \<^verbatim>\<open>UpdateLog\<close> request determines what is reported: two requests with the same bytes agree
  in the task, the first row's index, every row with its time stamp and text, and the final flag.
\<close>

theorem encodeUpdateLogRequest_inj:
  assumes "int64 tid" "int64 tid'" "int64 index" "int64 index'"
    "\<forall>r \<in> set rows. wf_row r" "\<forall>r \<in> set rows'. wf_row r"
    "fits (encodeUpdateLogRequest tid index rows no_more)"
    "encodeUpdateLogRequest tid index rows no_more = encodeUpdateLogRequest tid' index' rows' no_more'"
  shows "tid = tid' \<and> index = index' \<and> rows = rows' \<and> no_more = no_more'"
proof -
  have "\<forall>(f, v) \<in> set (update_log_fields t i rs b). f < 2 ^ 29" for t i rs b
    by (auto simp: update_log_fields_def int_field_def)
  then have fs: "update_log_fields tid index rows no_more = update_log_fields tid' index' rows' no_more'"
    using assms(7,8) render_fields_inj unfolding encodeUpdateLogRequest_fields by blast
  let ?m = "\<lambda>rows. map (\<lambda>r. (3 :: nat, LenV (render_fields (log_row_fields r)))) rows"
  let ?e = "\<lambda>b. if b then [(4 :: nat, VarintV 1)] else []"
  have 1: "tid = tid' \<and> int_field 2 index @ ?m rows @ ?e no_more = int_field 2 index' @ ?m rows' @ ?e no_more'"
    using fs by (intro int_field_inj [OF assms(1,2), of 1]) (auto simp: update_log_fields_def int_field_def)
  then have 2: "index = index' \<and> ?m rows @ ?e no_more = ?m rows' @ ?e no_more'"
    by (intro int_field_inj [OF assms(3,4), of 2]) auto
  have "\<forall>r \<in> set rows. fits (render_fields (log_row_fields r))"
    using assms(7) fits_member [of "update_log_fields tid index rows no_more" 3]
    by (auto simp: encodeUpdateLogRequest_fields update_log_fields_def)
  then have "rows = rows' \<and> ?e no_more = ?e no_more'"
    using 2 assms(5,6) by (intro rows_inj) auto
  with 1 2 show ?thesis by (auto split: if_splits)
qed

theorem encodeUpdateLogRequest_inj_witness:
  "encodeUpdateLogRequest 7 0 [demo_row ''a''] False \<noteq> encodeUpdateLogRequest 7 0 [demo_row ''b''] False"
proof -
  have "length (encodeUpdateLogRequest 7 0 [demo_row ''a''] False) < 200" by code_simp
  then have "fits (encodeUpdateLogRequest 7 0 [demo_row ''a''] False)" by (simp add: fits_def)
  from encodeUpdateLogRequest_inj [OF _ _ _ _ _ _ this, of 7 0 "[demo_row ''b'']" False]
  show ?thesis by (auto simp: int64_def wf_row_def demo_row_def)
qed

section \<open>Malformed responses and lost answers\<close>

text \<open>A decoder that comes back to the same state at the same place never returns.\<close>

lemma msg_loop_cycle:
  assumes "p < int (length buf)" "read_tag buf p = POk (f, w, p1)" "h f w st p1 = Some (POk (Next st p))"
  shows "msg_loop h buf st p = None"
proof -
  let ?P = "\<lambda>h' buf' st' p' (y :: 'a presult). \<not> (h' = h \<and> buf' = buf \<and> st' = st \<and> p' = p)"
  have "?P h' buf' st' p' y" if "msg_loop h' buf' st' p' = Some y" for h' buf' st' p' y
    using that by (rule msg_loop.raw_induct [rotated, where P = ?P]) (use assms in \<open>auto; blast\<close>)
  then show ?thesis by (cases "msg_loop h buf st p") blast+
qed

text \<open>
  One skipped field (number 2, length-delimited) whose length field is $2^{64} - 11$: the unchecked
  pointer addition in \<^verbatim>\<open>skipField\<close> wraps around to the start of the message.
\<close>

definition looping_message :: string where
  "looping_message = render_tag 2 2 @ varint (- 11)"

lemma looping_message_length: "length looping_message = 11"
  by code_simp

lemma looping_skip:
  assumes "addr_ok addr"
  shows "skipField addr 2 looping_message 1 = POk 0"
proof -
  have l: "length (render_tag 2 2) = 1" "length (varint (- 11)) = 10" by code_simp+
  have "decodeVarint looping_message 1 = POk (- 11, 11)"
    using decodeVarint_varint [of "render_tag 2 2" "- 11" "[]"] by (simp add: looping_message_def l)
  moreover have "unat (- 11 :: u64) = 2 ^ 64 - 11" by simp
  moreover have "int (addr looping_message) < 2 ^ 64"
  proof -
    have "length looping_message < 2 ^ 47" by (simp add: looping_message_length)
    then have "addr looping_message + length looping_message < 2 ^ 63" using assms by (simp add: addr_ok_def)
    then show ?thesis by (simp add: looping_message_length)
  qed
  ultimately show ?thesis by (simp add: skipField_def ptr_add_def)
qed

text \<open>
  There is a response of eleven bytes on which the decoder never returns: the length of a field
  it does not know wraps the pointer back to the start of the message, because skipping a field does
  not compare the length with what is left of the message.
\<close>

theorem decodeUpdateLogResponse_hangs:
  assumes "addr_ok addr"
  shows "decodeUpdateLogResponse addr looping_message = None"
proof -
  have "length (render_tag 2 2) = 1" by code_simp
  then have "read_tag looping_message 0 = POk (2, 2, 1)"
    using read_tag_render [of 2 2 "[]" "varint (- 11)"] by (simp add: looping_message_def)
  moreover have "update_log_field addr looping_message 2 2 0 1 = Some (POk (Next 0 0))"
    by (simp add: update_log_field_def on_skip_def looping_skip [OF assms])
  ultimately show ?thesis
    unfolding decodeUpdateLogResponse_def by (intro msg_loop_cycle) (simp_all add: looping_message_length)
qed

theorem decodeUpdateLogResponse_hangs_witness:
  "decodeUpdateLogResponse (\<lambda>_. 4096) looping_message = None"
  by (rule decodeUpdateLogResponse_hangs) (simp add: addr_ok_def)

text \<open>
  An \<^verbatim>\<open>UpdateLog\<close> request that runs into the timeout is taken as acknowledged in full: the RPC
  layer turns a timeout into an empty body, and an empty body into an acknowledgement of every row.
\<close>

theorem updateLog_timeout_acknowledged:
  "updateLog addr (\<lambda>_. Curl_timed_out) cl tid index rows no_more = Some (POk (index + int (length rows)))"
  by (simp add: updateLog_def doRPC_def doRPC_url_def with_response_def)

end
