(* ===== verification/Context_Builder.thy ===== *)
theory Context_Builder
  imports Expr_Evaluator Runner_Client
begin

text \<open>
  \<^verbatim>\<open>src/src/workflow/ContextBuilder.cpp\<close>: the expression context of a job, assembled from the task,
  the runner, the environment, the finished steps, the matrix row and the needed jobs.  Parsing of
  a context value as a JSON object is the parameter \<open>json_object\<close> (\<^const>\<open>None\<close> for a text that is no
  JSON object).
\<close>

record step_result =
  sr_id :: string
  sr_result :: int
  sr_outputs :: "string smap"

record context_builder =
  cb_task :: "task_dto option"
  runner_name :: string
  runner_os :: string
  runner_arch :: string
  cb_work_dir :: string
  cb_job_env :: "string smap"
  cb_matrix :: "string smap"
  step_results :: "step_result list"

definition new_context_builder :: context_builder where
  "new_context_builder = \<lparr>cb_task = None, runner_name = [], runner_os = [], runner_arch = [], cb_work_dir = [],
     cb_job_env = [], cb_matrix = [], step_results = []\<rparr>"

definition withTask :: "task_dto \<Rightarrow> context_builder \<Rightarrow> context_builder" where
  "withTask t cb = cb\<lparr>cb_task := Some t\<rparr>"

definition withRunnerInfo :: "string \<Rightarrow> string \<Rightarrow> string \<Rightarrow> context_builder \<Rightarrow> context_builder" where
  "withRunnerInfo name os arch cb = cb\<lparr>runner_name := name, runner_os := os, runner_arch := arch\<rparr>"

definition withWorkDir :: "string \<Rightarrow> context_builder \<Rightarrow> context_builder" where
  "withWorkDir d cb = cb\<lparr>cb_work_dir := d\<rparr>"

definition withJobEnv :: "string smap \<Rightarrow> context_builder \<Rightarrow> context_builder" where
  "withJobEnv env cb = cb\<lparr>cb_job_env := env\<rparr>"

definition addStepOutputs :: "string \<Rightarrow> int \<Rightarrow> string smap \<Rightarrow> context_builder \<Rightarrow> context_builder" where
  "addStepOutputs sid res outs cb =
     cb\<lparr>step_results := step_results cb @ [\<lparr>sr_id = sid, sr_result = res, sr_outputs = outs\<rparr>]\<rparr>"

definition withMatrix :: "string smap \<Rightarrow> context_builder \<Rightarrow> context_builder" where
  "withMatrix combo cb = cb\<lparr>cb_matrix := combo\<rparr>"

definition resultName :: "int \<Rightarrow> string" where
  "resultName r = (if r = 1 then ''success'' else if r = 2 then ''failure'' else if r = 3 then ''cancelled''
     else if r = 4 then ''failure'' else [])"

text \<open>Every part of the context is a sequence of \<^verbatim>\<open>setString\<close> calls.\<close>

type_synonym writes = "(string \<times> string) list"

definition context_writes :: "(string \<Rightarrow> (string \<times> string) list option) \<Rightarrow> string \<times> string \<Rightarrow> writes" where
  "context_writes json_object kv =
     (case kv of (k, v) \<Rightarrow>
        if k = ''matrix'' \<or> starts_with k ''matrix.'' then []
        else if k = ''event'' \<or> k = ''event_name'' \<or> k = ''event_payload''
        then (if k = ''event_name'' then [(''github.event_name'', v)] else [])
        else if CHR ''.'' \<notin> set k then
          (case json_object v of
             Some members \<Rightarrow> map (\<lambda>(jk, jv). (''github.'' @ jk, jv)) members
           | None \<Rightarrow> [(''github.'' @ k, v)])
        else [(k, v)])"

definition prefixed :: "string \<Rightarrow> (string \<times> string) list \<Rightarrow> writes" where
  "prefixed p kvs = map (\<lambda>(k, v). (p @ k, v)) kvs"

definition task_writes :: "(string \<Rightarrow> (string \<times> string) list option) \<Rightarrow> task_dto \<Rightarrow> writes" where
  "task_writes json_object t =
     concat (map (context_writes json_object) (td_context t))
     @ prefixed ''secrets.'' (td_secrets t) @ prefixed ''vars.'' (td_vars t)"

definition or_default :: "string \<Rightarrow> string \<Rightarrow> string" where
  "or_default s d = (if s = [] then d else s)"

definition runner_writes :: "context_builder \<Rightarrow> writes" where
  "runner_writes cb =
     [(''runner.name'', or_default (runner_name cb) ''haiku-runner''),
      (''runner.os'', or_default (runner_os cb) ''haiku''),
      (''runner.arch'', or_default (runner_arch cb) ''X64''),
      (''runner.temp'', if cb_work_dir cb = [] then ''/tmp'' else cb_work_dir cb @ ''/tmp''),
      (''runner.tool_cache'', if cb_work_dir cb = [] then ''/tmp/tool_cache'' else cb_work_dir cb @ ''/tool_cache'')]"

definition token_writes :: "context_builder \<Rightarrow> writes" where
  "token_writes cb =
     (case cb_task cb of
        Some t \<Rightarrow> if gitea_runtime_token t \<noteq> [] then [(''github.token'', gitea_runtime_token t)] else []
      | None \<Rightarrow> [])"

definition step_writes :: "step_result \<Rightarrow> writes" where
  "step_writes sr =
     [(''steps.'' @ sr_id sr @ ''.outcome'', resultName (sr_result sr)),
      (''steps.'' @ sr_id sr @ ''.conclusion'', resultName (sr_result sr))]
     @ prefixed (''steps.'' @ sr_id sr @ ''.outputs.'') (sr_outputs sr)"

definition need_writes :: "string \<times> needs_context_entry \<Rightarrow> writes" where
  "need_writes ne =
     (''needs.'' @ fst ne @ ''.result'', resultName (need_result (snd ne)))
     # prefixed (''needs.'' @ fst ne @ ''.outputs.'') (need_outputs (snd ne))"

definition all_writes :: "(string \<Rightarrow> (string \<times> string) list option) \<Rightarrow> context_builder \<Rightarrow> writes" where
  "all_writes json_object cb =
     (case cb_task cb of Some t \<Rightarrow> task_writes json_object t | None \<Rightarrow> [])
     @ runner_writes cb @ token_writes cb @ prefixed ''env.'' (cb_job_env cb)
     @ concat (map step_writes (step_results cb)) @ prefixed ''matrix.'' (cb_matrix cb)
     @ (case cb_task cb of Some t \<Rightarrow> concat (map need_writes (needs_context t)) | None \<Rightarrow> [])"

definition build :: "(string \<Rightarrow> (string \<times> string) list option) \<Rightarrow> context_builder \<Rightarrow> expr_context" where
  "build json_object cb = fold (\<lambda>(p, v). setString p v) (all_writes json_object cb) []"

section \<open>Reading the context\<close>

lemma fold_setString:
  "fold (\<lambda>(p, v). setString p v) ws ctx = fold (\<lambda>(p, v). omap_set p v) (map (\<lambda>(p, v). (p, EString v)) ws) ctx"
  by (induction ws arbitrary: ctx) (auto simp: setString_def ctx_set_def)

lemma ctx_get_build:
  assumes "map_of (rev (all_writes json_object cb)) path = Some v"
  shows "ctx_get (build json_object cb) path = EString v"
proof -
  have "map_of (rev (map (\<lambda>(p, v). (p, EString v)) ws)) path = map_option EString (map_of (rev ws) path)" for ws
    unfolding rev_map by (induction ws) (auto simp: map_of_map map_add_def split: option.splits)
  then have "omap_get (build json_object cb) path = Some (EString v)"
    using assms smap.lookup_store_all_last [of "map (\<lambda>(p, v). (p, EString v)) (all_writes json_object cb)" path "EString v" "[]"]
    by (simp add: build_def fold_setString)
  then show ?thesis by (simp add: ctx_get_def)
qed

text \<open>The last write to a path is the one a group of writes makes if no later group touches the path.\<close>

lemma map_of_rev_append:
  "path \<notin> fst ` set b \<Longrightarrow> map_of (rev (a @ b)) path = map_of (rev a) path"
  by (simp add: map_add_dom_app_simps(3) dom_map_of_conv_image_fst)

lemma map_of_rev_prefixed: "map_of (rev (prefixed p kvs)) (p @ k) = map_of (rev kvs) k"
  unfolding prefixed_def rev_map by (induction kvs) (auto simp: map_add_def split: option.splits)

lemma prefixed_keys: "x \<in> fst ` set (prefixed p kvs) \<Longrightarrow> \<exists>k. x = p @ k"
  by (auto simp: prefixed_def)

definition namespace :: "string \<Rightarrow> string" where
  "namespace path = takeWhile (\<lambda>c. c \<noteq> CHR ''.'') path"

lemma namespace_writes:
  "x \<in> fst ` set (prefixed ''secrets.'' kvs) \<Longrightarrow> namespace x = ''secrets''"
  "x \<in> fst ` set (prefixed ''vars.'' kvs) \<Longrightarrow> namespace x = ''vars''"
  "x \<in> fst ` set (prefixed ''env.'' kvs) \<Longrightarrow> namespace x = ''env''"
  "x \<in> fst ` set (prefixed ''matrix.'' kvs) \<Longrightarrow> namespace x = ''matrix''"
  "x \<in> fst ` set (runner_writes cb) \<Longrightarrow> namespace x = ''runner''"
  "x \<in> fst ` set (token_writes cb) \<Longrightarrow> namespace x = ''github''"
  "x \<in> fst ` set (concat (map step_writes srs)) \<Longrightarrow> namespace x = ''steps''"
  "x \<in> fst ` set (concat (map need_writes nes)) \<Longrightarrow> namespace x = ''needs''"
  by (auto simp: namespace_def prefixed_def runner_writes_def token_writes_def step_writes_def need_writes_def
      split: option.splits if_splits)

lemma other_namespace:
  "namespace path \<noteq> ''secrets'' \<Longrightarrow> path \<notin> fst ` set (prefixed ''secrets.'' kvs)"
  "namespace path \<noteq> ''vars'' \<Longrightarrow> path \<notin> fst ` set (prefixed ''vars.'' kvs)"
  "namespace path \<noteq> ''env'' \<Longrightarrow> path \<notin> fst ` set (prefixed ''env.'' kvs)"
  "namespace path \<noteq> ''matrix'' \<Longrightarrow> path \<notin> fst ` set (prefixed ''matrix.'' kvs)"
  "namespace path \<noteq> ''runner'' \<Longrightarrow> path \<notin> fst ` set (runner_writes cb)"
  "namespace path \<noteq> ''github'' \<Longrightarrow> path \<notin> fst ` set (token_writes cb)"
  "namespace path \<noteq> ''steps'' \<Longrightarrow> path \<notin> fst ` set (concat (map step_writes srs))"
  "namespace path \<noteq> ''needs'' \<Longrightarrow> path \<notin> fst ` set (concat (map need_writes nes))"
  by (erule contrapos_nn, erule namespace_writes)+

text \<open>The namespace of a path that starts with a name and a dot.\<close>

lemma namespace_path: "CHR ''.'' \<notin> set n \<Longrightarrow> namespace (n @ CHR ''.'' # k) = n"
  by (simp add: namespace_def takeWhile_append)

lemma last_write:
  assumes "map_of (rev a) path = Some v" "path \<notin> fst ` set b"
  shows "map_of (rev (c @ a @ b)) path = Some v"
  using map_of_rev_append [OF assms(2), of "c @ a"] assms(1) by (simp add: map_add_def)

lemma build_last_write:
  assumes "all_writes json_object cb = c @ a @ b" "map_of (rev a) path = Some v" "path \<notin> fst ` set b"
  shows "ctx_get (build json_object cb) path = EString v"
  using ctx_get_build [of json_object cb path v] last_write [OF assms(2,3), of c] assms(1) by simp

text \<open>
  The namespaces do not shadow each other: a secret, a variable, an environment variable or a
  matrix value that the task defines is what its path evaluates to, whatever the server's context,
  the steps or the other sources contain.
\<close>

theorem build_namespaces:
  assumes "cb_task cb = Some t"
  shows "(map_of (rev (td_secrets t)) k = Some v \<longrightarrow> ctx_get (build json_object cb) (''secrets.'' @ k) = EString v)
    \<and> (map_of (rev (td_vars t)) k = Some v \<longrightarrow> ctx_get (build json_object cb) (''vars.'' @ k) = EString v)
    \<and> (map_of (rev (cb_job_env cb)) k = Some v \<longrightarrow> ctx_get (build json_object cb) (''env.'' @ k) = EString v)
    \<and> (map_of (rev (cb_matrix cb)) k = Some v \<longrightarrow> ctx_get (build json_object cb) (''matrix.'' @ k) = EString v)"
proof -
  let ?steps = "concat (map step_writes (step_results cb))" and ?needs = "concat (map need_writes (needs_context t))"
  let ?ctx = "concat (map (context_writes json_object) (td_context t))"
  let ?sec = "prefixed ''secrets.'' (td_secrets t)" and ?vars = "prefixed ''vars.'' (td_vars t)"
  let ?env = "prefixed ''env.'' (cb_job_env cb)" and ?mat = "prefixed ''matrix.'' (cb_matrix cb)"
  have all: "all_writes json_object cb =
      ?ctx @ ?sec @ ?vars @ runner_writes cb @ token_writes cb @ ?env @ ?steps @ ?mat @ ?needs"
    using assms by (simp add: all_writes_def task_writes_def)
  have ns: "namespace (''secrets.'' @ k) = ''secrets''" "namespace (''vars.'' @ k) = ''vars''"
    "namespace (''env.'' @ k) = ''env''" "namespace (''matrix.'' @ k) = ''matrix''"
    by (simp_all add: namespace_def)
  have out: "''secrets.'' @ k \<notin> fst ` set (?vars @ runner_writes cb @ token_writes cb @ ?env @ ?steps @ ?mat @ ?needs)"
    "''vars.'' @ k \<notin> fst ` set (runner_writes cb @ token_writes cb @ ?env @ ?steps @ ?mat @ ?needs)"
    "''env.'' @ k \<notin> fst ` set (?steps @ ?mat @ ?needs)" "''matrix.'' @ k \<notin> fst ` set ?needs"
    unfolding set_append image_Un Un_iff de_Morgan_disj
    by (intro conjI other_namespace; simp only: ns; simp)+
  show ?thesis
    using build_last_write [of json_object cb "?ctx" ?sec _ "''secrets.'' @ k" v, OF _ _ out(1)]
      build_last_write [of json_object cb "?ctx @ ?sec" ?vars _ "''vars.'' @ k" v, OF _ _ out(2)]
      build_last_write [of json_object cb "?ctx @ ?sec @ ?vars @ runner_writes cb @ token_writes cb" ?env _ "''env.'' @ k" v, OF _ _ out(3)]
      build_last_write [of json_object cb "?ctx @ ?sec @ ?vars @ runner_writes cb @ token_writes cb @ ?env @ ?steps" ?mat _
        "''matrix.'' @ k" v, OF _ _ out(4)]
    unfolding map_of_rev_prefixed append_assoc by (simp only: all) blast
qed

theorem build_namespaces_witness:
  "ctx_get (build (\<lambda>_. None) (withTask (empty_task\<lparr>td_secrets := [(''T'', ''s'')],
     td_context := [(''secrets.T'', ''x'')]\<rparr>) new_context_builder)) ''secrets.T'' = EString ''s''"
proof -
  let ?t = "empty_task\<lparr>td_secrets := [(''T'', ''s'')], td_context := [(''secrets.T'', ''x'')]\<rparr>"
  have "cb_task (withTask ?t new_context_builder) = Some ?t" by (simp add: withTask_def)
  from build_namespaces [OF this, of "''T''" "''s''" "\<lambda>_. None"] show ?thesis by simp
qed

lemma dotfree_eq:
  assumes "CHR ''.'' \<notin> set a" "CHR ''.'' \<notin> set b" "a @ CHR ''.'' # x = b @ CHR ''.'' # y"
  shows "a = b \<and> x = y"
  using assms
proof (induction a arbitrary: b)
  case Nil
  then show ?case by (cases b) auto
next
  case (Cons c a)
  then show ?case by (cases b) auto
qed

lemma step_writes_path:
  assumes "x \<in> fst ` set (step_writes sr)"
  obtains y where "x = ''steps.'' @ sr_id sr @ CHR ''.'' # y"
  using assms by (auto simp: step_writes_def prefixed_def)

text \<open>
  What a step reported is what later expressions read: for steps with distinct names without
  dots, \<^verbatim>\<open>steps.<id>.outcome\<close> is the recorded result and \<^verbatim>\<open>steps.<id>.outputs.<name>\<close> the recorded
  output, whatever other steps and sources contain.
\<close>

theorem build_step_outputs:
  assumes srs: "step_results cb = srs1 @ sr # srs2"
    and dotfree: "\<forall>s \<in> set (step_results cb). CHR ''.'' \<notin> set (sr_id s)"
    and later: "sr_id sr \<notin> sr_id ` set srs2"
  shows "ctx_get (build json_object cb) (''steps.'' @ sr_id sr @ ''.outcome'') = EString (resultName (sr_result sr))
    \<and> (map_of (rev (sr_outputs sr)) k = Some v \<longrightarrow>
        ctx_get (build json_object cb) (''steps.'' @ sr_id sr @ ''.outputs.'' @ k) = EString v)"
proof -
  let ?a = "step_writes sr"
  let ?b = "concat (map step_writes srs2) @ prefixed ''matrix.'' (cb_matrix cb)
     @ (case cb_task cb of Some t \<Rightarrow> concat (map need_writes (needs_context t)) | None \<Rightarrow> [])"
  let ?c = "(case cb_task cb of Some t \<Rightarrow> task_writes json_object t | None \<Rightarrow> [])
     @ runner_writes cb @ token_writes cb @ prefixed ''env.'' (cb_job_env cb) @ concat (map step_writes srs1)"
  have all: "all_writes json_object cb = ?c @ ?a @ ?b" by (simp add: all_writes_def srs)
  have later_steps: "''steps.'' @ sr_id sr @ CHR ''.'' # y \<notin> fst ` set (concat (map step_writes srs2))" for y
  proof
    assume "''steps.'' @ sr_id sr @ CHR ''.'' # y \<in> fst ` set (concat (map step_writes srs2))"
    then obtain s where s: "s \<in> set srs2" "''steps.'' @ sr_id sr @ CHR ''.'' # y \<in> fst ` set (step_writes s)" by auto
    then obtain z where "sr_id sr @ CHR ''.'' # y = sr_id s @ CHR ''.'' # z"
      by (auto elim!: step_writes_path)
    moreover have "CHR ''.'' \<notin> set (sr_id sr)" "CHR ''.'' \<notin> set (sr_id s)" using dotfree srs s(1) by auto
    ultimately have "sr_id sr = sr_id s" using dotfree_eq by blast
    with later s(1) show False by auto
  qed
  have ns: "namespace (''steps.'' @ sr_id sr @ CHR ''.'' # y) = ''steps''" for y by (simp add: namespace_def)
  have b: "''steps.'' @ sr_id sr @ CHR ''.'' # y \<notin> fst ` set ?b" for y
  proof -
    let ?p = "''steps.'' @ sr_id sr @ CHR ''.'' # y"
    have "?p \<notin> fst ` set (prefixed ''matrix.'' (cb_matrix cb))" "?p \<notin> fst ` set (concat (map need_writes nes))" for nes
      by (rule other_namespace; simp only: ns; simp)+
    with later_steps [of y] show ?thesis
      unfolding set_append image_Un Un_iff de_Morgan_disj by (cases "cb_task cb") (simp_all only: option.case; simp)+
  qed
  have "map_of (rev ?a) (''steps.'' @ sr_id sr @ ''.outcome'') = Some (resultName (sr_result sr))"
    by (auto simp: step_writes_def prefixed_def map_add_def split: option.splits dest!: map_of_SomeD)
  moreover have "map_of (rev (sr_outputs sr)) k = Some v \<Longrightarrow>
      map_of (rev ?a) (''steps.'' @ sr_id sr @ ''.outputs.'' @ k) = Some v"
    using map_of_rev_prefixed [of "''steps.'' @ sr_id sr @ ''.outputs.''" "sr_outputs sr" k]
    by (simp add: step_writes_def map_add_def)
  ultimately show ?thesis
    using build_last_write [OF all, of "''steps.'' @ sr_id sr @ ''.outcome''"] b [of "''outcome''"]
      build_last_write [OF all, of "''steps.'' @ sr_id sr @ ''.outputs.'' @ k" v] b [of "''outputs.'' @ k"] by simp
qed

theorem build_step_outputs_witness:
  "ctx_get (build (\<lambda>_. None) (addStepOutputs ''b'' 2 [] (addStepOutputs ''a'' 1 [(''v'', ''7'')] new_context_builder)))
     ''steps.a.outputs.v'' = EString ''7''"
  using build_step_outputs [of "addStepOutputs ''b'' 2 [] (addStepOutputs ''a'' 1 [(''v'', ''7'')] new_context_builder)"
      "[]" "\<lparr>sr_id = ''a'', sr_result = 1, sr_outputs = [(''v'', ''7'')]\<rparr>"
      "[\<lparr>sr_id = ''b'', sr_result = 2, sr_outputs = []\<rparr>]" "\<lambda>_. None" "''v''" "''7''"]
  by (simp add: addStepOutputs_def new_context_builder_def)

end
