(* ===== verification/Yaml_Nodes.thy ===== *)
theory Yaml_Nodes
  imports Prelude
begin

text \<open>
  The documents of yaml-cpp, as the configuration and workflow readers use them.  The library is
  not part of the sources: loading a text and the conversions of scalars to numbers and truth values
  are parameters (the record \<open>yaml_api\<close>); a node is what its documentation calls a null, scalar,
  sequence or map node.
\<close>

datatype ynode = YNull | YScalar string | YSeq "ynode list" | YMap "(ynode \<times> ynode) list"

record yaml_api =
  yaml_load :: "string \<Rightarrow> ynode result"
  scalar_int :: "string \<Rightarrow> int option"
  scalar_bool :: "string \<Rightarrow> bool option"

text \<open>\<^verbatim>\<open>n[key]\<close>: an absent key is an undefined node (\<^const>\<open>None\<close>); a scalar cannot be subscripted.\<close>

fun yget :: "ynode \<Rightarrow> string \<Rightarrow> ynode option result" where
  "yget (YMap kvs) key = Inr (map_of kvs (YScalar key))"
| "yget (YScalar _) key = Inl (Runtime_error ''operator[] call on a scalar'')"
| "yget _ key = Inr None"

text \<open>\<^verbatim>\<open>n.as<std::string>()\<close>, \<^verbatim>\<open>as<int>()\<close> and \<^verbatim>\<open>as<bool>()\<close> throw on other nodes.\<close>

fun as_string :: "ynode \<Rightarrow> string result" where
  "as_string (YScalar s) = Inr s"
| "as_string YNull = Inr ''null''"
| "as_string _ = Inl (Runtime_error ''bad conversion'')"

fun as_int :: "yaml_api \<Rightarrow> ynode \<Rightarrow> int result" where
  "as_int y (YScalar s) = (case scalar_int y s of Some i \<Rightarrow> Inr i | None \<Rightarrow> Inl (Runtime_error ''bad conversion''))"
| "as_int y _ = Inl (Runtime_error ''bad conversion'')"

fun as_bool :: "yaml_api \<Rightarrow> ynode \<Rightarrow> bool result" where
  "as_bool y (YScalar s) = (case scalar_bool y s of Some b \<Rightarrow> Inr b | None \<Rightarrow> Inl (Runtime_error ''bad conversion''))"
| "as_bool y _ = Inl (Runtime_error ''bad conversion'')"

text \<open>Two levels of subscripts on a node that may be undefined.\<close>

definition yget_opt :: "ynode option \<Rightarrow> string \<Rightarrow> ynode option result" where
  "yget_opt n key = (case n of None \<Rightarrow> Inr None | Some n \<Rightarrow> yget n key)"

end
