(* ===== verification/Config.thy ===== *)
theory Config
  imports Yaml_Nodes
begin

text \<open>
  \<^verbatim>\<open>src/src/config/Config.cpp\<close> and \<^verbatim>\<open>src/src/config/RunnerState.cpp\<close>: the configuration file, its
  defaults and limits, and the persistent identity of the runner.  Files are read and written as
  documents; YAML and JSON texts are a matter of the libraries.
\<close>

section \<open>Labels\<close>

record label_def =
  label_name :: string
  executor :: string

definition parseLabelDef :: "string \<Rightarrow> label_def" where
  "parseLabelDef raw =
     (case str_rfind CHR '':'' raw of
        None \<Rightarrow> \<lparr>label_name = raw, executor = ''host''\<rparr>
      | Some pos \<Rightarrow> \<lparr>label_name = take pos raw, executor = drop (pos + 1) raw\<rparr>)"

definition label_string :: "label_def \<Rightarrow> string" where
  "label_string l = label_name l @ '':'' @ executor l"

lemma parseLabelDef_label_string:
  "CHR '':'' \<notin> set (executor l) \<Longrightarrow> parseLabelDef (label_string l) = l"
  by (cases l) (simp add: parseLabelDef_def label_string_def str_rfind_append)

section \<open>The configuration\<close>

record config =
  gitea_url :: string
  cfg_runner_token :: string
  cfg_name :: string
  cfg_uuid :: string
  capacity :: int
  fetch_timeout :: int
  fetch_interval :: int
  insecure :: bool
  work_dir :: string
  cfg_labels :: "label_def list"
  log_level :: string
  cache_enabled :: bool
  cache_dir :: string
  cache_host :: string
  cache_port :: int
  cache_max_age_days :: int
  cache_url_runtime :: string

definition default_config :: config where
  "default_config = \<lparr>gitea_url = [], cfg_runner_token = [], cfg_name = [], cfg_uuid = [], capacity = 1,
     fetch_timeout = 30, fetch_interval = 2, insecure = False, work_dir = [], cfg_labels = [],
     log_level = ''info'', cache_enabled = True, cache_dir = [], cache_host = ''127.0.0.1'', cache_port = 0,
     cache_max_age_days = 7, cache_url_runtime = []\<rparr>"

definition labelStrings :: "config \<Rightarrow> string list" where
  "labelStrings cfg = map label_string (cfg_labels cfg)"

text \<open>
  \<^verbatim>\<open>if (n[key]) field = n[key].as<T>();\<close>, where \<open>conv\<close> is the conversion and \<open>upd\<close> the assignment.
\<close>

definition opt_field :: "(ynode \<Rightarrow> 'v result) \<Rightarrow> ('v \<Rightarrow> 'c \<Rightarrow> 'c) \<Rightarrow> string \<Rightarrow> ynode \<Rightarrow> 'c \<Rightarrow> 'c result" where
  "opt_field conv upd key n cfg =
     rbind (yget n key) (\<lambda>v. case v of None \<Rightarrow> Inr cfg | Some x \<Rightarrow> rbind (conv x) (\<lambda>y. Inr (upd y cfg)))"

definition load_cache :: "yaml_api \<Rightarrow> ynode \<Rightarrow> config \<Rightarrow> config result" where
  "load_cache y doc cfg =
     rbind (yget doc ''cache'') (\<lambda>c. case c of
        Some (YMap kvs) \<Rightarrow>
          (let n = YMap kvs in
           rbind (opt_field (as_bool y) (\<lambda>v. cache_enabled_update (\<lambda>_. v)) ''enabled'' n cfg) (\<lambda>cfg.
           rbind (opt_field as_string (\<lambda>v. cache_dir_update (\<lambda>_. v)) ''dir'' n cfg) (\<lambda>cfg.
           rbind (opt_field as_string (\<lambda>v. cache_host_update (\<lambda>_. v)) ''host'' n cfg) (\<lambda>cfg.
           rbind (opt_field (as_int y) (\<lambda>v. cache_port_update (\<lambda>_. v)) ''port'' n cfg) (\<lambda>cfg.
           opt_field (as_int y) (\<lambda>v. cache_max_age_days_update (\<lambda>_. v)) ''max_age_days'' n cfg)))))
      | _ \<Rightarrow> Inr cfg)"

definition load_labels :: "ynode \<Rightarrow> config \<Rightarrow> config result" where
  "load_labels doc cfg =
     rbind (yget doc ''labels'') (\<lambda>l. case l of
        Some (YSeq xs) \<Rightarrow>
          rbind (rmap as_string xs) (\<lambda>raws. Inr (cfg\<lparr>cfg_labels := cfg_labels cfg @ map parseLabelDef raws\<rparr>))
      | _ \<Rightarrow> Inr cfg)"

definition default_labels :: "config \<Rightarrow> config" where
  "default_labels cfg =
     (if cfg_labels cfg = []
      then cfg\<lparr>cfg_labels := [\<lparr>label_name = ''haiku'', executor = ''host''\<rparr>,
                            \<lparr>label_name = ''haiku-latest'', executor = ''host''\<rparr>]\<rparr>
      else cfg)"

definition clamp_capacity :: "config \<Rightarrow> config" where
  "clamp_capacity cfg =
     (let cfg = (if capacity cfg < 1 then cfg\<lparr>capacity := 1\<rparr> else cfg)
      in if 16 < capacity cfg then cfg\<lparr>capacity := 16\<rparr> else cfg)"

definition load_config_node :: "yaml_api \<Rightarrow> ynode \<Rightarrow> config result" where
  "load_config_node y doc =
     rbind (yget doc ''gitea_url'') (\<lambda>u. case u of
        None \<Rightarrow> Inl (Runtime_error ''Config missing required field: gitea_url'')
      | Some un \<Rightarrow>
         rbind (as_string un) (\<lambda>url.
         rbind (opt_field as_string (\<lambda>v. cfg_runner_token_update (\<lambda>_. v)) ''runner_token'' doc
                  (default_config\<lparr>gitea_url := strip_slashes url\<rparr>)) (\<lambda>cfg.
         rbind (opt_field as_string (\<lambda>v. cfg_uuid_update (\<lambda>_. v)) ''uuid'' doc cfg) (\<lambda>cfg.
         rbind (opt_field as_string (\<lambda>v. cfg_name_update (\<lambda>_. v)) ''name'' doc cfg) (\<lambda>cfg.
         rbind (opt_field (as_int y) (\<lambda>v. capacity_update (\<lambda>_. v)) ''capacity'' doc cfg) (\<lambda>cfg.
         rbind (opt_field (as_int y) (\<lambda>v. fetch_timeout_update (\<lambda>_. v)) ''fetch_timeout'' doc cfg) (\<lambda>cfg.
         rbind (opt_field (as_int y) (\<lambda>v. fetch_interval_update (\<lambda>_. v)) ''fetch_interval'' doc cfg) (\<lambda>cfg.
         rbind (opt_field (as_bool y) (\<lambda>v. insecure_update (\<lambda>_. v)) ''insecure'' doc cfg) (\<lambda>cfg.
         rbind (opt_field as_string (\<lambda>v. log_level_update (\<lambda>_. v)) ''log_level'' doc cfg) (\<lambda>cfg.
         rbind (opt_field as_string (\<lambda>v. work_dir_update (\<lambda>_. v)) ''work_dir'' doc cfg) (\<lambda>cfg.
         rbind (load_cache y doc cfg) (\<lambda>cfg.
         rbind (load_labels doc cfg) (\<lambda>cfg.
         Inr (clamp_capacity (default_labels cfg)))))))))))))))"

definition loadConfig :: "yaml_api \<Rightarrow> string \<Rightarrow> string \<Rightarrow> config result" where
  "loadConfig y path text =
     (case yaml_load y text of
        Inl e \<Rightarrow> Inl (Runtime_error (''Failed to parse config file '' @ quoted path @ '': '' @ what e))
      | Inr doc \<Rightarrow> load_config_node y doc)"

text \<open>\<^verbatim>\<open>saveConfig\<close>: the document the emitter is fed with, and the file it is written to.\<close>

definition yint :: "int \<Rightarrow> ynode" where
  "yint i = YScalar (int_to_string i)"

definition ybool :: "bool \<Rightarrow> ynode" where
  "ybool b = YScalar (if b then ''true'' else ''false'')"

definition cache_node :: "config \<Rightarrow> ynode" where
  "cache_node cfg = YMap
     ([(YScalar ''enabled'', ybool (cache_enabled cfg))]
      @ (if cache_dir cfg \<noteq> [] then [(YScalar ''dir'', YScalar (cache_dir cfg))] else [])
      @ [(YScalar ''host'', YScalar (cache_host cfg)), (YScalar ''port'', yint (cache_port cfg)),
         (YScalar ''max_age_days'', yint (cache_max_age_days cfg))])"

definition config_node :: "config \<Rightarrow> ynode" where
  "config_node cfg = YMap
     ([(YScalar ''gitea_url'', YScalar (gitea_url cfg)), (YScalar ''runner_token'', YScalar (cfg_runner_token cfg)),
       (YScalar ''uuid'', YScalar (cfg_uuid cfg)), (YScalar ''name'', YScalar (cfg_name cfg)),
       (YScalar ''capacity'', yint (capacity cfg)), (YScalar ''fetch_timeout'', yint (fetch_timeout cfg)),
       (YScalar ''fetch_interval'', yint (fetch_interval cfg)), (YScalar ''insecure'', ybool (insecure cfg)),
       (YScalar ''log_level'', YScalar (log_level cfg))]
      @ (if work_dir cfg \<noteq> [] then [(YScalar ''work_dir'', YScalar (work_dir cfg))] else [])
      @ [(YScalar ''labels'', YSeq (map (\<lambda>l. YScalar (label_string l)) (cfg_labels cfg))),
         (YScalar ''cache'', cache_node cfg)])"

definition saveConfig :: "(ynode \<Rightarrow> string) \<Rightarrow> (string \<Rightarrow> bool) \<Rightarrow> config \<Rightarrow> string \<Rightarrow> (string \<rightharpoonup> string) \<Rightarrow> (string \<rightharpoonup> string) result" where
  "saveConfig emit writable cfg path fs =
     (if writable path then Inr (fs(path \<mapsto> emit (config_node cfg) @ [CHR 0x0A]))
      else Inl (Runtime_error (''Cannot write config to '' @ quoted path)))"

text \<open>
  What the library promises: the conversions read back what the emitter prints for numbers and truth
  values.
\<close>

definition yaml_ok :: "yaml_api \<Rightarrow> bool" where
  "yaml_ok y \<longleftrightarrow> (\<forall>i. scalar_int y (int_to_string i) = Some i)
     \<and> scalar_bool y ''true'' = Some True \<and> scalar_bool y ''false'' = Some False"

definition wf_config :: "config \<Rightarrow> bool" where
  "wf_config cfg \<longleftrightarrow> (gitea_url cfg = [] \<or> last (gitea_url cfg) \<noteq> CHR ''/'') \<and> 1 \<le> capacity cfg \<and> capacity cfg \<le> 16
     \<and> cfg_labels cfg \<noteq> [] \<and> (\<forall>l \<in> set (cfg_labels cfg). CHR '':'' \<notin> set (executor l)) \<and> cache_url_runtime cfg = []"

lemma strip_slashes_id: "url = [] \<or> last url \<noteq> CHR ''/'' \<Longrightarrow> strip_slashes url = url"
  by (cases url rule: rev_cases) (auto simp: strip_slashes_def)

lemma as_int_yint: "yaml_ok y \<Longrightarrow> as_int y (yint i) = Inr i"
  by (simp add: yaml_ok_def yint_def)

lemma as_bool_ybool: "yaml_ok y \<Longrightarrow> as_bool y (ybool b) = Inr b"
  by (simp add: yaml_ok_def ybool_def)

lemma load_labels_saved:
  assumes "\<forall>l \<in> set (cfg_labels cfg). CHR '':'' \<notin> set (executor l)"
  shows "load_labels (config_node cfg) c = Inr (c\<lparr>cfg_labels := cfg_labels c @ cfg_labels cfg\<rparr>)"
proof -
  have "rmap as_string (map (\<lambda>l. YScalar (label_string l)) ls) = Inr (map label_string ls)" for ls
    by (induction ls) auto
  moreover have "map (parseLabelDef \<circ> label_string) (cfg_labels cfg) = cfg_labels cfg"
    using assms by (intro map_idI) (simp add: parseLabelDef_label_string)
  ultimately show ?thesis by (simp add: load_labels_def config_node_def)
qed

lemma load_cache_saved:
  assumes "yaml_ok y" "cache_dir c = []"
  shows "load_cache y (config_node cfg) c = Inr (c\<lparr>cache_enabled := cache_enabled cfg, cache_dir := cache_dir cfg,
    cache_host := cache_host cfg, cache_port := cache_port cfg, cache_max_age_days := cache_max_age_days cfg\<rparr>)"
  using assms(2)
  by (simp add: load_cache_def config_node_def cache_node_def opt_field_def as_int_yint [OF assms(1)]
      as_bool_ybool [OF assms(1)])

lemma load_config_node_written:
  assumes "yaml_ok y" "\<forall>l \<in> set (cfg_labels cfg). CHR '':'' \<notin> set (executor l)"
  shows "load_config_node y (config_node cfg) =
    Inr (clamp_capacity (default_labels (cfg\<lparr>gitea_url := strip_slashes (gitea_url cfg), cache_url_runtime := []\<rparr>)))"
proof -
  have f: "yget (config_node cfg) ''gitea_url'' = Inr (Some (YScalar (gitea_url cfg)))"
    "yget (config_node cfg) ''runner_token'' = Inr (Some (YScalar (cfg_runner_token cfg)))"
    "yget (config_node cfg) ''uuid'' = Inr (Some (YScalar (cfg_uuid cfg)))"
    "yget (config_node cfg) ''name'' = Inr (Some (YScalar (cfg_name cfg)))"
    "yget (config_node cfg) ''capacity'' = Inr (Some (yint (capacity cfg)))"
    "yget (config_node cfg) ''fetch_timeout'' = Inr (Some (yint (fetch_timeout cfg)))"
    "yget (config_node cfg) ''fetch_interval'' = Inr (Some (yint (fetch_interval cfg)))"
    "yget (config_node cfg) ''insecure'' = Inr (Some (ybool (insecure cfg)))"
    "yget (config_node cfg) ''log_level'' = Inr (Some (YScalar (log_level cfg)))"
    "yget (config_node cfg) ''work_dir'' = Inr (if work_dir cfg = [] then None else Some (YScalar (work_dir cfg)))"
    by (simp_all add: config_node_def)
  show ?thesis
    by (cases "work_dir cfg = []"; simp add: load_config_node_def opt_field_def f as_int_yint [OF assms(1)] as_bool_ybool [OF assms(1)]
        load_cache_saved [OF assms(1)] load_labels_saved [OF assms(2)] default_config_def; cases cfg; simp)
qed

text \<open>Every configuration the loader returns is one that it reads back unchanged.\<close>

definition post :: "'a result \<Rightarrow> ('a \<Rightarrow> bool) \<Rightarrow> bool" where
  "post m Q \<longleftrightarrow> (\<forall>x. m = Inr x \<longrightarrow> Q x)"

lemma post_rbind: "post m Q \<Longrightarrow> (\<And>x. Q x \<Longrightarrow> post (k x) R) \<Longrightarrow> post (rbind m k) R"
  by (auto simp: post_def rbind_Inr_iff)

lemma post_any: "post m (\<lambda>_. True)"
  by (simp add: post_def)

lemma post_Inr [simp]: "post (Inr x) Q \<longleftrightarrow> Q x"
  by (simp add: post_def)

lemma post_Inl [simp]: "post (Inl e) Q"
  by (simp add: post_def)

lemma post_opt_field: "P c \<Longrightarrow> (\<And>v. P (upd v c)) \<Longrightarrow> post (opt_field conv upd key n c) P"
  by (auto simp: post_def opt_field_def rbind_Inr_iff split: option.splits)

lemma strip_slashes_last: "strip_slashes url = [] \<or> last (strip_slashes url) \<noteq> CHR ''/''"
proof -
  let ?d = "dropWhile (\<lambda>c. c = CHR ''/'') (rev url)"
  have "?d \<noteq> [] \<Longrightarrow> hd ?d \<noteq> CHR ''/''" using hd_dropWhile by blast
  then show ?thesis by (auto simp: strip_slashes_def last_rev)
qed

definition unlabelled :: "config \<Rightarrow> bool" where
  "unlabelled c \<longleftrightarrow> cfg_labels c = [] \<and> cache_url_runtime c = [] \<and> (gitea_url c = [] \<or> last (gitea_url c) \<noteq> CHR ''/'')"

lemma load_cache_unlabelled: "unlabelled c \<Longrightarrow> post (load_cache y doc c) unlabelled"
  unfolding load_cache_def
  by (rule post_rbind [OF post_any])
    (auto simp: Let_def split: option.split ynode.split intro!: post_rbind [where Q = unlabelled] post_opt_field,
      simp_all add: unlabelled_def)

lemma parseLabelDef_executor: "CHR '':'' \<notin> set (executor (parseLabelDef raw))"
proof (cases "str_rfind CHR '':'' raw")
  case None
  then show ?thesis by (simp add: parseLabelDef_def)
next
  case (Some i)
  from str_rfind_Some [OF this] Some show ?thesis by (auto simp: parseLabelDef_def)
qed

lemma load_labels_wf:
  assumes "unlabelled c"
  shows "post (load_labels doc c) (\<lambda>c. wf_config (clamp_capacity (default_labels c)))"
proof -
  have ok: "wf_config (clamp_capacity (default_labels (c\<lparr>cfg_labels := map parseLabelDef raws\<rparr>)))" for raws
    using assms by (auto simp: unlabelled_def wf_config_def clamp_capacity_def default_labels_def Let_def parseLabelDef_executor)
  moreover have "c\<lparr>cfg_labels := []\<rparr> = c" using assms by (cases c) (simp add: unlabelled_def)
  ultimately have "wf_config (clamp_capacity (default_labels c))" using ok [of "[]"] by simp
  with ok show ?thesis
    using assms unfolding load_labels_def
    by (intro post_rbind [OF post_any])
      (auto simp: unlabelled_def split: option.split ynode.split intro!: post_rbind [OF post_any])
qed

lemma load_config_node_wf: "load_config_node y doc = Inr cfg \<Longrightarrow> wf_config cfg"
proof -
  note loads = post_rbind [where Q = unlabelled] post_rbind [OF load_labels_wf] load_cache_unlabelled post_opt_field
  have "post (load_config_node y doc) wf_config"
    unfolding load_config_node_def
    by (rule post_rbind [OF post_any], split option.split, intro conjI impI allI, simp, rule post_rbind [OF post_any],
        intro loads)
      (simp_all add: unlabelled_def default_config_def strip_slashes_last)
  then show "load_config_node y doc = Inr cfg \<Longrightarrow> wf_config cfg" by (simp add: post_def)
qed

lemma load_config_node_saved:
  assumes "yaml_ok y" "wf_config cfg"
  shows "load_config_node y (config_node cfg) = Inr cfg"
proof -
  have "strip_slashes (gitea_url cfg) = gitea_url cfg"
    using assms(2) by (intro strip_slashes_id) (simp add: wf_config_def)
  moreover have "cfg\<lparr>cache_url_runtime := []\<rparr> = cfg" using assms(2) by (simp add: wf_config_def)
  moreover have "clamp_capacity (default_labels cfg) = cfg"
    using assms(2) by (simp add: wf_config_def default_labels_def clamp_capacity_def)
  ultimately show ?thesis
    using load_config_node_written [OF assms(1), of cfg] assms(2) by (simp add: wf_config_def)
qed


definition demo_config :: config where
  "demo_config = default_config\<lparr>gitea_url := ''https://gitea.example'', capacity := 4,
     cfg_labels := [\<lparr>label_name = ''haiku:r1'', executor = ''host''\<rparr>]\<rparr>"

definition demo_yaml :: yaml_api where
  "demo_yaml = \<lparr>yaml_load = (\<lambda>_. Inr (config_node demo_config)),
     scalar_int = (\<lambda>s. Some (if s \<noteq> [] \<and> hd s = CHR ''-'' then - int (dec_val (tl s)) else int (dec_val s))),
     scalar_bool = (\<lambda>s. Some (s = ''true''))\<rparr>"

lemma demo_yaml_ok: "yaml_ok demo_yaml"
proof -
  have "hd (nat_to_string n) \<noteq> CHR ''-''" for n
    using nat_to_string_digits [of "hd (nat_to_string n)" n] nat_to_string_not_Nil [of n]
    by (auto simp: is_digit_def ascii_def)
  then show ?thesis
    by (simp add: yaml_ok_def demo_yaml_def int_to_string_def dec_val_nat_to_string nat_to_string_not_Nil)
qed


section \<open>Runner state\<close>

record runner_state =
  rs_token :: string
  rs_uuid :: string
  rs_name :: string
  rs_labels :: "string list"

definition empty_runner_state :: runner_state where
  "empty_runner_state = \<lparr>rs_token = [], rs_uuid = [], rs_name = [], rs_labels = []\<rparr>"

definition runner_state_empty :: "runner_state \<Rightarrow> bool" where
  "runner_state_empty st \<longleftrightarrow> rs_token st = [] \<or> rs_uuid st = []"

text \<open>
  The JSON document of the state file, and what \<^verbatim>\<open>json::value\<close> and \<^verbatim>\<open>get<std::string>\<close> make of it:
  a field of another type is a \<^verbatim>\<open>type_error\<close>.
\<close>

datatype json_doc = JDStr string | JDArr "json_doc list" | JDObj "(string \<times> json_doc) list" | JDOther

fun json_str :: "json_doc \<Rightarrow> string result" where
  "json_str (JDStr s) = Inr s"
| "json_str _ = Inl (Runtime_error ''type must be string'')"

fun json_field :: "json_doc \<Rightarrow> string \<Rightarrow> string result" where
  "json_field (JDObj kvs) k = (case map_of kvs k of None \<Rightarrow> Inr [] | Some v \<Rightarrow> json_str v)"
| "json_field _ k = Inl (Runtime_error ''cannot use value()'')"

fun json_labels :: "json_doc \<Rightarrow> string list result" where
  "json_labels (JDObj kvs) = (case map_of kvs ''labels'' of Some (JDArr ls) \<Rightarrow> rmap json_str ls | _ \<Rightarrow> Inr [])"
| "json_labels _ = Inr []"

definition loadRunnerState :: "(string \<Rightarrow> json_doc result) \<Rightarrow> string \<Rightarrow> (string \<rightharpoonup> string) \<Rightarrow> runner_state result" where
  "loadRunnerState jparse path fs =
     (case fs path of
        None \<Rightarrow> Inr empty_runner_state
      | Some text \<Rightarrow>
          (case jparse text of
             Inl e \<Rightarrow> Inl (Runtime_error (''Failed to parse runner state '' @ quoted path @ '': '' @ what e))
           | Inr j \<Rightarrow>
               rbind (json_field j ''token'') (\<lambda>t.
               rbind (json_field j ''uuid'') (\<lambda>u.
               rbind (json_field j ''name'') (\<lambda>n.
               rbind (json_labels j) (\<lambda>ls.
               Inr \<lparr>rs_token = t, rs_uuid = u, rs_name = n, rs_labels = ls\<rparr>))))))"

definition state_doc :: "runner_state \<Rightarrow> json_doc" where
  "state_doc st = JDObj [(''labels'', JDArr (map JDStr (rs_labels st))), (''name'', JDStr (rs_name st)),
     (''token'', JDStr (rs_token st)), (''uuid'', JDStr (rs_uuid st))]"

text \<open>
  \<^verbatim>\<open>saveRunnerState\<close> writes a temporary file and renames it.  The list of file systems it goes
  through is part of the result, for a crash in between.
\<close>

definition saveRunnerState :: "(json_doc \<Rightarrow> string) \<Rightarrow> (string \<Rightarrow> bool) \<Rightarrow> (string \<Rightarrow> bool) \<Rightarrow> runner_state \<Rightarrow> string
    \<Rightarrow> (string \<rightharpoonup> string) \<Rightarrow> (string \<rightharpoonup> string) list \<times> unit result" where
  "saveRunnerState jdump writable renamable st path fs =
     (let tmp = path @ ''.tmp''
      in if \<not> writable tmp then ([fs], Inl (Runtime_error (''Cannot write runner state to '' @ quoted tmp)))
         else
           let fs0 = fs(tmp \<mapsto> []); fs1 = fs(tmp \<mapsto> jdump (state_doc st) @ [CHR 0x0A])
           in if \<not> renamable tmp
              then ([fs, fs0, fs1], Inl (Runtime_error (''Failed to rename '' @ quoted tmp @ '' to '' @ quoted path)))
              else ([fs, fs0, fs1, fs1(path := fs1 tmp, tmp := None)], Inr ()))"

text \<open>
  The identity survives: after a successful save the state is loaded again unchanged, and at
  every moment before, whatever fails, the state file holds either its old contents or the complete
  new ones, never a part of them.
\<close>

theorem runner_state_roundtrip:
  assumes "\<forall>d. d = state_doc st \<longrightarrow> jparse (jdump d @ [CHR 0x0A]) = Inr d"
    and "saveRunnerState jdump writable renamable st path fs = (states, res)"
  shows "(res = Inr () \<longrightarrow> loadRunnerState jparse path (last states) = Inr st)
    \<and> (\<forall>fs' \<in> set states. fs' path = fs path \<or> loadRunnerState jparse path fs' = Inr st)"
proof -
  have "rmap json_str (map JDStr ls) = Inr ls" for ls by (induction ls) auto
  then have load: "loadRunnerState jparse path f = Inr st" if "f path = Some (jdump (state_doc st) @ [CHR 0x0A])" for f
    using that assms(1) by (simp add: loadRunnerState_def state_doc_def)
  have "path @ ''.tmp'' \<noteq> path" by simp
  with assms(2) load show ?thesis
    by (auto simp: saveRunnerState_def Let_def split: if_splits)
qed

definition demo_state :: runner_state where
  "demo_state = \<lparr>rs_token = ''t'', rs_uuid = ''u'', rs_name = ''n'', rs_labels = [''haiku:host'']\<rparr>"

theorem runner_state_roundtrip_witness:
  "loadRunnerState (\<lambda>_. Inr (state_doc demo_state)) ''.runner''
     (last (fst (saveRunnerState (\<lambda>_. []) (\<lambda>_. True) (\<lambda>_. True) demo_state ''.runner'' Map.empty))) = Inr demo_state"
proof -
  obtain states res where
    s: "saveRunnerState (\<lambda>_. []) (\<lambda>_. True) (\<lambda>_. True) demo_state ''.runner'' Map.empty = (states, res)" by fastforce
  moreover from s have "res = Inr ()" by (auto simp: saveRunnerState_def Let_def)
  ultimately show ?thesis
    using runner_state_roundtrip [of demo_state "\<lambda>_. Inr (state_doc demo_state)" "\<lambda>_. []", OF _ s] by simp
qed

end
