(* ===== verification/Orchestrator.thy ===== *)
theory Orchestrator
  imports Job_Graph Context_Builder Config
begin

text \<open>
  \<^verbatim>\<open>src/src/runner/WorkflowOrchestrator.cpp\<close>: a whole workflow run locally, wave by wave and batch
  by batch.  The threads of a batch only share the client and each writes its own result slot, and
  the batch is joined before the code goes on, so a batch is one function of what its tasks return.
  \<open>execute\<close> stands for \<^verbatim>\<open>TaskExecutor::execute\<close> followed by \<^verbatim>\<open>jobOutputs\<close>: every task carries its own id,
  so a function of the task can describe any behaviour of the executors; \<open>cancelled i\<close> is what the
  check before wave \<open>i\<close> reads from the cancellation flag.
\<close>

section \<open>Results and tasks\<close>

record local_job_result =
  lr_job_id :: string
  lr_success :: bool
  lr_skipped :: bool
  lr_outputs :: "string smap"

record orchestrator_result =
  or_success :: bool
  or_job_results :: "local_job_result list"

definition job_failed :: "local_job_result \<Rightarrow> bool" where
  "job_failed r \<longleftrightarrow> \<not> lr_success r \<and> \<not> lr_skipped r"

definition allSucceeded :: "orchestrator_result \<Rightarrow> bool" where
  "allSucceeded o' = list_all (\<lambda>r. \<not> job_failed r) (or_job_results o')"

definition needs_entry :: "local_job_result \<Rightarrow> needs_context_entry" where
  "needs_entry r = \<lparr>need_outputs = lr_outputs r, need_result = (if lr_success r then 1 else 2)\<rparr>"

definition makeLocalTask ::
    "config \<Rightarrow> string \<Rightarrow> string \<Rightarrow> int \<Rightarrow> string \<Rightarrow> string \<Rightarrow> local_job_result smap \<Rightarrow> task_dto" where
  "makeLocalTask cfg workflow_yaml jid task_id event_name event_payload_json completed_jobs =
     empty_task\<lparr>td_id := task_id, td_machine := jid, workflow_payload := workflow_yaml,
       td_timeout := fetch_timeout cfg,
       td_context :=
         [(''event_name'', event_name)]
         @ (if event_payload_json \<noteq> [] then [(''event'', event_payload_json)] else [])
         @ [(''run_id'', int_to_string task_id), (''run_number'', ''1''), (''actor'', cfg_name cfg),
            (''server_url'', gitea_url cfg)],
       needs_context := map (\<lambda>(dep_id, r). (dep_id, needs_entry r)) completed_jobs\<rparr>"

section \<open>One wave\<close>

fun wave_settings :: "job smap \<Rightarrow> string list \<Rightarrow> bool \<times> int \<Rightarrow> bool \<times> int" where
  "wave_settings jobs [] s = s"
| "wave_settings jobs (k # ks) (ff, mp) =
     wave_settings jobs ks
       (case omap_get jobs k of
          None \<Rightarrow> (ff, mp)
        | Some j \<Rightarrow> (if job_fail_fast j then ff else False,
                    if 0 < job_max_parallel j \<and> (mp = 0 \<or> job_max_parallel j < mp) then job_max_parallel j else mp))"

text \<open>What is passed to every job of a run.\<close>

record run_params =
  rp_cfg :: config
  rp_jobs :: "job smap"
  rp_yaml :: string
  rp_event_name :: string
  rp_event_payload :: string
  rp_execute :: "task_dto \<Rightarrow> (bool \<times> (string \<times> string) list) result"
  rp_cancelled :: "nat \<Rightarrow> bool"

text \<open>The body of a job thread: an exception out of the executor is a failure without outputs.\<close>

definition run_job :: "run_params \<Rightarrow> string \<Rightarrow> task_dto \<Rightarrow> local_job_result" where
  "run_job rp jid task =
     (case rp_execute rp task of
        Inr (ok, outs) \<Rightarrow> \<lparr>lr_job_id = jid, lr_success = ok, lr_skipped = False,
                          lr_outputs = fold (\<lambda>(k, v). omap_set k v) outs []\<rparr>
      | Inl _ \<Rightarrow> \<lparr>lr_job_id = jid, lr_success = False, lr_skipped = False, lr_outputs = []\<rparr>)"

text \<open>
  One batch: the tasks get the next ids of the sequence and the results of the finished waves.
\<close>

fun run_batch :: "run_params \<Rightarrow> local_job_result smap \<Rightarrow> int \<Rightarrow> string list \<Rightarrow> local_job_result list \<times> int" where
  "run_batch rp completed sq [] = ([], sq)"
| "run_batch rp completed sq (k # ks) =
     (if omap_has (rp_jobs rp) k then
        (let task = makeLocalTask (rp_cfg rp) (rp_yaml rp) k sq (rp_event_name rp) (rp_event_payload rp) completed;
             (rs, sq') = run_batch rp completed (sq + 1) ks
         in (run_job rp k task # rs, sq'))
      else
        (let (rs, sq') = run_batch rp completed sq ks
         in (\<lparr>lr_job_id = k, lr_success = False, lr_skipped = True, lr_outputs = []\<rparr> # rs, sq')))"

function chunks :: "nat \<Rightarrow> 'a list \<Rightarrow> 'a list list" where
  "chunks n xs = (if xs = [] \<or> n = 0 then [] else take n xs # chunks n (drop n xs))"
  by pat_completeness auto

termination
  by (relation "measure (\<lambda>(n, xs). length xs)") auto

declare chunks.simps [simp del]

fun run_batches :: "run_params \<Rightarrow> local_job_result smap \<Rightarrow> int \<Rightarrow> string list list \<Rightarrow> local_job_result list \<times> int" where
  "run_batches rp completed sq [] = ([], sq)"
| "run_batches rp completed sq (b # bs) =
     (let (rs, sq1) = run_batch rp completed sq b; (rs', sq2) = run_batches rp completed sq1 bs
      in (rs @ rs', sq2))"

definition wave_batches :: "job smap \<Rightarrow> string list \<Rightarrow> string list list" where
  "wave_batches jobs wave =
     (let mp = snd (wave_settings jobs wave (True, 0))
      in chunks (if 0 < mp then nat mp else length wave) wave)"

section \<open>The run\<close>

text \<open>The local variables of \<^verbatim>\<open>run\<close>, with the batches dispatched so far.\<close>

record run_state =
  st_completed :: "local_job_result smap"
  st_results :: "local_job_result list"
  st_success :: bool
  st_seq :: int
  st_batches :: "string list list"

definition run_wave :: "run_params \<Rightarrow> string list \<Rightarrow> run_state \<Rightarrow> run_state \<times> bool" where
  "run_wave rp wave st =
     (let bs = wave_batches (rp_jobs rp) wave;
          (rs, sq) = run_batches rp (st_completed st) (st_seq st) bs
      in (st\<lparr>st_completed := fold (\<lambda>r. omap_set (lr_job_id r) r) rs (st_completed st),
             st_results := st_results st @ rs, st_seq := sq, st_batches := st_batches st @ bs\<rparr>,
          list_ex job_failed rs))"

fun run_waves :: "run_params \<Rightarrow> nat \<Rightarrow> string list list \<Rightarrow> run_state \<Rightarrow> run_state" where
  "run_waves rp i [] st = st"
| "run_waves rp i (wave # waves) st =
     (if wave = [] then run_waves rp (Suc i) waves st
      else if rp_cancelled rp i then st\<lparr>st_success := False\<rparr>
      else
        (let (st', wave_failed) = run_wave rp wave st
         in if wave_failed then
              (if fst (wave_settings (rp_jobs rp) wave (True, 0)) then st'\<lparr>st_success := False\<rparr>
               else run_waves rp (Suc i) waves (st'\<lparr>st_success := False\<rparr>))
            else run_waves rp (Suc i) waves st'))"

definition orch_run :: "(string list \<Rightarrow> string list) \<Rightarrow> run_params \<Rightarrow> int \<Rightarrow> (orchestrator_result \<times> string list list) result" where
  "orch_run umap_order rp task_id_seq =
     (if rp_jobs rp = [] then Inr (\<lparr>or_success = True, or_job_results = []\<rparr>, [])
      else case topologicalJobOrder umap_order (rp_jobs rp) of
        Inl _ \<Rightarrow> Inr (\<lparr>or_success = False, or_job_results = []\<rparr>, [])
      | Inr ord \<Rightarrow>
          if has_cycle ord then Inr (\<lparr>or_success = False, or_job_results = []\<rparr>, [])
          else case waveSchedule (rp_jobs rp) (jo_order ord) of
            Inl e \<Rightarrow> Inl e
          | Inr waves \<Rightarrow>
              (let st = run_waves rp 0 waves \<lparr>st_completed = [], st_results = [], st_success = True,
                          st_seq = task_id_seq, st_batches = []\<rparr>;
                   overall = \<lparr>or_success = st_success st, or_job_results = st_results st\<rparr>
               in Inr (if or_success overall then overall\<lparr>or_success := allSucceeded overall\<rparr> else overall,
                       st_batches st)))"

section \<open>Batches\<close>

lemma chunks_Nil [simp]: "chunks n [] = []"
  by (simp add: chunks.simps)

lemma concat_chunks: "0 < n \<Longrightarrow> concat (chunks n xs) = xs"
  by (induction n xs rule: chunks.induct) (subst chunks.simps, simp)

lemma chunks_size: "b \<in> set (chunks n xs) \<Longrightarrow> length b \<le> n"
proof (induction n xs rule: chunks.induct)
  case (1 n xs)
  show ?case
  proof (cases "xs = [] \<or> n = 0")
    case True
    with 1(2) show ?thesis by (auto simp: chunks.simps)
  next
    case False
    with 1(2) have "b = take n xs \<or> b \<in> set (chunks n (drop n xs))" by (simp add: chunks.simps [of n xs])
    with 1(1) [OF False] show ?thesis by auto
  qed
qed

lemma wave_settings_max:
  "0 \<le> mp \<Longrightarrow> wave_settings jobs ks (ff, mp) = (ff', mp') \<Longrightarrow>
     0 \<le> mp' \<and> (0 < mp \<longrightarrow> 0 < mp' \<and> mp' \<le> mp)
     \<and> (\<forall>k \<in> set ks. \<forall>j. omap_get jobs k = Some j \<and> 0 < job_max_parallel j \<longrightarrow> 0 < mp' \<and> mp' \<le> job_max_parallel j)"
proof (induction ks arbitrary: ff mp)
  case (Cons k ks)
  show ?case
  proof (cases "omap_get jobs k")
    case None
    with Cons show ?thesis by fastforce
  next
    case (Some j)
    let ?mp = "if 0 < job_max_parallel j \<and> (mp = 0 \<or> job_max_parallel j < mp) then job_max_parallel j else mp"
    have "wave_settings jobs ks (if job_fail_fast j then ff else False, ?mp) = (ff', mp')"
      using Cons.prems(2) Some by simp
    moreover have "0 \<le> ?mp" using Cons.prems(1) by simp
    ultimately have "0 \<le> mp' \<and> (0 < ?mp \<longrightarrow> 0 < mp' \<and> mp' \<le> ?mp)"
      and rest: "\<forall>k \<in> set ks. \<forall>j. omap_get jobs k = Some j \<and> 0 < job_max_parallel j \<longrightarrow> 0 < mp' \<and> mp' \<le> job_max_parallel j"
      using Cons.IH by blast+
    then have "0 \<le> mp'" "0 < mp \<Longrightarrow> 0 < mp' \<and> mp' \<le> mp"
      "0 < job_max_parallel j \<Longrightarrow> 0 < mp' \<and> mp' \<le> job_max_parallel j"
      using Cons.prems(1) by (auto split: if_splits)
    with rest Some show ?thesis by auto
  qed
qed auto

lemma concat_wave_batches: "concat (wave_batches jobs wave) = wave"
  by (cases "wave = []") (simp_all add: wave_batches_def Let_def concat_chunks)

lemma wave_batches_size:
  assumes "b \<in> set (wave_batches jobs wave)" "k \<in> set b" "omap_get jobs k = Some j" "0 < job_max_parallel j"
  shows "int (length b) \<le> job_max_parallel j"
proof -
  obtain ff mp where s: "wave_settings jobs wave (True, 0) = (ff, mp)" by fastforce
  have "k \<in> set wave" using assms(1,2) concat_wave_batches [of jobs wave] by (metis UN_I set_concat)
  then have mp: "0 < mp" "mp \<le> job_max_parallel j"
    using wave_settings_max [OF _ s] assms(3,4) by auto
  have "length b \<le> nat mp"
    using assms(1) mp(1) s by (auto simp: wave_batches_def Let_def dest: chunks_size)
  with mp show ?thesis by linarith
qed

lemma run_job_simps [simp]: "lr_job_id (run_job rp k t) = k" "\<not> lr_skipped (run_job rp k t)"
  by (auto simp: run_job_def split: sum.split)

lemma run_batch_ids: "map lr_job_id (fst (run_batch rp completed sq ks)) = ks"
  by (induction ks arbitrary: sq) (auto simp: Let_def case_prod_beta)

lemma run_batch_skipped:
  "r \<in> set (fst (run_batch rp completed sq ks)) \<Longrightarrow> lr_skipped r \<Longrightarrow> \<not> omap_has (rp_jobs rp) (lr_job_id r)"
  by (induction ks arbitrary: sq) (auto simp: Let_def case_prod_beta split: if_splits)

lemma run_batches_ids: "map lr_job_id (fst (run_batches rp completed sq bs)) = concat bs"
  by (induction bs arbitrary: sq) (simp_all add: Let_def case_prod_beta run_batch_ids)

lemma run_batches_skipped:
  "r \<in> set (fst (run_batches rp completed sq bs)) \<Longrightarrow> lr_skipped r \<Longrightarrow> \<not> omap_has (rp_jobs rp) (lr_job_id r)"
  by (induction bs arbitrary: sq) (auto simp: Let_def case_prod_beta dest: run_batch_skipped)

lemma run_waves_result:
  "\<exists>n rs. st_batches (run_waves rp i waves st) = st_batches st @ concat (map (wave_batches (rp_jobs rp)) (take n waves))
     \<and> st_results (run_waves rp i waves st) = st_results st @ rs
     \<and> map lr_job_id rs = concat (take n waves)
     \<and> (\<forall>r \<in> set rs. lr_skipped r \<longrightarrow> \<not> omap_has (rp_jobs rp) (lr_job_id r))
     \<and> (st_success (run_waves rp i waves st) \<longrightarrow>
          st_success st \<and> take n waves = waves \<and> (\<forall>r \<in> set rs. \<not> job_failed r))"
    (is "?P i waves st")
proof (induction waves arbitrary: i st)
  case Nil
  show ?case by simp
next
  case (Cons wave waves)
  obtain st' wf where rw: "run_wave rp wave st = (st', wf)" by fastforce
  define rs where "rs = fst (run_batches rp (st_completed st) (st_seq st) (wave_batches (rp_jobs rp) wave))"
  have st': "st_batches st' = st_batches st @ wave_batches (rp_jobs rp) wave" "st_results st' = st_results st @ rs"
    "st_success st' = st_success st" "wf = list_ex job_failed rs"
    using rw by (auto simp: run_wave_def rs_def Let_def case_prod_beta)
  have ids: "map lr_job_id rs = wave" "\<forall>r \<in> set rs. lr_skipped r \<longrightarrow> \<not> omap_has (rp_jobs rp) (lr_job_id r)"
    unfolding rs_def by (auto simp: run_batches_ids concat_wave_batches dest: run_batches_skipped)
  have go: "?P i (wave # waves) st"
    if "run_waves rp i (wave # waves) st = run_waves rp (Suc i) waves (st'\<lparr>st_success := b\<rparr>)"
      "b \<longrightarrow> st_success st \<and> (\<forall>r \<in> set rs. \<not> job_failed r)" for b
  proof -
    let ?st = "st'\<lparr>st_success := b\<rparr>"
    have "?P (Suc i) waves ?st" by (rule Cons.IH)
    then obtain n rs' where
      "st_batches (run_waves rp (Suc i) waves ?st) = st_batches ?st @ concat (map (wave_batches (rp_jobs rp)) (take n waves))"
      "st_results (run_waves rp (Suc i) waves ?st) = st_results ?st @ rs'" "map lr_job_id rs' = concat (take n waves)"
      "\<forall>r \<in> set rs'. lr_skipped r \<longrightarrow> \<not> omap_has (rp_jobs rp) (lr_job_id r)"
      "st_success (run_waves rp (Suc i) waves ?st) \<longrightarrow>
         st_success ?st \<and> take n waves = waves \<and> (\<forall>r \<in> set rs'. \<not> job_failed r)"
      by blast
    with st' ids that(2) show ?thesis
      unfolding that(1) by (intro exI [of _ "Suc n"] exI [of _ "rs @ rs'"]) auto
  qed
  consider "wave = []" | "wave \<noteq> []" "rp_cancelled rp i"
    | "wave \<noteq> []" "\<not> rp_cancelled rp i" "wf" "fst (wave_settings (rp_jobs rp) wave (True, 0))"
    | "wave \<noteq> []" "\<not> rp_cancelled rp i" "wf" "\<not> fst (wave_settings (rp_jobs rp) wave (True, 0))"
    | "wave \<noteq> []" "\<not> rp_cancelled rp i" "\<not> wf" by blast
  then show ?case
  proof cases
    case 1
    have "?P (Suc i) waves st" by (rule Cons.IH)
    with 1 show ?thesis by (elim exE) (rule_tac x = "Suc n" in exI, auto simp: wave_batches_def)
  next
    case 2
    then show ?thesis by (intro exI [of _ 0] exI [of _ "[]"]) simp
  next
    case 3
    with rw st' ids show ?thesis by (intro exI [of _ 1] exI [of _ rs]) simp
  next
    case 4
    with rw go [of False] show ?thesis by simp
  next
    case 5
    moreover have "st'\<lparr>st_success := st_success st\<rparr> = st'" using st'(3) by (cases st') simp
    ultimately show ?thesis using rw st'(4) by (intro go [of "st_success st"]) (simp_all add: list_ex_iff)
  qed
qed

section \<open>Dependencies come first\<close>

text \<open>Everything a job of a batch depends on was in an earlier batch.\<close>

definition deps_before :: "('a \<Rightarrow> 'a list) \<Rightarrow> 'a list list \<Rightarrow> bool" where
  "deps_before nd bs \<longleftrightarrow> (\<forall>i < length bs. \<forall>k \<in> set (bs ! i). set (nd k) \<subseteq> set (concat (take i bs)))"

lemma deps_before_append:
  assumes "deps_before nd xs" "\<And>b k. b \<in> set ys \<Longrightarrow> k \<in> set b \<Longrightarrow> set (nd k) \<subseteq> set (concat xs)"
  shows "deps_before nd (xs @ ys)"
proof -
  have "set (nd k) \<subseteq> set (concat (take i (xs @ ys)))" if i: "i < length (xs @ ys)" and k: "k \<in> set ((xs @ ys) ! i)" for i k
  proof (cases "i < length xs")
    case True
    with assms(1) k show ?thesis by (simp add: deps_before_def nth_append)
  next
    case False
    then have "(xs @ ys) ! i \<in> set ys" using i by (simp add: nth_append)
    from assms(2) [OF this k] False show ?thesis by auto
  qed
  then show ?thesis by (auto simp: deps_before_def)
qed

lemma deps_before_take: "deps_before nd ws \<Longrightarrow> deps_before nd (take n ws)"
  by (auto simp: deps_before_def min_def)

lemma deps_before_refine:
  assumes "deps_before nd ws" "\<And>w. concat (f w) = w"
  shows "deps_before nd (concat (map f ws))"
  using assms(1)
proof (induction ws rule: rev_induct)
  case Nil
  then show ?case by (simp add: deps_before_def)
next
  case (snoc w ws)
  have c: "concat (concat (map f ws)) = concat ws"
    by (induction ws) (simp_all add: assms(2))
  have "deps_before nd ws" using deps_before_take [OF snoc.prems, of "length ws"] by simp
  moreover have "set (nd k) \<subseteq> set (concat ws)" if "b \<in> set (f w)" "k \<in> set b" for b k
  proof -
    have "k \<in> set w" using that assms(2) [of w] by (metis UN_I set_concat)
    then show ?thesis using snoc.prems by (force simp: deps_before_def nth_append dest: spec [of _ "length ws"])
  qed
  ultimately show ?case using snoc.IH c by (simp add: deps_before_append)
qed

lemma set_concat_take_waves:
  assumes "mset (concat waves) = mset (map fst jobs)"
  shows "set (concat (take n waves)) \<subseteq> fst ` set jobs"
proof -
  have "set (concat waves) = fst ` set jobs"
    using arg_cong [OF assms, of set_mset] by simp
  moreover have "set (concat (take n waves)) \<subseteq> set (concat waves)" by (auto dest: in_set_takeD)
  ultimately show ?thesis by blast
qed

lemma orch_runE:
  assumes ok: "omap_ok (rp_jobs rp)" and perm: "permuting umap_order"
    and r: "orch_run umap_order rp sq = Inr (res, bs)"
  obtains (not_run) "or_job_results res = []" "bs = []" "or_success res \<longleftrightarrow> rp_jobs rp = []"
  | (run) waves n where "deps_before (needs_of (rp_jobs rp)) waves"
      "mset (concat waves) = mset (map fst (rp_jobs rp))"
      "bs = concat (map (wave_batches (rp_jobs rp)) (take n waves))"
      "map lr_job_id (or_job_results res) = concat (take n waves)"
      "\<forall>r \<in> set (or_job_results res). \<not> lr_skipped r"
      "or_success res \<longrightarrow> take n waves = waves \<and> (\<forall>r \<in> set (or_job_results res). lr_success r)"
proof (cases "rp_jobs rp = [] \<or> (\<forall>o'. topologicalJobOrder umap_order (rp_jobs rp) = Inr o' \<longrightarrow> has_cycle o')")
  case True
  with r show thesis
    by (intro not_run) (auto simp: orch_run_def split: if_splits sum.splits)
next
  case False
  then obtain ord where ord: "topologicalJobOrder umap_order (rp_jobs rp) = Inr ord" "\<not> has_cycle ord" by blast
  from topologicalJobOrder_spec [OF ok perm ord(1)] ord(2)
  have topo: "topo_ordered (rp_jobs rp) (jo_order ord)" "set (jo_order ord) = fst ` set (rp_jobs rp)" by auto
  from waveSchedule_spec [OF topo(1)] obtain waves where
    ws: "waveSchedule (rp_jobs rp) (jo_order ord) = Inr waves" "mset (concat waves) = mset (jo_order ord)"
    "\<forall>w < length waves. \<forall>k \<in> set (waves ! w). \<forall>n \<in> set (needs_of (rp_jobs rp) k). \<exists>v < w. n \<in> set (waves ! v)"
    by blast
  have "distinct (jo_order ord)" using topo(1) by (simp add: topo_ordered_def)
  then have ms: "mset (concat waves) = mset (map fst (rp_jobs rp))"
    using ws(2) topo(2) omap_ok_distinct [OF ok] by (metis set_eq_iff_mset_eq_distinct list.set_map)
  have deps: "deps_before (needs_of (rp_jobs rp)) waves"
    unfolding deps_before_def
  proof clarify
    fix i k m
    assume i: "i < length waves" "k \<in> set (waves ! i)" "m \<in> set (needs_of (rp_jobs rp) k)"
    then obtain v where v: "v < i" "m \<in> set (waves ! v)" using ws(3) by blast
    then have "take i waves ! v = waves ! v" "v < length (take i waves)" using i(1) by auto
    then have "waves ! v \<in> set (take i waves)" by (metis nth_mem)
    with v(2) show "m \<in> set (concat (take i waves))" by auto
  qed
  define st where "st = run_waves rp 0 waves \<lparr>st_completed = [], st_results = [], st_success = True, st_seq = sq, st_batches = []\<rparr>"
  from run_waves_result [of rp 0 waves "\<lparr>st_completed = [], st_results = [], st_success = True, st_seq = sq, st_batches = []\<rparr>"]
  obtain n rs where st: "st_batches st = concat (map (wave_batches (rp_jobs rp)) (take n waves))" "st_results st = rs"
    "map lr_job_id rs = concat (take n waves)" "\<forall>r \<in> set rs. lr_skipped r \<longrightarrow> \<not> omap_has (rp_jobs rp) (lr_job_id r)"
    "st_success st \<longrightarrow> take n waves = waves \<and> (\<forall>r \<in> set rs. \<not> job_failed r)"
    unfolding st_def [symmetric] by auto
  have "lr_job_id ` set rs \<subseteq> fst ` set (rp_jobs rp)"
    using arg_cong [OF st(3), of set] set_concat_take_waves [OF ms] by simp
  then have sk: "\<forall>r \<in> set rs. \<not> lr_skipped r" using st(4) by (auto simp: omap_has_iff)
  have "or_job_results res = rs" "bs = st_batches st" "or_success res \<longrightarrow> st_success st"
    using r ord ws(1) False st(2) by (auto simp: orch_run_def Let_def st_def split: if_splits)
  with st sk show thesis by (intro run [OF deps ms, of n]) (auto simp: job_failed_def)
qed

text \<open>
  C3. Whatever the jobs do and whenever the run is cancelled, every dispatched batch consists of jobs of
  the workflow whose needs all belong to earlier batches, which were joined before; no job runs
  twice; no batch is larger than the \<^verbatim>\<open>max-parallel\<close> of any of its jobs; and the reported results are
  those of the dispatched jobs, in order.
\<close>

theorem orch_run_order:
  assumes ok: "omap_ok (rp_jobs rp)" and perm: "permuting umap_order"
    and r: "orch_run umap_order rp sq = Inr (res, bs)"
  shows "distinct (concat bs) \<and> set (concat bs) \<subseteq> fst ` set (rp_jobs rp)
    \<and> (\<forall>i < length bs. \<forall>k \<in> set (bs ! i). set (needs_of (rp_jobs rp) k) \<subseteq> set (concat (take i bs)))
    \<and> (\<forall>b \<in> set bs. \<forall>k \<in> set b. \<forall>j. omap_get (rp_jobs rp) k = Some j \<and> 0 < job_max_parallel j
         \<longrightarrow> int (length b) \<le> job_max_parallel j)
    \<and> map lr_job_id (or_job_results res) = concat bs"
  using ok perm r
proof (cases rule: orch_runE)
  case not_run
  then show ?thesis by simp
next
  case (run waves n)
  have c: "concat (concat (map (wave_batches (rp_jobs rp)) ws)) = concat ws" for ws
    by (induction ws) (simp_all add: concat_wave_batches)
  have "distinct (concat waves)"
    using run(2) omap_ok_distinct [OF ok] by (metis mset_eq_imp_distinct_iff)
  then have "distinct (concat (take n waves) @ concat (drop n waves))"
    by (metis append_take_drop_id concat_append)
  moreover have "set (concat (take n waves)) \<subseteq> fst ` set (rp_jobs rp)"
    by (rule set_concat_take_waves [OF run(2)])
  moreover have "deps_before (needs_of (rp_jobs rp)) bs"
    unfolding run(3) by (intro deps_before_refine deps_before_take run(1) concat_wave_batches)
  ultimately show ?thesis
    using run(4) c [of "take n waves"] unfolding deps_before_def run(3)
    by (auto intro: wave_batches_size)
qed

definition demo_params :: "(task_dto \<Rightarrow> (bool \<times> (string \<times> string) list) result) \<Rightarrow> run_params" where
  "demo_params ex = \<lparr>rp_cfg = default_config,
     rp_jobs = [(''a'', default_job\<lparr>job_fail_fast := False\<rparr>), (''b'', default_job\<lparr>job_needs := [''a'']\<rparr>)],
     rp_yaml = [], rp_event_name = ''push'', rp_event_payload = [], rp_execute = ex, rp_cancelled = (\<lambda>_. False)\<rparr>"

lemma demo_params_run:
  "orch_run (\<lambda>ks. ks) (demo_params (\<lambda>_. Inr (False, []))) 1 =
     Inr (\<lparr>or_success = False, or_job_results =
       [\<lparr>lr_job_id = ''a'', lr_success = False, lr_skipped = False, lr_outputs = []\<rparr>,
        \<lparr>lr_job_id = ''b'', lr_success = False, lr_skipped = False, lr_outputs = []\<rparr>]\<rparr>, [[''a''], [''b'']])"
  by code_simp

lemma demo_params_ok: "omap_ok (rp_jobs (demo_params ex))" "permuting (\<lambda>ks. ks)"
  by (simp_all add: demo_params_def omap_ok_def permuting_def)

theorem orch_run_order_witness: "set (needs_of (rp_jobs (demo_params (\<lambda>_. Inr (False, [])))) ''b'') \<subseteq> {''a''}"
  using orch_run_order [OF demo_params_ok demo_params_run] by (auto simp: less_Suc_eq)

section \<open>The verdict\<close>

lemma run_batch_all_ok:
  assumes "\<forall>t. \<exists>outs. rp_execute rp t = Inr (True, outs)"
  shows "\<forall>r \<in> set (fst (run_batch rp completed sq ks)). \<not> job_failed r"
proof -
  have "\<not> job_failed (run_job rp k t)" for k t
    using assms by (auto simp: run_job_def job_failed_def split: sum.split dest: spec [of _ t])
  then show ?thesis
    by (induction ks arbitrary: sq) (auto simp: Let_def case_prod_beta job_failed_def)
qed

lemma run_waves_all_ok:
  assumes "\<forall>t. \<exists>outs. rp_execute rp t = Inr (True, outs)" "\<forall>i. \<not> rp_cancelled rp i" "st_success st"
  shows "st_success (run_waves rp i waves st)"
  using assms(3)
proof (induction waves arbitrary: i st)
  case (Cons wave waves)
  have "\<forall>r \<in> set (fst (run_batches rp completed sq bs)). \<not> job_failed r" for completed sq bs
    using run_batch_all_ok [OF assms(1)]
    by (induction bs arbitrary: sq) (auto simp: Let_def case_prod_beta)
  then have "\<not> snd (run_wave rp wave st)" "st_success (fst (run_wave rp wave st))"
    using Cons.prems by (auto simp: run_wave_def Let_def case_prod_beta list_ex_iff)
  with Cons assms(2) show ?case by (auto simp: Let_def case_prod_beta)
qed simp

lemma orch_run_all_ok_success:
  assumes ok: "omap_ok (rp_jobs rp)" and perm: "permuting umap_order"
    and nd: "needs_defined (rp_jobs rp)" and ac: "acyclic (needs_rel (rp_jobs rp))"
    and nc: "\<forall>i. \<not> rp_cancelled rp i" and ex: "\<forall>t. \<exists>outs. rp_execute rp t = Inr (True, outs)"
    and r: "orch_run umap_order rp sq = Inr (res, bs)"
  shows "or_success res"
proof -
  obtain o' where o': "topologicalJobOrder umap_order (rp_jobs rp) = Inr o'"
    using nd topologicalJobOrder_total by blast
  from topologicalJobOrder_spec [OF ok perm o'] ac
  have "\<not> has_cycle o'" "topo_ordered (rp_jobs rp) (jo_order o')" by blast+
  moreover from waveSchedule_spec [OF this(2)] obtain waves where
    "waveSchedule (rp_jobs rp) (jo_order o') = Inr waves" by blast
  moreover define st where "st = run_waves rp 0 waves \<lparr>st_completed = [], st_results = [], st_success = True, st_seq = sq, st_batches = []\<rparr>"
  moreover have "st_success st" unfolding st_def by (rule run_waves_all_ok [OF ex nc]) simp
  moreover from this have "\<forall>r \<in> set (st_results st). \<not> job_failed r"
    using run_waves_result [of rp 0 waves "\<lparr>st_completed = [], st_results = [], st_success = True, st_seq = sq, st_batches = []\<rparr>"]
    unfolding st_def [symmetric] by auto
  ultimately show ?thesis
    using r o' by (auto simp: orch_run_def Let_def allSucceeded_def list_all_iff split: if_splits)
qed

lemma orch_run_returns:
  assumes ok: "omap_ok (rp_jobs rp)" and perm: "permuting umap_order"
  obtains res bs where "orch_run umap_order rp sq = Inr (res, bs)"
  using topologicalJobOrder_spec [OF ok perm] waveSchedule_spec [of "rp_jobs rp"]
  by (fastforce simp: orch_run_def Let_def split: sum.splits if_splits)

lemma orch_run_all_ok:
  assumes "omap_ok (rp_jobs rp)" "permuting umap_order" "needs_defined (rp_jobs rp)" "acyclic (needs_rel (rp_jobs rp))"
    "\<forall>i. \<not> rp_cancelled rp i" "\<forall>t. \<exists>outs. rp_execute rp t = Inr (True, outs)"
  shows "\<exists>res bs. orch_run umap_order rp sq = Inr (res, bs) \<and> or_success res
    \<and> mset (concat bs) = mset (map fst (rp_jobs rp)) \<and> map lr_job_id (or_job_results res) = concat bs"
proof -
  obtain res bs where r: "orch_run umap_order rp sq = Inr (res, bs)" using orch_run_returns [OF assms(1,2)] .
  have s: "or_success res" by (rule orch_run_all_ok_success [OF assms r])
  have c: "concat (concat (map (wave_batches jobs) ws)) = concat ws" for jobs ws
    by (induction ws) (simp_all add: concat_wave_batches)
  from assms(1,2) r have "mset (concat bs) = mset (map fst (rp_jobs rp)) \<and> map lr_job_id (or_job_results res) = concat bs"
    by (cases rule: orch_runE) (use s c in auto)
  with r s show ?thesis by blast
qed

text \<open>
  C17. The run always returns, and its verdict is sound and complete: success means that every job of
  the workflow was executed and succeeded; and a workflow with defined, acyclic needs that is not
  cancelled and whose jobs all succeed is reported as a success.
\<close>

theorem orch_run_success:
  assumes ok: "omap_ok (rp_jobs rp)" and perm: "permuting umap_order"
  shows "\<exists>res bs. orch_run umap_order rp sq = Inr (res, bs)
    \<and> (or_success res \<longrightarrow> mset (map lr_job_id (or_job_results res)) = mset (map fst (rp_jobs rp))
         \<and> (\<forall>r \<in> set (or_job_results res). lr_success r \<and> \<not> lr_skipped r))
    \<and> (needs_defined (rp_jobs rp) \<and> acyclic (needs_rel (rp_jobs rp)) \<and> (\<forall>i. \<not> rp_cancelled rp i)
         \<and> (\<forall>t. \<exists>outs. rp_execute rp t = Inr (True, outs)) \<longrightarrow> or_success res)"
proof -
  obtain res bs where r: "orch_run umap_order rp sq = Inr (res, bs)" using orch_run_returns [OF ok perm] .
  have "or_success res \<longrightarrow> mset (map lr_job_id (or_job_results res)) = mset (map fst (rp_jobs rp))
         \<and> (\<forall>r \<in> set (or_job_results res). lr_success r \<and> \<not> lr_skipped r)"
    using ok perm r by (cases rule: orch_runE) auto
  moreover have "or_success res" if "needs_defined (rp_jobs rp)" "acyclic (needs_rel (rp_jobs rp))"
    "\<forall>i. \<not> rp_cancelled rp i" "\<forall>t. \<exists>outs. rp_execute rp t = Inr (True, outs)"
    by (rule orch_run_all_ok_success [OF ok perm that r])
  ultimately show ?thesis using r by blast
qed

theorem orch_run_success_witness:
  "\<exists>res bs. orch_run (\<lambda>ks. ks) (demo_params (\<lambda>_. Inr (True, []))) 1 = Inr (res, bs)
     \<and> or_success res \<and> mset (map lr_job_id (or_job_results res)) = {#''a'', ''b''#}"
proof -
  let ?p = "demo_params (\<lambda>_. Inr (True, []))"
  have "needs_rel (rp_jobs ?p) \<subseteq> {(''a'', ''b'')}"
    by (auto simp: needs_rel_def needs_of_def demo_params_def default_job_def omap_get_def split: if_splits)
  moreover have "acyclic {(''a'', ''b'')}" by (simp add: acyclic_def trancl_insert)
  ultimately have "acyclic (needs_rel (rp_jobs ?p))" by (rule acyclic_subset [rotated])
  moreover have "needs_defined (rp_jobs ?p)" by (simp add: needs_defined_def demo_params_def default_job_def)
  ultimately show ?thesis
    using orch_run_success [OF demo_params_ok, of "\<lambda>_. Inr (True, [])" 1] by (auto simp: demo_params_def)
qed

text \<open>
  With \<^verbatim>\<open>fail-fast: false\<close> on a job, the jobs that need it are dispatched whatever its result: here
  \<open>b\<close> needs \<open>a\<close>, and both run even when \<open>a\<close> fails.
\<close>

theorem failed_need_does_not_block:
  "\<exists>res. orch_run (\<lambda>ks. ks) (demo_params ex) 1 = Inr (res, [[''a''], [''b'']])"
proof -
  have t: "topologicalJobOrder (\<lambda>ks. ks) (rp_jobs (demo_params (\<lambda>_. Inr (True, [])))) =
      Inr \<lparr>jo_order = [''a'', ''b''], has_cycle = False, cycle_description = []\<rparr>" by code_simp
  have w: "waveSchedule (rp_jobs (demo_params (\<lambda>_. Inr (True, [])))) [''a'', ''b''] = Inr [[''a''], [''b'']]" by code_simp
  have b: "wave_settings (rp_jobs (demo_params (\<lambda>_. Inr (True, [])))) [''a''] (True, 0) = (False, 0)"
    "wave_batches (rp_jobs (demo_params (\<lambda>_. Inr (True, [])))) [''a''] = [[''a'']]"
    "wave_batches (rp_jobs (demo_params (\<lambda>_. Inr (True, [])))) [''b''] = [[''b'']]" by code_simp+
  have j: "rp_jobs (demo_params ex) = rp_jobs (demo_params (\<lambda>_. Inr (True, [])))" "rp_jobs (demo_params ex) \<noteq> []"
    by (simp_all add: demo_params_def)
  have "\<not> rp_cancelled (demo_params ex) i" for i by (simp add: demo_params_def)
  then show ?thesis using t w b j
    by (auto simp: orch_run_def Let_def run_wave_def case_prod_beta)
qed

section \<open>Cancellation\<close>

text \<open>
  The executors are objects on the stacks of the job threads.  \<open>orc_live\<close> are the addresses of the
  objects that exist, \<open>orc_active\<close> the pointers of \<^verbatim>\<open>active_executors_\<close>, \<open>orc_stopped\<close> the executors whose
  \<^verbatim>\<open>cancel\<close> was called, and \<open>orc_loops\<close> counts the calls of \<^verbatim>\<open>WorkflowOrchestrator::cancel\<close> that have set
  the flag and wait for the lock.
\<close>

record orc_state =
  orc_cancelled :: bool
  orc_active :: "nat list"
  orc_stopped :: "nat set"
  orc_live :: "nat set"
  orc_loops :: nat

definition orc_init :: orc_state where
  "orc_init = \<lparr>orc_cancelled = False, orc_active = [], orc_stopped = {}, orc_live = {}, orc_loops = 0\<rparr>"

definition orc_cancel_executors :: "orc_state \<Rightarrow> orc_state" where
  "orc_cancel_executors st = st\<lparr>orc_stopped := orc_stopped st \<union> set (orc_active st), orc_loops := orc_loops st - 1\<rparr>"

definition registerExecutor :: "nat \<Rightarrow> orc_state \<Rightarrow> orc_state" where
  "registerExecutor ex st =
     st\<lparr>orc_active := orc_active st @ [ex],
        orc_stopped := (if orc_cancelled st then insert ex (orc_stopped st) else orc_stopped st)\<rparr>"

definition unregisterExecutor :: "nat \<Rightarrow> orc_state \<Rightarrow> orc_state" where
  "unregisterExecutor ex st = st\<lparr>orc_active := filter (\<lambda>e. e \<noteq> ex) (orc_active st)\<rparr>"

datatype orc_event = Set_flag | Cancel_executors | Begin_job nat | End_job nat | Job_throws nat

inductive orc_step :: "orc_state \<Rightarrow> orc_event \<Rightarrow> orc_state \<Rightarrow> bool" where
  Set_flag: "orc_step st Set_flag (st\<lparr>orc_cancelled := True, orc_loops := orc_loops st + 1\<rparr>)"
| Cancel_executors: "0 < orc_loops st \<Longrightarrow> orc_step st Cancel_executors (orc_cancel_executors st)"
| Begin_job: "ex \<notin> orc_live st \<Longrightarrow>
    orc_step st (Begin_job ex) (registerExecutor ex
      (st\<lparr>orc_live := insert ex (orc_live st), orc_stopped := orc_stopped st - {ex}\<rparr>))"
| End_job: "ex \<in> orc_live st \<Longrightarrow>
    orc_step st (End_job ex) ((unregisterExecutor ex st)\<lparr>orc_live := orc_live st - {ex}\<rparr>)"
| Job_throws: "ex \<in> orc_live st \<Longrightarrow> orc_step st (Job_throws ex) (st\<lparr>orc_live := orc_live st - {ex}\<rparr>)"

inductive_cases orc_stepE: "orc_step st e st'"

lemmas orc_defs = orc_cancel_executors_def registerExecutor_def unregisterExecutor_def

definition orc_inv :: "orc_state \<Rightarrow> bool" where
  "orc_inv st \<longleftrightarrow> (orc_loops st = 0 \<and> orc_cancelled st \<longrightarrow> set (orc_active st) \<subseteq> orc_stopped st)
     \<and> (0 < orc_loops st \<longrightarrow> orc_cancelled st)"

interpretation orc: step_invariant orc_step orc_inv
  by unfold_locales (erule orc_stepE; auto simp: orc_inv_def orc_defs)

lemma orc_active_live:
  "runs orc_step orc_init es st \<Longrightarrow> \<forall>ex. Job_throws ex \<notin> set es \<Longrightarrow> set (orc_active st) = orc_live st"
proof (induction orc_init es st rule: runs.induct)
  case Runs_nil
  then show ?case by (simp add: orc_init_def)
next
  case (Runs_snoc es s' e s'')
  then have "set (orc_active s') = orc_live s'" by simp
  with Runs_snoc.hyps(3) Runs_snoc.prems show ?case
    by cases (auto simp: orc_defs)
qed

text \<open>
  No running job escapes cancellation: under every interleaving of job threads with calls of
  \<^verbatim>\<open>cancel\<close>, once the calls have returned every registered executor has been told to stop, also one
  registered while the call was under way; and as long as no executor throws, the registered
  pointers are exactly the executors that exist.
\<close>

theorem cancel_reaches_all:
  assumes "runs orc_step orc_init es st"
  shows "(orc_cancelled st \<and> orc_loops st = 0 \<longrightarrow> set (orc_active st) \<subseteq> orc_stopped st)
    \<and> ((\<forall>ex. Job_throws ex \<notin> set es) \<longrightarrow> set (orc_active st) = orc_live st)"
proof -
  have "orc_inv orc_init" by (simp add: orc_inv_def orc_init_def)
  then have "orc_inv st" by (rule orc.inv_runs [OF assms])
  then show ?thesis using orc_active_live [OF assms] by (auto simp: orc_inv_def)
qed

lemma orc_throw_run:
  "runs orc_step orc_init [Begin_job ex, Job_throws ex] (orc_init\<lparr>orc_active := [ex]\<rparr>)"
proof -
  let ?s = "registerExecutor ex (orc_init\<lparr>orc_live := insert ex (orc_live orc_init), orc_stopped := orc_stopped orc_init - {ex}\<rparr>)"
  have "runs orc_step orc_init ([] @ [Begin_job ex]) ?s"
    by (rule Runs_snoc [OF Runs_nil], rule orc_step.Begin_job) (simp add: orc_init_def)
  moreover have "orc_step ?s (Job_throws ex) (?s\<lparr>orc_live := orc_live ?s - {ex}\<rparr>)"
    by (rule orc_step.Job_throws) (simp add: orc_defs)
  ultimately have "runs orc_step orc_init (([] @ [Begin_job ex]) @ [Job_throws ex]) (?s\<lparr>orc_live := orc_live ?s - {ex}\<rparr>)"
    by (rule Runs_snoc)
  moreover have "?s\<lparr>orc_live := orc_live ?s - {ex}\<rparr> = orc_init\<lparr>orc_active := [ex]\<rparr>"
    by (simp add: orc_defs orc_init_def)
  ultimately show ?thesis by simp
qed

theorem cancel_reaches_all_witness:
  "\<exists>st. runs orc_step orc_init [Begin_job 0] st \<and> set (orc_active st) = orc_live st \<and> 0 \<in> set (orc_active st)"
proof -
  let ?s = "registerExecutor 0 (orc_init\<lparr>orc_live := insert 0 (orc_live orc_init), orc_stopped := orc_stopped orc_init - {0}\<rparr>)"
  have "runs orc_step orc_init ([] @ [Begin_job 0]) ?s"
    by (rule Runs_snoc [OF Runs_nil], rule orc_step.Begin_job) (simp add: orc_init_def)
  from cancel_reaches_all [OF this] have "set (orc_active ?s) = orc_live ?s" by simp
  moreover have "runs orc_step orc_init [Begin_job 0] ?s" using \<open>runs orc_step orc_init ([] @ [Begin_job 0]) ?s\<close> by simp
  moreover have "0 \<in> orc_live ?s" by (simp add: orc_defs)
  ultimately show ?thesis by blast
qed

text \<open>
  An executor that throws is destroyed without being unregistered: its pointer stays registered,
  and a later \<^verbatim>\<open>cancel\<close> calls through it.
\<close>

theorem thrown_executor_stays_registered:
  "\<exists>es st. runs orc_step orc_init es st \<and> ex \<in> set (orc_active st) \<and> ex \<notin> orc_live st"
  using orc_throw_run [of ex] by (force simp: orc_init_def)

end
