(* ===== verification/Poller.thy ===== *)
theory Poller
  imports Runner_Client Config
begin

text \<open>
  \<^verbatim>\<open>src/src/runner/Poller.cpp\<close>: the loop that fetches tasks from the server, the bounded queue and the
  pool of worker threads that execute them.  The threads interleave, so the component is a step
  relation: every action that is atomic under a mutex, on an atomic variable or on the semaphore is
  one step, and what lies between two of them is a state of the thread.  Executing a task is the
  interval between two steps of its worker.  \<open>p_fetched\<close>, \<open>p_executed\<close>, \<open>p_dropped\<close> and \<open>p_lost_slots\<close> record
  the history for the statements below; the code does not read them.
\<close>

section \<open>Threads\<close>

text \<open>
  The poll thread: at the loop head, inside the RPC, holding a task in front of the check of the
  waiting loop, inside \<^verbatim>\<open>try_acquire_for\<close>, holding a task and a slot, past the last check, exited.
\<close>

datatype poll_state =
    Loop_head | Calling | Holding task_dto | Acquiring task_dto | Slot task_dto | Dispatching task_dto | Poll_exited

text \<open>
  A worker: waiting, with an item taken from the queue, executing it, after the reset of the version,
  after the release of its slot, exited.  The ping thread only sends keep-alives until the shutdown.
\<close>

datatype worker_state =
    Idle | Taken task_dto | Executing task_dto | Finished | Released | Worker_exited

record poller =
  p_shutdown :: bool
  p_sem :: nat
  p_queue :: "task_dto list"
  p_active :: int
  p_version :: int
  p_poll :: poll_state
  p_workers :: "worker_state list"
  p_ping_alive :: bool
  p_fetched :: "task_dto list"
  p_executed :: "task_dto list"
  p_dropped :: "task_dto list"
  p_lost_slots :: nat

text \<open>The initial count of the semaphore and the size of the pool, both computed from the capacity.\<close>

definition pool_size :: "config \<Rightarrow> nat" where
  "pool_size cfg = (if 0 < capacity cfg \<and> capacity cfg \<le> 16 then nat (capacity cfg) else 1)"

definition poller_start :: "config \<Rightarrow> poller" where
  "poller_start cfg =
     \<lparr>p_shutdown = False, p_sem = pool_size cfg, p_queue = [], p_active = 0, p_version = 0, p_poll = Loop_head,
      p_workers = replicate (pool_size cfg) Idle, p_ping_alive = True, p_fetched = [], p_executed = [], p_dropped = [], p_lost_slots = 0\<rparr>"

definition dispatchTask :: "task_dto \<Rightarrow> poller \<Rightarrow> poller" where
  "dispatchTask t st = st\<lparr>p_queue := p_queue st @ [t]\<rparr>"

definition poller_stop :: "poller \<Rightarrow> poller" where
  "poller_stop st = st\<lparr>p_shutdown := True\<rparr>"

definition drain_queue :: "poller \<Rightarrow> poller" where
  "drain_queue st =
     st\<lparr>p_shutdown := True, p_queue := [], p_dropped := p_dropped st @ p_queue st,
        p_lost_slots := p_lost_slots st + length (p_queue st)\<rparr>"

datatype poll_event =
    Enter_loop | Leave_loop | Fetch_failed | Fetch_returned fetch_task_result
  | Check_before_wait | Wait_timed_out | Slot_acquired | Check_after_wait | Give_up | Dispatch
  | Take_item nat | Start_task nat | Reset_version nat | Release_slot nat | Count_down nat | Worker_leaves nat
  | Ping_server | Ping_leaves | Stop | Join_drains

inductive poll_step :: "poller \<Rightarrow> poll_event \<Rightarrow> poller \<Rightarrow> bool" where
  Enter_loop: "p_poll st = Loop_head \<Longrightarrow> \<not> p_shutdown st \<Longrightarrow> poll_step st Enter_loop (st\<lparr>p_poll := Calling\<rparr>)"
| Leave_loop: "p_poll st = Loop_head \<Longrightarrow> p_shutdown st \<Longrightarrow> poll_step st Leave_loop (st\<lparr>p_poll := Poll_exited\<rparr>)"
| Fetch_failed: "p_poll st = Calling \<Longrightarrow>
    poll_step st Fetch_failed (st\<lparr>p_poll := (if p_shutdown st then Poll_exited else Loop_head)\<rparr>)"
| Fetch_none: "p_poll st = Calling \<Longrightarrow> fetched_task r = None \<Longrightarrow>
    poll_step st (Fetch_returned r) (st\<lparr>p_version := tasks_version r, p_poll := Loop_head\<rparr>)"
| Fetch_task: "p_poll st = Calling \<Longrightarrow> fetched_task r = Some t \<Longrightarrow>
    poll_step st (Fetch_returned r)
      (st\<lparr>p_version := tasks_version r, p_poll := Holding t, p_fetched := p_fetched st @ [t]\<rparr>)"
| Check_before_wait: "p_poll st = Holding t \<Longrightarrow> \<not> p_shutdown st \<Longrightarrow>
    poll_step st Check_before_wait (st\<lparr>p_poll := Acquiring t\<rparr>)"
| Wait_timed_out: "p_poll st = Acquiring t \<Longrightarrow> poll_step st Wait_timed_out (st\<lparr>p_poll := Holding t\<rparr>)"
| Slot_acquired: "p_poll st = Acquiring t \<Longrightarrow> 0 < p_sem st \<Longrightarrow>
    poll_step st Slot_acquired (st\<lparr>p_sem := p_sem st - 1, p_poll := Slot t\<rparr>)"
| Check_after_wait: "p_poll st = Slot t \<Longrightarrow> \<not> p_shutdown st \<Longrightarrow>
    poll_step st Check_after_wait (st\<lparr>p_poll := Dispatching t\<rparr>)"
| Give_up: "p_poll st = Holding t \<Longrightarrow> p_shutdown st \<Longrightarrow>
    poll_step st Give_up (st\<lparr>p_poll := Poll_exited, p_dropped := p_dropped st @ [t]\<rparr>)"
| Give_up_slot: "p_poll st = Slot t \<Longrightarrow> p_shutdown st \<Longrightarrow>
    poll_step st Give_up (st\<lparr>p_poll := Poll_exited, p_dropped := p_dropped st @ [t], p_lost_slots := p_lost_slots st + 1\<rparr>)"
| Dispatch: "p_poll st = Dispatching t \<Longrightarrow> poll_step st Dispatch (dispatchTask t (st\<lparr>p_poll := Loop_head\<rparr>))"
| Take_item: "p_workers st = us @ Idle # vs \<Longrightarrow> p_queue st = t # q \<Longrightarrow>
    poll_step st (Take_item (length us)) (st\<lparr>p_queue := q, p_workers := us @ Taken t # vs\<rparr>)"
| Start_task: "p_workers st = us @ Taken t # vs \<Longrightarrow>
    poll_step st (Start_task (length us)) (st\<lparr>p_active := p_active st + 1, p_workers := us @ Executing t # vs\<rparr>)"
| Reset_version: "p_workers st = us @ Executing t # vs \<Longrightarrow>
    poll_step st (Reset_version (length us))
      (st\<lparr>p_version := 0, p_executed := p_executed st @ [t], p_workers := us @ Finished # vs\<rparr>)"
| Release_slot: "p_workers st = us @ Finished # vs \<Longrightarrow>
    poll_step st (Release_slot (length us)) (st\<lparr>p_sem := p_sem st + 1, p_workers := us @ Released # vs\<rparr>)"
| Count_down: "p_workers st = us @ Released # vs \<Longrightarrow>
    poll_step st (Count_down (length us)) (st\<lparr>p_active := p_active st - 1, p_workers := us @ Idle # vs\<rparr>)"
| Worker_leaves: "p_workers st = us @ Idle # vs \<Longrightarrow> p_shutdown st \<Longrightarrow> p_queue st = [] \<Longrightarrow>
    poll_step st (Worker_leaves (length us)) (st\<lparr>p_workers := us @ Worker_exited # vs\<rparr>)"
| Ping_server: "p_ping_alive st \<Longrightarrow> \<not> p_shutdown st \<Longrightarrow> poll_step st Ping_server st"
| Ping_leaves: "p_ping_alive st \<Longrightarrow> p_shutdown st \<Longrightarrow> poll_step st Ping_leaves (st\<lparr>p_ping_alive := False\<rparr>)"
| Stop: "poll_step st Stop (poller_stop st)"
| Join_drains: "p_poll st = Poll_exited \<Longrightarrow> \<not> p_ping_alive st \<Longrightarrow> poll_step st Join_drains (drain_queue st)"

inductive_cases poll_stepE: "poll_step st e st'"

section \<open>Accounting\<close>

fun poll_task :: "poll_state \<Rightarrow> task_dto list" where
  "poll_task (Holding t) = [t]"
| "poll_task (Acquiring t) = [t]"
| "poll_task (Slot t) = [t]"
| "poll_task (Dispatching t) = [t]"
| "poll_task _ = []"

fun poll_slot :: "poll_state \<Rightarrow> nat" where
  "poll_slot (Slot t) = 1"
| "poll_slot (Dispatching t) = 1"
| "poll_slot _ = 0"

fun worker_task :: "worker_state \<Rightarrow> task_dto list" where
  "worker_task (Taken t) = [t]"
| "worker_task (Executing t) = [t]"
| "worker_task _ = []"

fun worker_slot :: "worker_state \<Rightarrow> nat" where
  "worker_slot (Taken t) = 1"
| "worker_slot (Executing t) = 1"
| "worker_slot Finished = 1"
| "worker_slot _ = 0"

fun worker_counted :: "worker_state \<Rightarrow> nat" where
  "worker_counted (Executing t) = 1"
| "worker_counted Finished = 1"
| "worker_counted Released = 1"
| "worker_counted _ = 0"

definition slots_in_use :: "poller \<Rightarrow> nat" where
  "slots_in_use st = poll_slot (p_poll st) + length (p_queue st) + sum_list (map worker_slot (p_workers st))"

definition poller_inv :: "nat \<Rightarrow> poller \<Rightarrow> bool" where
  "poller_inv n st \<longleftrightarrow>
     p_sem st + slots_in_use st + p_lost_slots st = n
     \<and> length (p_workers st) = n
     \<and> p_active st = int (sum_list (map worker_counted (p_workers st)))
     \<and> mset (p_fetched st) = mset (p_executed st) + mset (p_dropped st) + mset (p_queue st)
         + mset (poll_task (p_poll st)) + mset (concat (map worker_task (p_workers st)))
     \<and> (p_dropped st \<noteq> [] \<or> Worker_exited \<in> set (p_workers st) \<or> p_poll st = Poll_exited \<longrightarrow> p_shutdown st)"

lemmas poller_defs = poller_inv_def slots_in_use_def dispatchTask_def poller_stop_def drain_queue_def

lemma poller_inv_step: "poll_step st e st' \<Longrightarrow> poller_inv n st \<Longrightarrow> poller_inv n st'"
  by (erule poll_stepE; auto simp: poller_defs)

interpretation pool: step_invariant poll_step "poller_inv n" for n
  by unfold_locales (rule poller_inv_step)

lemma poller_inv_start: "poller_inv (pool_size cfg) (poller_start cfg)"
  by (simp add: poller_defs poller_start_def sum_list_replicate)

lemma poller_inv_reachable: "runs poll_step (poller_start cfg) es st \<Longrightarrow> poller_inv (pool_size cfg) st"
  by (rule pool.inv_runs [OF _ poller_inv_start])

lemma worker_counts_bounded:
  "sum_list (map worker_counted ws) \<le> length ws"
  "length (concat (map worker_task ws)) \<le> sum_list (map worker_slot ws)"
proof -
  have "worker_counted w \<le> 1" "length (worker_task w) \<le> worker_slot w" for w by (cases w; simp)+
  then show "sum_list (map worker_counted ws) \<le> length ws"
    "length (concat (map worker_task ws)) \<le> sum_list (map worker_slot ws)"
    by (induction ws) (auto intro: order_trans add_le_mono add_mono [of _ 1, simplified])
qed

section \<open>Properties\<close>

text \<open>
  C5. The slots add up under every interleaving: free slots, tasks that hold one and slots lost at
  shutdown together are the pool size, which lies between 1 and 16; so the semaphore never exceeds
  its compile-time maximum, at most that many tasks are queued or executing, and the counter of
  active tasks counts the workers that are executing and stays within the pool.
\<close>

theorem poller_slots:
  assumes "runs poll_step (poller_start cfg) es st"
  shows "p_sem st + slots_in_use st + p_lost_slots st = pool_size cfg
    \<and> 1 \<le> pool_size cfg \<and> pool_size cfg \<le> 16 \<and> p_sem st \<le> 16
    \<and> length (p_queue st) + length (concat (map worker_task (p_workers st))) \<le> pool_size cfg
    \<and> 0 \<le> p_active st \<and> p_active st \<le> int (pool_size cfg)"
proof -
  have "poller_inv (pool_size cfg) st" by (rule poller_inv_reachable [OF assms])
  moreover have "1 \<le> pool_size cfg" "pool_size cfg \<le> 16" by (auto simp: pool_size_def)
  ultimately show ?thesis
    using worker_counts_bounded [of "p_workers st"] by (auto simp: poller_inv_def slots_in_use_def)
qed

text \<open>
  C16. No task is lost or run twice: every task the server handed out is exactly one of executed, in
  execution, queued, held by the poll thread or dropped; and tasks are dropped only after a
  shutdown was requested.
\<close>

theorem poller_tasks:
  assumes "runs poll_step (poller_start cfg) es st"
  shows "mset (p_fetched st) = mset (p_executed st) + mset (p_dropped st) + mset (p_queue st)
         + mset (poll_task (p_poll st)) + mset (concat (map worker_task (p_workers st)))
    \<and> (p_dropped st \<noteq> [] \<longrightarrow> p_shutdown st)"
  using poller_inv_reachable [OF assms] by (simp add: poller_inv_def)

lemma sum_list_eq_length:
  "(\<And>w. w \<in> set ws \<Longrightarrow> (f w :: nat) = 1) \<Longrightarrow> sum_list (map f ws) = length ws"
  by (induction ws) auto


section \<open>A shutdown during a fetch\<close>

definition fetched_one :: "poller \<Rightarrow> task_dto \<Rightarrow> poller" where
  "fetched_one st t = st\<lparr>p_version := 1, p_poll := Holding t, p_fetched := [t]\<rparr>"

lemma fetch_run:
  "runs poll_step (poller_start cfg) [Enter_loop, Fetch_returned \<lparr>fetched_task = Some t, tasks_version = 1\<rparr>]
     (fetched_one (poller_start cfg) t)"
proof -
  let ?s0 = "poller_start cfg"
  have "poll_step ?s0 Enter_loop (?s0\<lparr>p_poll := Calling\<rparr>)"
    by (intro poll_step.Enter_loop) (simp_all add: poller_start_def)
  note r = runs_one [of poll_step, OF this]
  have "poll_step (?s0\<lparr>p_poll := Calling\<rparr>) (Fetch_returned \<lparr>fetched_task = Some t, tasks_version = 1\<rparr>)
      (?s0\<lparr>p_poll := Calling, p_version := 1, p_poll := Holding t, p_fetched := [t]\<rparr>)"
    using poll_step.Fetch_task [of "?s0\<lparr>p_poll := Calling\<rparr>" "\<lparr>fetched_task = Some t, tasks_version = 1\<rparr>" t]
    by (simp add: poller_start_def)
  from Runs_snoc [OF r this] show ?thesis by (simp add: fetched_one_def)
qed

text \<open>
  A task that the server has handed out is dropped without being executed or reported when the
  shutdown is requested before it got a slot.
\<close>

theorem poller_drops_task:
  "\<exists>es st. runs poll_step (poller_start cfg) es st \<and> p_fetched st = [t] \<and> p_dropped st = [t] \<and> p_executed st = []
     \<and> p_poll st = Poll_exited"
proof -
  let ?s = "fetched_one (poller_start cfg) t"
  have "poll_step ?s Stop (poller_stop ?s)" by (rule poll_step.Stop)
  note r = Runs_snoc [OF fetch_run [of cfg t] this]
  have "poll_step (poller_stop ?s) Give_up ((poller_stop ?s)\<lparr>p_poll := Poll_exited, p_dropped := p_dropped (poller_stop ?s) @ [t]\<rparr>)"
    by (rule poll_step.Give_up) (simp_all add: poller_stop_def fetched_one_def)
  from Runs_snoc [OF r this] show ?thesis
    by (intro exI conjI) (auto simp: poller_stop_def fetched_one_def poller_start_def)
qed

theorem poller_slots_witness: "p_sem (fetched_one (poller_start default_config) empty_task) \<le> 16"
  using poller_slots [OF fetch_run [of default_config empty_task]] by simp

theorem poller_tasks_witness:
  "mset (p_fetched (fetched_one (poller_start default_config) empty_task)) = {#empty_task#}"
  using poller_tasks [OF fetch_run [of default_config empty_task]]
  by (simp add: fetched_one_def poller_start_def)

lemma dispatch_run:
  "\<exists>es. runs poll_step (poller_start default_config) es
     (fetched_one (poller_start default_config) t\<lparr>p_sem := 0, p_poll := Loop_head, p_queue := [t]\<rparr>)"
proof -
  let ?s = "fetched_one (poller_start default_config) t"
  have c: "p_sem ?s = 1" "\<not> p_shutdown ?s" "p_poll ?s = Holding t" "p_queue ?s = []"
    by (simp_all add: fetched_one_def poller_start_def pool_size_def default_config_def)
  have "poll_step ?s Check_before_wait (?s\<lparr>p_poll := Acquiring t\<rparr>)" by (rule poll_step.Check_before_wait) (simp_all add: c)
  note r = Runs_snoc [OF fetch_run this]
  have "poll_step (?s\<lparr>p_poll := Acquiring t\<rparr>) Slot_acquired (?s\<lparr>p_sem := 0, p_poll := Slot t\<rparr>)"
    using poll_step.Slot_acquired [of "?s\<lparr>p_poll := Acquiring t\<rparr>" t] by (simp add: c)
  note r = Runs_snoc [OF r this]
  have "poll_step (?s\<lparr>p_sem := 0, p_poll := Slot t\<rparr>) Check_after_wait (?s\<lparr>p_sem := 0, p_poll := Dispatching t\<rparr>)"
    using poll_step.Check_after_wait [of "?s\<lparr>p_sem := 0, p_poll := Slot t\<rparr>" t] by (simp add: c)
  note r = Runs_snoc [OF r this]
  have "poll_step (?s\<lparr>p_sem := 0, p_poll := Dispatching t\<rparr>) Dispatch (?s\<lparr>p_sem := 0, p_poll := Loop_head, p_queue := [t]\<rparr>)"
    using poll_step.Dispatch [of "?s\<lparr>p_sem := 0, p_poll := Dispatching t\<rparr>" t] by (simp add: c dispatchTask_def)
  from Runs_snoc [OF r this] show ?thesis by blast
qed


end
