(* ===== verification/Exec_Monad.thy ===== *)
theory Exec_Monad
  imports Expr_Evaluator
begin

text \<open>
  Code that changes a state, may throw, may run into undefined behaviour and may fail to return.  A
  computation maps a state to the outcome and the state it leaves, which an exception keeps;
  \<^const>\<open>None\<close> is a computation that never returns.
\<close>

type_synonym ('s, 'a) comp = "'s \<Rightarrow> ('a eres \<times> 's) option"

definition sret :: "'a \<Rightarrow> ('s, 'a) comp" where
  "sret x s = Some (EOk x, s)"

definition sbind :: "('s, 'a) comp \<Rightarrow> ('a \<Rightarrow> ('s, 'b) comp) \<Rightarrow> ('s, 'b) comp" where
  "sbind m k s =
     (case m s of
        None \<Rightarrow> None
      | Some (r, s') \<Rightarrow> (case r of EOk x \<Rightarrow> k x s' | EThrow e \<Rightarrow> Some (EThrow e, s') | EUndef u \<Rightarrow> Some (EUndef u, s')))"

definition sget :: "('s \<Rightarrow> 'a) \<Rightarrow> ('s, 'a) comp" where
  "sget f s = Some (EOk (f s), s)"

definition smod :: "('s \<Rightarrow> 's) \<Rightarrow> ('s, unit) comp" where
  "smod f s = Some (EOk (), f s)"

definition sthrow :: "exn \<Rightarrow> ('s, 'a) comp" where
  "sthrow e s = Some (EThrow e, s)"

text \<open>A computation without state: an expression evaluation.\<close>

definition slift :: "'a eres option \<Rightarrow> ('s, 'a) comp" where
  "slift m s = map_option (\<lambda>r. (r, s)) m"

fun smap :: "('a \<Rightarrow> ('s, 'b) comp) \<Rightarrow> 'a list \<Rightarrow> ('s, 'b list) comp" where
  "smap f [] = sret []"
| "smap f (x # xs) = sbind (f x) (\<lambda>y. sbind (smap f xs) (\<lambda>ys. sret (y # ys)))"

lemma sbind_cong [fundef_cong]:
  assumes "m s = m' s'" "s = s'" "\<And>x s''. m' s' = Some (EOk x, s'') \<Longrightarrow> k x s'' = k' x s''"
  shows "sbind m k s = sbind m' k' s'"
  using assms by (auto simp: sbind_def split: option.splits eres.splits)

lemma comp_simps [simp]:
  "sret x s = Some (EOk x, s)" "sthrow e s = Some (EThrow e, s)" "sget f s = Some (EOk (f s), s)"
  "smod g s = Some (EOk (), g s)" "slift (Some r) s = Some (r, s)" "slift None s = None"
  by (simp_all add: sret_def sthrow_def sget_def smod_def slift_def)

lemma sbind_return [simp]: "sbind (sret x) k = k x"
  by (rule ext) (simp add: sbind_def)

lemma sbind_throw [simp]: "sbind (sthrow e) k = sthrow e"
  by (rule ext) (simp add: sbind_def)

lemma sbind_state [simp]:
  "sbind (sget f) k s = k (f s) s" "sbind (smod g) l s = l () (g s)"
  by (simp_all add: sbind_def)

lemma sbind_lift [simp]:
  "sbind (slift (Some (EOk x))) k s = k x s" "sbind (slift (Some (EThrow e))) l s = Some (EThrow e, s)"
  "sbind (slift None) m s = None" "sbind (slift (Some (EUndef u))) n s = Some (EUndef u, s)"
  by (simp_all add: sbind_def)

lemma sbind_assoc: "sbind (sbind m k) l = sbind m (\<lambda>x. sbind (k x) l)"
  by (rule ext) (auto simp: sbind_def split: option.split eres.split)

lemma sbind_EOk:
  "sbind m k s = Some (EOk y, s'') \<longleftrightarrow> (\<exists>x s'. m s = Some (EOk x, s') \<and> k x s' = Some (EOk y, s''))"
  by (auto simp: sbind_def split: option.splits eres.splits)

lemma sbind_value: "m s = Some (EOk x, s') \<Longrightarrow> sbind m k s = k x s'"
  by (simp add: sbind_def)

text \<open>A property that both parts of a sequence keep, whether they return or throw.\<close>

definition keeps :: "('s \<Rightarrow> bool) \<Rightarrow> ('s, 'a) comp \<Rightarrow> bool" where
  "keeps I m \<longleftrightarrow> (\<forall>s r s'. I s \<longrightarrow> m s = Some (r, s') \<longrightarrow> I s')"

lemma sbindE:
  assumes "sbind m k s = Some (r, s'')"
  obtains x s' where "m s = Some (EOk x, s')" "k x s' = Some (r, s'')"
  | r' where "m s = Some (r', s'')"
  using assms by (auto simp: sbind_def split: option.splits eres.splits)

lemma keeps_sbind: "keeps I m \<Longrightarrow> (\<And>x. keeps I (k x)) \<Longrightarrow> keeps I (sbind m k)"
  unfolding keeps_def by (blast elim: sbindE)

lemma keeps_return [simp]: "keeps I (sret x)" by (simp add: keeps_def)
lemma keeps_get [simp]: "keeps I (sget f)" by (simp add: keeps_def)
lemma keeps_throw [simp]: "keeps I (sthrow e)" by (simp add: keeps_def)
lemma keeps_lift [simp]: "keeps I (slift m)" by (auto simp: keeps_def slift_def)

lemma keeps_smod: "(\<And>s. I s \<Longrightarrow> I (f s)) \<Longrightarrow> keeps I (smod f)"
  by (auto simp: keeps_def)

lemma keeps_smap: "(\<And>x. x \<in> set xs \<Longrightarrow> keeps I (f x)) \<Longrightarrow> keeps I (smap f xs)"
  by (induction xs) (auto intro!: keeps_sbind)

lemma keeps_if: "(b \<Longrightarrow> keeps I m) \<Longrightarrow> (\<not> b \<Longrightarrow> keeps I m') \<Longrightarrow> keeps I (if b then m else m')"
  by simp

text \<open>
  A computation that only appends elements satisfying \<open>P\<close> to a history kept in the state, whether it
  returns or throws.
\<close>

definition extends :: "('s \<Rightarrow> 'h list) \<Rightarrow> ('h \<Rightarrow> bool) \<Rightarrow> ('s, 'a) comp \<Rightarrow> bool" where
  "extends hist P m \<longleftrightarrow> (\<forall>s r s'. m s = Some (r, s') \<longrightarrow> (\<exists>hs. hist s' = hist s @ hs \<and> list_all P hs))"

lemma extendsE:
  assumes "extends hist P m" "m s = Some (r, s')"
  obtains hs where "hist s' = hist s @ hs" "list_all P hs"
  using assms unfolding extends_def by blast

lemma extends_keeps: "(\<And>h. keeps (\<lambda>s. hist s = h) m) \<Longrightarrow> extends hist P m"
  unfolding extends_def keeps_def by (metis append.right_neutral list.pred_inject(1))

lemma extends_sbind:
  assumes "extends hist P m" "\<And>x. extends hist P (k x)"
  shows "extends hist P (sbind m k)"
  unfolding extends_def
proof (intro allI impI)
  fix s r s'
  assume "sbind m k s = Some (r, s')"
  then show "\<exists>hs. hist s' = hist s @ hs \<and> list_all P hs"
  proof (cases rule: sbindE)
    case (1 x s1)
    obtain h1 where "hist s1 = hist s @ h1" "list_all P h1" using extendsE [OF assms(1) 1(1)] .
    moreover obtain h2 where "hist s' = hist s1 @ h2" "list_all P h2" using extendsE [OF assms(2) 1(2)] .
    ultimately show ?thesis by (intro exI [of _ "h1 @ h2"]) simp
  next
    case (2 r')
    then show ?thesis using assms(1) unfolding extends_def by blast
  qed
qed

lemma extends_return [simp]: "extends hist P (sret x)" by (rule extends_keeps) simp
lemma extends_get [simp]: "extends hist P (sget f)" by (rule extends_keeps) simp
lemma extends_throw [simp]: "extends hist P (sthrow e)" by (rule extends_keeps) simp
lemma extends_lift [simp]: "extends hist P (slift m)" by (rule extends_keeps) simp

lemma extends_smod: "(\<And>s. hist (f s) = hist s) \<Longrightarrow> extends hist P (smod f)"
  by (rule extends_keeps) (simp add: keeps_smod)

lemma extends_smap: "(\<And>x. extends hist P (f x)) \<Longrightarrow> extends hist P (smap f xs)"
  by (induction xs) (simp_all add: extends_sbind)

section \<open>Handlers\<close>

text \<open>\<^verbatim>\<open>try { m } catch (const std::exception& e) { h(e); }\<close>: the handler starts in the state the exception left.\<close>

definition scatch :: "('s, 'a) comp \<Rightarrow> (exn \<Rightarrow> ('s, 'a) comp) \<Rightarrow> ('s, 'a) comp" where
  "scatch m h s = (case m s of Some (EThrow e, s') \<Rightarrow> h e s' | r \<Rightarrow> r)"

lemma scatch_EOk [simp]: "m s = Some (EOk x, s') \<Longrightarrow> scatch m h s = Some (EOk x, s')"
  by (simp add: scatch_def)

lemma keeps_scatch: "keeps I m \<Longrightarrow> (\<And>e. keeps I (h e)) \<Longrightarrow> keeps I (scatch m h)"
proof (unfold keeps_def, intro allI impI)
  fix s r s'
  assume I: "\<forall>s r s'. I s \<longrightarrow> m s = Some (r, s') \<longrightarrow> I s'" and H: "\<And>e. \<forall>s r s'. I s \<longrightarrow> h e s = Some (r, s') \<longrightarrow> I s'"
    and s: "I s" and e: "scatch m h s = Some (r, s')"
  show "I s'"
  proof (cases "m s")
    case (Some q)
    obtain r1 s1 where q: "q = (r1, s1)" by fastforce
    with I s Some have "I s1" by blast
    then show ?thesis using e H Some q by (cases r1) (auto simp: scatch_def)
  qed (use e in \<open>simp add: scatch_def\<close>)
qed

text \<open>A computation that always ends, whatever its outcome.\<close>

definition returns :: "('s, 'a) comp \<Rightarrow> bool" where
  "returns m \<longleftrightarrow> (\<forall>s. m s \<noteq> None)"

lemma returns_sbind: "returns m \<Longrightarrow> (\<And>x. returns (k x)) \<Longrightarrow> returns (sbind m k)"
  unfolding returns_def sbind_def by (auto split: option.splits prod.splits eres.splits)

lemma returns_scatch: "returns m \<Longrightarrow> (\<And>e. returns (h e)) \<Longrightarrow> returns (scatch m h)"
  unfolding returns_def scatch_def by (auto split: option.splits prod.splits eres.splits)

lemma returns_basic [simp]:
  "returns (sret x)" "returns (sget f)" "returns (smod g)" "returns (sthrow e)" "returns (slift (Some r))"
  by (simp_all add: returns_def)

section \<open>What holds after a computation\<close>

text \<open>\<open>keeps_at I m s\<close>: started in \<open>s\<close>, the computation ends in a state with \<open>I\<close>, if it ends.\<close>

definition keeps_at :: "('s \<Rightarrow> bool) \<Rightarrow> ('s, 'a) comp \<Rightarrow> 's \<Rightarrow> bool" where
  "keeps_at I m s \<longleftrightarrow> (\<forall>r s'. m s = Some (r, s') \<longrightarrow> I s')"

lemma keeps_iff: "keeps I m \<longleftrightarrow> (\<forall>s. I s \<longrightarrow> keeps_at I m s)"
  by (auto simp: keeps_def keeps_at_def)

lemma keeps_at_simps [simp]:
  "keeps_at I (sret x) s \<longleftrightarrow> I s" "keeps_at I (sthrow e) s \<longleftrightarrow> I s"
  "keeps_at I (smod g) s \<longleftrightarrow> I (g s)" "keeps_at I (sbind (sget f) k) s \<longleftrightarrow> keeps_at I (k (f s)) s"
  "keeps_at I (sbind (smod g) l) s \<longleftrightarrow> keeps_at I (l ()) (g s)"
  "keeps_at I (sbind (slift (Some r)) l') s \<longleftrightarrow> (case r of EOk x \<Rightarrow> keeps_at I (l' x) s | _ \<Rightarrow> I s)"
  by (auto simp: keeps_at_def split: eres.splits)

lemma keeps_at_same [simp]: "keeps_at I (\<lambda>s. Some (r, s)) s \<longleftrightarrow> I s"
  by (simp add: keeps_at_def)

lemma keeps_at_sbind:
  assumes "keeps I m" "I s" "\<And>x s'. I s' \<Longrightarrow> keeps_at I (k x) s'"
  shows "keeps_at I (sbind m k) s"
  unfolding keeps_at_def
proof (intro allI impI)
  fix r s'
  assume "sbind m k s = Some (r, s')"
  then show "I s'"
  proof (cases rule: sbindE)
    case (1 x s1)
    have "I s1" using assms(1,2) 1(1) unfolding keeps_def by blast
    from assms(3) [OF this] 1(2) show ?thesis unfolding keeps_at_def by blast
  next
    case (2 r')
    then show ?thesis using assms(1,2) unfolding keeps_def by blast
  qed
qed

text \<open>Every value a computation returns satisfies \<open>P\<close>; a computation that ends without an exception.\<close>

definition yields :: "('a \<Rightarrow> bool) \<Rightarrow> ('s, 'a) comp \<Rightarrow> bool" where
  "yields P m \<longleftrightarrow> (\<forall>s x s'. m s = Some (EOk x, s') \<longrightarrow> P x)"

lemma yields_sbind: "(\<And>x. yields P (k x)) \<Longrightarrow> yields P (sbind m k)"
  unfolding yields_def sbind_EOk by blast

lemma yields_basic [simp]:
  "yields P (sret x) \<longleftrightarrow> P x" "yields P (sthrow e)"
  by (auto simp: yields_def)

lemma yields_scatch: "yields P m \<Longrightarrow> (\<And>e. yields P (h e)) \<Longrightarrow> yields P (scatch m h)"
  unfolding yields_def scatch_def by (auto split: option.splits prod.splits eres.splits)

lemma yields_if: "(b \<Longrightarrow> yields P m) \<Longrightarrow> (\<not> b \<Longrightarrow> yields P m') \<Longrightarrow> yields P (if b then m else m')"
  by simp

definition nothrow :: "('s, 'a) comp \<Rightarrow> bool" where
  "nothrow m \<longleftrightarrow> (\<forall>s. \<exists>r s'. m s = Some (r, s') \<and> (\<forall>e. r \<noteq> EThrow e))"

lemma nothrow_scatch: "returns m \<Longrightarrow> (\<And>e. nothrow (h e)) \<Longrightarrow> nothrow (scatch m h)"
  unfolding nothrow_def
proof (intro allI)
  fix s
  assume m: "returns m" and h: "\<And>e. \<forall>s. \<exists>r s'. h e s = Some (r, s') \<and> (\<forall>e. r \<noteq> EThrow e)"
  from m obtain r s' where "m s = Some (r, s')" unfolding returns_def by fastforce
  then show "\<exists>r s'. scatch m h s = Some (r, s') \<and> (\<forall>e. r \<noteq> EThrow e)"
    using h by (cases r) (auto simp: scatch_def)
qed

lemma nothrow_sbind: "nothrow m \<Longrightarrow> (\<And>x. nothrow (k x)) \<Longrightarrow> nothrow (sbind m k)"
  unfolding nothrow_def
proof (intro allI)
  fix s
  assume m: "\<forall>s. \<exists>r s'. m s = Some (r, s') \<and> (\<forall>e. r \<noteq> EThrow e)"
    and k: "\<And>x. \<forall>s. \<exists>r s'. k x s = Some (r, s') \<and> (\<forall>e. r \<noteq> EThrow e)"
  from m obtain r s' where "m s = Some (r, s')" "\<forall>e. r \<noteq> EThrow e" by blast
  then show "\<exists>r s'. sbind m k s = Some (r, s') \<and> (\<forall>e. r \<noteq> EThrow e)"
    using k by (cases r) (auto simp: sbind_def)
qed

lemma nothrow_return [simp]: "nothrow (sret x)"
  by (simp add: nothrow_def)

end
