(* ===== verification/Process_Spawner.thy ===== *)
theory Process_Spawner
  imports Prelude
begin

text \<open>
  \<^verbatim>\<open>src/src/process/ProcessSpawner.cpp\<close>: the environment, the argument vector, the output and the exit
  status of a child process, and the watchdog that ends it.  The operating system is a parameter: a
  function from the request to what happened to the child (\<open>child_outcome\<close>), with the pieces in which
  its output was read and the order in which the two reader threads called the callback.
\<close>

section \<open>The environment\<close>

definition entry_for :: "string \<Rightarrow> string \<Rightarrow> bool" where
  "entry_for k e \<longleftrightarrow> take (length (k @ ''='')) e = k @ ''=''"

definition remove_entries :: "string \<Rightarrow> string list \<Rightarrow> string list" where
  "remove_entries r env = filter (\<lambda>e. \<not> entry_for r e) env"

fun set_entry :: "string \<Rightarrow> string \<Rightarrow> string list \<Rightarrow> string list" where
  "set_entry k v [] = [k @ ''='' @ v]"
| "set_entry k v (e # env) = (if entry_for k e then (k @ ''='' @ v) # env else e # set_entry k v env)"

definition buildEnv :: "string list \<Rightarrow> (string \<times> string) list \<Rightarrow> string list \<Rightarrow> string list" where
  "buildEnv environ additions removals =
     fold (\<lambda>(k, v). set_entry k v) additions (fold remove_entries removals environ)"

text \<open>The reference: what \<^verbatim>\<open>getenv\<close> of the child finds, the first entry of a name.\<close>

fun env_lookup :: "string list \<Rightarrow> string \<Rightarrow> string option" where
  "env_lookup [] k = None"
| "env_lookup (e # env) k = (if entry_for k e then Some (drop (length k + 1) e) else env_lookup env k)"

lemma entry_for_iff: "entry_for k e \<longleftrightarrow> (\<exists>v. e = k @ ''='' @ v)"
proof
  assume "entry_for k e"
  then have "e = (k @ ''='') @ drop (length (k @ ''='')) e"
    unfolding entry_for_def by (metis append_take_drop_id)
  then show "\<exists>v. e = k @ ''='' @ v" by (metis append.assoc)
qed (auto simp: entry_for_def)

lemma entry_for_unique:
  assumes "entry_for k e" "entry_for k' e" "CHR ''='' \<notin> set k" "CHR ''='' \<notin> set k'"
  shows "k = k'"
proof -
  have t: "takeWhile (\<lambda>c. c \<noteq> CHR ''='') (k @ CHR ''='' # v) = k" if "CHR ''='' \<notin> set k" for k v
    using that by (induction k) auto
  from assms(1) obtain v where v: "e = k @ CHR ''='' # v" by (auto simp: entry_for_iff)
  from assms(2) obtain v' where v': "e = k' @ CHR ''='' # v'" by (auto simp: entry_for_iff)
  have "k = takeWhile (\<lambda>c. c \<noteq> CHR ''='') e" by (simp add: v t assms(3))
  also have "\<dots> = k'" unfolding v' by (rule t [OF assms(4)])
  finally show ?thesis .
qed

lemma entry_for_pair [simp]:
  "CHR ''='' \<notin> set k \<Longrightarrow> CHR ''='' \<notin> set k' \<Longrightarrow> entry_for k' (k @ CHR ''='' # v) \<longleftrightarrow> k' = k"
  using entry_for_unique [of k "k @ CHR ''='' # v" k'] by (auto simp: entry_for_def)

lemma env_lookup_set_entry:
  assumes "CHR ''='' \<notin> set k" "CHR ''='' \<notin> set k'"
  shows "env_lookup (set_entry k v env) k' = (if k' = k then Some v else env_lookup env k')"
  using assms by (induction env) (auto dest: entry_for_unique)

lemma env_lookup_remove_entries:
  assumes "CHR ''='' \<notin> set r" "CHR ''='' \<notin> set k"
  shows "env_lookup (remove_entries r env) k = (if k = r then None else env_lookup env k)"
proof (cases "k = r")
  case True
  have "env_lookup (remove_entries r env) r = None" by (induction env) (auto simp: remove_entries_def)
  with True show ?thesis by simp
next
  case False
  then show ?thesis
    using entry_for_unique [OF _ _ assms(2,1)] by (induction env) (auto simp: remove_entries_def)
qed

lemma env_lookup_removals:
  assumes "\<forall>r \<in> set rs. CHR ''='' \<notin> set r" "CHR ''='' \<notin> set k"
  shows "env_lookup (fold remove_entries rs env) k = (if k \<in> set rs then None else env_lookup env k)"
  using assms(1) by (induction rs arbitrary: env) (auto simp: env_lookup_remove_entries [OF _ assms(2)])

lemma env_lookup_additions:
  assumes "\<forall>(k, v) \<in> set adds. CHR ''='' \<notin> set k" "CHR ''='' \<notin> set k"
  shows "env_lookup (fold (\<lambda>(k, v). set_entry k v) adds env) k =
    (case map_of (rev adds) k of Some v \<Rightarrow> Some v | None \<Rightarrow> env_lookup env k)"
  using assms(1)
  by (induction adds arbitrary: env)
    (auto simp: env_lookup_set_entry [OF _ assms(2)] map_add_def split: option.split)

lemma buildEnv_lookup:
  assumes "\<forall>(k, v) \<in> set adds. CHR ''='' \<notin> set k" "\<forall>r \<in> set rems. CHR ''='' \<notin> set r" "CHR ''='' \<notin> set k"
  shows "env_lookup (buildEnv environ adds rems) k =
    (case map_of (rev adds) k of Some v \<Rightarrow> Some v
     | None \<Rightarrow> if k \<in> set rems then None else env_lookup environ k)"
  unfolding buildEnv_def env_lookup_additions [OF assms(1,3)] env_lookup_removals [OF assms(2,3)] ..

section \<open>The output\<close>

text \<open>
  The inner loop of \<^verbatim>\<open>drainOutput\<close>: complete lines are taken off the front of the buffer.
\<close>

fun split_buffer :: "string \<Rightarrow> string \<Rightarrow> string list \<times> string" where
  "split_buffer acc [] = ([], acc)"
| "split_buffer acc (c # cs) =
     (if c = CHR 0x0A then (let (ls, rest) = split_buffer [] cs in (chomp_cr acc # ls, rest))
      else split_buffer (acc @ [c]) cs)"

fun drain_chunks :: "string \<Rightarrow> string list \<Rightarrow> string list" where
  "drain_chunks buf [] = (if buf \<noteq> [] then [buf] else [])"
| "drain_chunks buf (chunk # chunks) =
     (let (ls, rest) = split_buffer [] (buf @ chunk) in ls @ drain_chunks rest chunks)"

definition drainOutput :: "string list \<Rightarrow> string list" where
  "drainOutput chunks = drain_chunks [] chunks"

text \<open>The reference: the text split at its newlines, every complete line without its carriage return.\<close>

fun complete_lines :: "string list \<Rightarrow> string list" where
  "complete_lines [] = []"
| "complete_lines [part] = (if part \<noteq> [] then [part] else [])"
| "complete_lines (l # l' # ls) = chomp_cr l # complete_lines (l' # ls)"

fun split_nl :: "string \<Rightarrow> string list" where
  "split_nl [] = [[]]"
| "split_nl (c # cs) = (if c = CHR 0x0A then [] # split_nl cs
     else case split_nl cs of l # ls \<Rightarrow> (c # l) # ls | [] \<Rightarrow> [[c]])"

lemma split_nl_not_Nil [simp]: "split_nl s \<noteq> []"
  by (cases s) (auto split: list.split)

lemma split_buffer_eq:
  "\<exists>ls. split_buffer acc s = (map chomp_cr (butlast ls), last ls)
     \<and> (case split_nl s of l # ls' \<Rightarrow> ls = (acc @ l) # ls' | [] \<Rightarrow> False)"
proof (induction acc s rule: split_buffer.induct)
  case (2 acc c cs)
  show ?case
  proof (cases "c = CHR 0x0A")
    case True
    with 2(1) obtain ls where "split_buffer [] cs = (map chomp_cr (butlast ls), last ls)" "ls = split_nl cs"
      by (cases "split_nl cs") auto
    with True show ?thesis by auto
  next
    case False
    with 2(2) show ?thesis by (cases "split_nl cs") auto
  qed
qed auto

lemma split_nl_append: "split_nl (s @ t) = butlast (split_nl s) @ split_nl (last (split_nl s) @ t)"
proof (induction s)
  case (Cons c s)
  show ?case
  proof (cases "c = CHR 0x0A")
    case False
    obtain l ls where l: "split_nl s = l # ls" by (meson neq_Nil_conv split_nl_not_Nil)
    with Cons False show ?thesis by (cases "ls = []") auto
  qed (simp add: Cons)
qed simp

lemma complete_lines_append: "ls' \<noteq> [] \<Longrightarrow> complete_lines (ls @ ls') = map chomp_cr ls @ complete_lines ls'"
proof (induction ls)
  case (Cons l ls)
  then show ?case by (cases "ls @ ls'") auto
qed simp

lemma split_buffer_split_nl: "split_buffer [] s = (map chomp_cr (butlast (split_nl s)), last (split_nl s))"
  using split_buffer_eq [of "[]" s] by (cases "split_nl s") auto

lemma last_split_nl: "split_nl (last (split_nl s)) = [last (split_nl s)]"
proof (induction s)
  case (Cons c s)
  then show ?case by (cases "split_nl s") (auto split: if_splits)
qed simp

lemma drain_chunks_eq: "split_nl buf = [buf] \<Longrightarrow> drain_chunks buf chunks = complete_lines (split_nl (buf @ concat chunks))"
proof (induction chunks arbitrary: buf)
  case (Cons chunk chunks)
  let ?L = "split_nl (buf @ chunk)"
  have "drain_chunks buf (chunk # chunks) = map chomp_cr (butlast ?L) @ complete_lines (split_nl (last ?L @ concat chunks))"
    by (simp add: split_buffer_split_nl Cons.IH last_split_nl)
  also have "\<dots> = complete_lines (split_nl ((buf @ chunk) @ concat chunks))"
    unfolding split_nl_append [of "buf @ chunk"] by (simp add: complete_lines_append)
  finally show ?case by simp
qed simp

text \<open>
  C19. The lines handed to the callback depend only on the bytes the child wrote, not on the pieces in
  which they were read: they are the complete lines of the whole output, each without a trailing
  carriage return, and a last line without newline as it is.
\<close>

theorem drainOutput_chunking:
  "drainOutput chunks = complete_lines (split_nl (concat chunks))"
  by (simp add: drainOutput_def drain_chunks_eq)

section \<open>Arguments\<close>

text \<open>
  The code is compiled for Haiku or for a POSIX system that may or may not have a file action for
  changing the directory of the child.  Without it the directory change is written into the command
  of a shell.
\<close>

datatype platform = Haiku | Posix bool

definition spawn_chdir :: "platform \<Rightarrow> bool" where
  "spawn_chdir p = (case p of Haiku \<Rightarrow> False | Posix b \<Rightarrow> b)"

definition is_file :: "string \<Rightarrow> bool" where
  "is_file script \<longleftrightarrow> script \<noteq> [] \<and> hd script = CHR ''/''"

definition build_argv :: "platform \<Rightarrow> string \<Rightarrow> string \<Rightarrow> string \<Rightarrow> string list" where
  "build_argv pf shell script work_dir =
     (let plain = (if is_file script then [shell, script] else [shell, ''-c'', script])
      in if work_dir = [] then plain
         else if is_file script then
           (if spawn_chdir pf then plain else [shell, ''-c'', ''cd '' @ work_dir @ '' && exec '' @ script])
         else [shell, ''-c'', ''cd '' @ work_dir @ '' && '' @ script])"

section \<open>Watchdog\<close>

datatype sig = SIGTERM | SIGKILL

text \<open>
  \<open>fin n\<close> is what the thread reads from \<^verbatim>\<open>done\<close> after \<open>n\<close> tenths of a second.  The loops of the
  watchdog count ticks; the result are the signals sent with the tick at which they were sent.
\<close>

fun sleep_until_done :: "(nat \<Rightarrow> bool) \<Rightarrow> nat \<Rightarrow> nat \<Rightarrow> nat \<times> bool" where
  "sleep_until_done fin tick 0 = (tick, False)"
| "sleep_until_done fin tick (Suc n) =
     (if fin (tick + 1) then (tick + 1, True) else sleep_until_done fin (tick + 1) n)"

fun grace_period :: "(nat \<Rightarrow> bool) \<Rightarrow> nat \<Rightarrow> nat \<Rightarrow> nat" where
  "grace_period fin tick 0 = tick"
| "grace_period fin tick (Suc n) = (if fin tick then tick else grace_period fin (tick + 1) n)"

definition watchdog :: "int \<Rightarrow> (nat \<Rightarrow> bool) \<Rightarrow> (nat \<times> sig) list" where
  "watchdog timeout_s fin =
     (if timeout_s \<le> 0 then []
      else case sleep_until_done fin 0 (nat (timeout_s * 10)) of
        (tick, True) \<Rightarrow> []
      | (tick, False) \<Rightarrow>
          if fin tick then []
          else (let tick' = grace_period fin tick 50
                in (tick, SIGTERM) # (if fin tick' then [] else [(tick', SIGKILL)])))"

section \<open>The run of a child\<close>

record process_result =
  exit_code :: int
  killed :: bool
  proc_signal :: int

definition new_process_result :: process_result where
  "new_process_result = \<lparr>exit_code = -1, killed = False, proc_signal = 0\<rparr>"

datatype wait_status = Exited nat | Signaled nat | Other_status

fun decode_status :: "wait_status \<Rightarrow> process_result" where
  "decode_status (Exited n) = new_process_result\<lparr>exit_code := int n\<rparr>"
| "decode_status (Signaled n) = new_process_result\<lparr>killed := True, proc_signal := int n, exit_code := 128 + int n\<rparr>"
| "decode_status Other_status = new_process_result"

record spawn_request =
  sp_argv :: "string list"
  sp_env :: "string list"
  sp_timeout :: int

datatype child_outcome =
    Pipe_failed string
  | Spawn_failed string
  | Wait_failed string "string list" "string list" "bool list"
  | Child_ended wait_status "string list" "string list" "bool list"

text \<open>
  The callbacks of the two reader threads, in the order the schedule gives: \<^const>\<open>True\<close> is a line of the
  error stream.  When the schedule has ended, the remaining lines follow.
\<close>

fun merge_lines :: "bool list \<Rightarrow> string list \<Rightarrow> string list \<Rightarrow> (string \<times> bool) list" where
  "merge_lines (True # s) os (e # es) = (e, True) # merge_lines s os es"
| "merge_lines (False # s) (x # os) es = (x, False) # merge_lines s os es"
| "merge_lines _ os es = map (\<lambda>l. (l, False)) os @ map (\<lambda>l. (l, True)) es"

definition spawn_run ::
    "platform \<Rightarrow> (spawn_request \<Rightarrow> child_outcome) \<Rightarrow> string \<Rightarrow> string \<Rightarrow> string \<Rightarrow> string list \<Rightarrow> int
     \<Rightarrow> process_result result \<times> (string \<times> bool) list" where
  "spawn_run pf os shell script work_dir env timeout_s =
     (case os \<lparr>sp_argv = build_argv pf shell script work_dir, sp_env = env, sp_timeout = timeout_s\<rparr> of
        Pipe_failed msg \<Rightarrow> (Inl (Runtime_error (''pipe2() failed: '' @ msg)), [])
      | Spawn_failed msg \<Rightarrow> (Inl (Runtime_error ((case pf of Haiku \<Rightarrow> ''load_image() failed: '' | Posix _ \<Rightarrow> ''posix_spawn() failed: '') @ msg)), [])
      | Wait_failed msg outs errs sched \<Rightarrow>
          (Inl (Runtime_error (''waitpid() failed: '' @ msg)), merge_lines sched (drainOutput outs) (drainOutput errs))
      | Child_ended status outs errs sched \<Rightarrow>
          (Inr (decode_status status), merge_lines sched (drainOutput outs) (drainOutput errs)))"

text \<open>\<^verbatim>\<open>ProcessSpawner::kill\<close>: the signals sent, to a process group (negative) or a process.\<close>

definition spawner_kill :: "(int \<Rightarrow> bool) \<Rightarrow> int \<Rightarrow> (int \<times> sig) list" where
  "spawner_kill kill_ok child_pid =
     (if 0 < child_pid then
        (-child_pid, SIGTERM) # (if kill_ok (-child_pid) then [] else [(child_pid, SIGTERM)])
      else [])"

lemma merge_lines_streams:
  "map fst (filter (\<lambda>(l, e). \<not> e) (merge_lines s os es)) = os"
  "map fst (filter (\<lambda>(l, e). e) (merge_lines s os es)) = es"
  by (induction s os es rule: merge_lines.induct) (auto simp: filter_map comp_def)

lemma sleep_until_done_le:
  "sleep_until_done fin t n = (t', d) \<Longrightarrow> t \<le> t' \<and> (\<not> d \<longrightarrow> t' = t + n)"
  by (induction fin t n rule: sleep_until_done.induct) (auto split: if_splits)

lemma grace_period_le:
  "t \<le> grace_period fin t n \<and> grace_period fin t n \<le> t + n
   \<and> (\<not> fin (grace_period fin t n) \<longrightarrow> grace_period fin t n = t + n)"
  by (induction fin t n rule: grace_period.induct) auto

text \<open>
  The watchdog sends nothing while the time limit is not over, and nothing at all without one;
  \<^verbatim>\<open>SIGKILL\<close> only follows a \<^verbatim>\<open>SIGTERM\<close> after a grace period of exactly five seconds in which the
  child did not end.
\<close>

theorem watchdog_signals:
  "watchdog timeout_s fin = []
   \<or> (0 < timeout_s \<and> watchdog timeout_s fin = [(nat (timeout_s * 10), SIGTERM)])
   \<or> (0 < timeout_s \<and> watchdog timeout_s fin =
        [(nat (timeout_s * 10), SIGTERM), (nat (timeout_s * 10) + 50, SIGKILL)]
      \<and> \<not> fin (nat (timeout_s * 10) + 50))"
proof (cases "0 < timeout_s")
  case True
  obtain t d where s: "sleep_until_done fin 0 (nat (timeout_s * 10)) = (t, d)" by fastforce
  from sleep_until_done_le [OF s] grace_period_le [of t fin 50] True show ?thesis
    by (auto simp: watchdog_def s Let_def split: bool.splits)
qed (simp add: watchdog_def)

end
