(* ===== verification/Env_Manager.thy ===== *)
theory Env_Manager
  imports Prelude
begin

text \<open>
  \<^verbatim>\<open>src/src/process/EnvManager.cpp\<close>: the file protocol by which a step hands outputs,
  environment variables and path entries to the runner.  The part of the file system the manager
  uses is a map from paths to contents, threaded through every operation; opening for writing is
  taken to succeed.
\<close>

type_synonym files = "string \<rightharpoonup> string"

record env_manager =
  workspace_dir :: string
  env_overrides :: "string smap"
  path_prepends :: "string list"
  em_event_name :: string
  event_payload_path :: string

definition new_env_manager :: "string \<Rightarrow> env_manager" where
  "new_env_manager dir = \<lparr>workspace_dir = dir, env_overrides = [], path_prepends = [],
     em_event_name = [], event_payload_path = []\<rparr>"

definition githubOutputPath :: "env_manager \<Rightarrow> string" where
  "githubOutputPath em = path_join (workspace_dir em) ''_github_output''"

definition githubEnvPath :: "env_manager \<Rightarrow> string" where
  "githubEnvPath em = path_join (workspace_dir em) ''_github_env''"

definition githubPathPath :: "env_manager \<Rightarrow> string" where
  "githubPathPath em = path_join (workspace_dir em) ''_github_path''"

definition githubStatePath :: "env_manager \<Rightarrow> string" where
  "githubStatePath em = path_join (workspace_dir em) ''_github_state''"

definition githubSummaryPath :: "env_manager \<Rightarrow> string" where
  "githubSummaryPath em = path_join (workspace_dir em) ''_github_summary''"

definition protocol_paths :: "env_manager \<Rightarrow> string list" where
  "protocol_paths em = [githubOutputPath em, githubEnvPath em, githubPathPath em,
     githubStatePath em, githubSummaryPath em]"

text \<open>Opening in append mode creates the file; opening with truncation empties it.\<close>

definition open_append :: "string \<Rightarrow> files \<Rightarrow> files" where
  "open_append p fs = (case fs p of None \<Rightarrow> fs(p \<mapsto> []) | Some _ \<Rightarrow> fs)"

definition truncateFile :: "string \<Rightarrow> files \<Rightarrow> files" where
  "truncateFile p fs = fs(p \<mapsto> [])"

definition em_setup :: "string \<Rightarrow> string \<Rightarrow> env_manager \<times> files \<Rightarrow> env_manager \<times> files" where
  "em_setup event_payload_json event_name st =
     (case st of (em, fs) \<Rightarrow>
        let em = em\<lparr>em_event_name := event_name\<rparr>;
            fs = fold open_append (protocol_paths em) fs
        in if event_payload_json \<noteq> []
           then (let p = path_join (workspace_dir em) ''_github_event.json''
                 in (em\<lparr>event_payload_path := p\<rparr>, fs(p \<mapsto> event_payload_json)))
           else (em, fs))"

definition em_cleanup :: "env_manager \<Rightarrow> files \<Rightarrow> files" where
  "em_cleanup em fs =
     (let fs = fold (\<lambda>p fs. fs(p := None)) (protocol_paths em) fs
      in if event_payload_path em \<noteq> [] then fs(event_payload_path em := None) else fs)"

fun join_path :: "string list \<Rightarrow> string \<Rightarrow> string" where
  "join_path [] new_path = new_path"
| "join_path (pp # pps) new_path = join_path pps ((if new_path \<noteq> [] then new_path @ '':'' else new_path) @ pp)"

text \<open>\<open>getenv_path\<close> is \<^verbatim>\<open>getenv("PATH")\<close> of the runner process.\<close>

definition currentEnv :: "string option \<Rightarrow> env_manager \<Rightarrow> (string \<times> string) list" where
  "currentEnv getenv_path em =
     [(''GITHUB_OUTPUT'', githubOutputPath em), (''GITHUB_ENV'', githubEnvPath em),
      (''GITHUB_PATH'', githubPathPath em), (''GITHUB_STATE'', githubStatePath em),
      (''GITHUB_STEP_SUMMARY'', githubSummaryPath em)]
     @ (if event_payload_path em \<noteq> [] then [(''GITHUB_EVENT_PATH'', event_payload_path em)] else [])
     @ (if em_event_name em \<noteq> [] then [(''GITHUB_EVENT_NAME'', em_event_name em)] else [])
     @ env_overrides em
     @ (if path_prepends em \<noteq> [] then
          (let current_path = (case getenv_path of Some p \<Rightarrow> p | None \<Rightarrow> []);
               new_path = join_path (path_prepends em) []
           in [(''PATH'', if current_path \<noteq> [] then new_path @ '':'' @ current_path else new_path)])
        else [])"

section \<open>Parsing\<close>

text \<open>The inner loop: value lines up to the delimiter, or to the end of the file.\<close>

fun read_heredoc :: "string \<Rightarrow> string list \<Rightarrow> string \<Rightarrow> bool \<Rightarrow> string \<times> string list" where
  "read_heredoc delimiter [] value first = (value, [])"
| "read_heredoc delimiter (line # rest) value first =
     (let line = chomp_cr line
      in if line = delimiter then (value, rest)
         else read_heredoc delimiter rest
                ((if first then value else value @ [CHR 0x0A]) @ line) False)"

lemma read_heredoc_length [termination_simp]:
  "(v, rest) = read_heredoc d ls value first \<Longrightarrow> length rest \<le> length ls"
proof (induction d ls "value" first rule: read_heredoc.induct)
  case (2 delimiter line rest')
  then show ?case by (fastforce simp: Let_def split: if_splits)
qed simp

definition store_nonempty :: "string \<Rightarrow> string \<Rightarrow> string smap \<Rightarrow> string smap" where
  "store_nonempty key v result = (if key \<noteq> [] then omap_set key v result else result)"

fun parse_kv_lines :: "string list \<Rightarrow> string smap \<Rightarrow> string smap" where
  "parse_kv_lines [] result = result"
| "parse_kv_lines (raw # rest) result =
     (let line = chomp_cr raw
      in if line = [] then parse_kv_lines rest result
         else case str_find ''<<'' line of
           Some delim_pos \<Rightarrow>
             (let key = take delim_pos line; delimiter = drop (delim_pos + 2) line;
                  (v, rest') = read_heredoc delimiter rest [] True
              in parse_kv_lines rest' (store_nonempty key v result))
         | None \<Rightarrow>
             (case str_find ''='' line of
                Some eq_pos \<Rightarrow>
                  parse_kv_lines rest (store_nonempty (take eq_pos line) (drop (eq_pos + 1) line) result)
              | None \<Rightarrow> parse_kv_lines rest result))"

definition parseKeyValueFile :: "files \<Rightarrow> string \<Rightarrow> string smap" where
  "parseKeyValueFile fs path =
     (case fs path of None \<Rightarrow> [] | Some content \<Rightarrow> parse_kv_lines (getlines content) [])"

definition parseOutputs :: "env_manager \<Rightarrow> files \<Rightarrow> string smap" where
  "parseOutputs em fs = parseKeyValueFile fs (githubOutputPath em)"

definition parseState :: "env_manager \<Rightarrow> files \<Rightarrow> string smap" where
  "parseState em fs = parseKeyValueFile fs (githubStatePath em)"

definition applyEnvChanges :: "files \<Rightarrow> env_manager \<Rightarrow> env_manager" where
  "applyEnvChanges fs em =
     em\<lparr>env_overrides := fold (\<lambda>(k, v). omap_set k v) (parseKeyValueFile fs (githubEnvPath em))
          (env_overrides em)\<rparr>"

definition path_lines :: "files \<Rightarrow> string \<Rightarrow> string list" where
  "path_lines fs path =
     (case fs path of None \<Rightarrow> [] | Some content \<Rightarrow> filter (\<lambda>l. l \<noteq> []) (map chomp_cr (getlines content)))"

definition applyPathChanges :: "files \<Rightarrow> env_manager \<Rightarrow> env_manager" where
  "applyPathChanges fs em =
     em\<lparr>path_prepends := path_prepends em @ path_lines fs (githubPathPath em)\<rparr>"

definition resetBetweenSteps :: "env_manager \<Rightarrow> files \<Rightarrow> files" where
  "resetBetweenSteps em fs = truncateFile (githubSummaryPath em) (truncateFile (githubOutputPath em) fs)"

lemma parse_kv_lines_ok: "omap_ok r \<Longrightarrow> omap_ok (parse_kv_lines ls r)"
  by (induction ls r rule: parse_kv_lines.induct)
    (simp_all add: store_nonempty_def Let_def split: option.splits prod.splits)

section \<open>Round trip of the protocol\<close>

text \<open>
  What a step may append to a protocol file: a simple assignment, or a multiline value between a
  delimiter and its repetition.
\<close>

datatype kv_entry = Simple string string | Multiline string string "string list"

fun render_entry :: "kv_entry \<Rightarrow> string" where
  "render_entry (Simple k v) = k @ ''='' @ v @ [CHR 0x0A]"
| "render_entry (Multiline k d ls) =
     k @ ''<<'' @ d @ [CHR 0x0A] @ concat (map (\<lambda>l. l @ [CHR 0x0A]) ls) @ d @ [CHR 0x0A]"

fun join_nl :: "string list \<Rightarrow> string" where
  "join_nl [] = []"
| "join_nl [l] = l"
| "join_nl (l # ls) = l @ CHR 0x0A # join_nl ls"

fun entry_pair :: "kv_entry \<Rightarrow> string \<times> string" where
  "entry_pair (Simple k v) = (k, v)"
| "entry_pair (Multiline k d ls) = (k, join_nl ls)"

definition plain_line :: "string \<Rightarrow> bool" where
  "plain_line l \<longleftrightarrow> CHR 0x0A \<notin> set l \<and> no_cr l"

fun wf_entry :: "kv_entry \<Rightarrow> bool" where
  "wf_entry (Simple k v) \<longleftrightarrow> k \<noteq> [] \<and> CHR ''='' \<notin> set k \<and> CHR 0x0A \<notin> set k
     \<and> plain_line v \<and> \<not> sublist ''<<'' (k @ ''='' @ v)"
| "wf_entry (Multiline k d ls) \<longleftrightarrow> k \<noteq> [] \<and> CHR ''<'' \<notin> set k \<and> CHR 0x0A \<notin> set k
     \<and> plain_line d \<and> (\<forall>l \<in> set ls. plain_line l \<and> l \<noteq> d)"

lemma no_cr_append: "no_cr (a @ b) \<longleftrightarrow> (if b = [] then no_cr a else no_cr b)"
  by (auto simp: no_cr_def)

lemma join_nl_Cons: "ls \<noteq> [] \<Longrightarrow> join_nl (l # ls) = l @ CHR 0x0A # join_nl ls"
  by (cases ls) auto

definition heredoc_value :: "string \<Rightarrow> bool \<Rightarrow> string list \<Rightarrow> string" where
  "heredoc_value acc first ls =
     (if ls = [] then acc else (if first then acc else acc @ [CHR 0x0A]) @ join_nl ls)"

lemma heredoc_value_Cons:
  "heredoc_value ((if first then acc else acc @ [CHR 0x0A]) @ l) False ls = heredoc_value acc first (l # ls)"
  by (cases ls) (auto simp: heredoc_value_def)

lemma read_heredoc_found:
  assumes "\<forall>l \<in> set ls. chomp_cr l \<noteq> d" "chomp_cr l' = d"
  shows "read_heredoc d (ls @ l' # rest) acc first = (heredoc_value acc first (map chomp_cr ls), rest)"
  using assms
proof (induction ls arbitrary: acc first)
  case Nil
  then show ?case by (simp add: heredoc_value_def Let_def)
next
  case (Cons l ls)
  then show ?case by (simp add: Let_def heredoc_value_Cons)
qed

lemma read_heredoc_missing:
  assumes "\<forall>l \<in> set ls. chomp_cr l \<noteq> d"
  shows "read_heredoc d ls acc first = (heredoc_value acc first (map chomp_cr ls), [])"
  using assms
proof (induction ls arbitrary: acc first)
  case Nil
  then show ?case by (simp add: heredoc_value_def)
next
  case (Cons l ls)
  then show ?case by (simp add: Let_def heredoc_value_Cons)
qed

lemma str_find_heredoc:
  "CHR ''<'' \<notin> set k \<Longrightarrow> str_find ''<<'' (k @ ''<<'' @ d) = Some (length k)"
  by (induction k) (auto simp: starts_with_def)

lemma getlines_lines:
  "\<forall>l \<in> set ls. CHR 0x0A \<notin> set l \<Longrightarrow>
   getlines (concat (map (\<lambda>l. l @ [CHR 0x0A]) ls) @ s) = ls @ getlines s"
  by (induction ls) (simp_all add: getlines_line)

lemma getlines_render_Multiline:
  assumes "wf_entry (Multiline k d ls)"
  shows "getlines (render_entry (Multiline k d ls) @ s) = (k @ ''<<'' @ d) # ls @ d # getlines s"
proof -
  have nl: "CHR 0x0A \<notin> set (k @ ''<<'' @ d)" "CHR 0x0A \<notin> set d" "\<forall>l \<in> set ls. CHR 0x0A \<notin> set l"
    using assms by (auto simp: plain_line_def)
  have "render_entry (Multiline k d ls) @ s =
      (k @ ''<<'' @ d) @ CHR 0x0A # (concat (map (\<lambda>l. l @ [CHR 0x0A]) ls) @ d @ CHR 0x0A # s)"
    by simp
  then show ?thesis
    using getlines_line [OF nl(1)] getlines_line [OF nl(2)] getlines_lines [OF nl(3)] by simp
qed

lemma parse_Multiline:
  assumes "wf_entry (Multiline k d ls)"
  shows "parse_kv_lines ((k @ ''<<'' @ d) # ls @ d # rest) r = parse_kv_lines rest (omap_set k (join_nl ls) r)"
proof -
  have cr: "no_cr (k @ ''<<'' @ d)" using assms by (auto simp: plain_line_def no_cr_def)
  have ls: "\<forall>l \<in> set ls. chomp_cr l \<noteq> d" "map chomp_cr ls = ls" "chomp_cr d = d"
    using assms by (auto simp: plain_line_def intro!: map_idI)
  have "read_heredoc d (ls @ d # rest) [] True = (join_nl ls, rest)"
    using read_heredoc_found [OF ls(1,3)] by (simp add: ls heredoc_value_def)
  moreover have "str_find ''<<'' (k @ ''<<'' @ d) = Some (length k)"
    using assms by (intro str_find_heredoc) simp
  ultimately show ?thesis
    using assms cr by (simp add: Let_def store_nonempty_def)
qed

lemma parse_Simple:
  assumes "wf_entry (Simple k v)"
  shows "getlines (render_entry (Simple k v) @ s) = (k @ ''='' @ v) # getlines s"
    and "parse_kv_lines ((k @ ''='' @ v) # rest) r = parse_kv_lines rest (omap_set k v r)"
proof -
  have nl: "CHR 0x0A \<notin> set (k @ ''='' @ v)" using assms by (auto simp: plain_line_def)
  show "getlines (render_entry (Simple k v) @ s) = (k @ ''='' @ v) # getlines s"
    using getlines_line [OF nl] by simp
  have "no_cr (k @ ''='' @ v)" using assms by (auto simp: plain_line_def no_cr_def)
  moreover have "str_find ''<<'' (k @ ''='' @ v) = None" using assms by (simp add: str_find_None_iff)
  moreover have "str_find ''='' (k @ ''='' @ v) = Some (length k)"
    using assms by (simp add: str_find_single_append)
  ultimately show "parse_kv_lines ((k @ ''='' @ v) # rest) r = parse_kv_lines rest (omap_set k v r)"
    using assms by (simp add: Let_def store_nonempty_def)
qed

lemma parse_rendered:
  "\<forall>e \<in> set es. wf_entry e \<Longrightarrow>
   parse_kv_lines (getlines (concat (map render_entry es))) r =
     fold (\<lambda>(k, v). omap_set k v) (map entry_pair es) r"
proof (induction es arbitrary: r)
  case (Cons e es)
  show ?case
  proof (cases e)
    case (Simple k v)
    then show ?thesis using Cons parse_Simple [of k v] by simp
  next
    case (Multiline k d ls)
    then show ?thesis
      using Cons getlines_render_Multiline [of k d ls] parse_Multiline [of k d ls]
      by (simp del: render_entry.simps)
  qed
qed simp

text \<open>
  C15. Reading back what a step wrote: for every sequence of well-formed simple and multiline
  entries appended to \<^verbatim>\<open>$GITHUB_OUTPUT\<close>, the parsed outputs map each key to the value of its
  last entry and contain no other key.
\<close>

theorem parseOutputs_roundtrip:
  assumes "\<forall>e \<in> set es. wf_entry e"
  shows "omap_get (parseOutputs em (fs(githubOutputPath em \<mapsto> concat (map render_entry es)))) k
    = map_of (rev (map entry_pair es)) k"
  using parse_rendered [OF assms, of "[]"] smap.lookup_store_all [of "map entry_pair es" "[]" k]
  by (simp add: parseOutputs_def parseKeyValueFile_def split: option.splits)

theorem parseOutputs_roundtrip_witness:
  "omap_get (parseOutputs (new_env_manager ''/w'') [githubOutputPath (new_env_manager ''/w'') \<mapsto>
      concat (map render_entry [Simple ''a'' ''1'', Multiline ''b'' ''EOF'' [''x=<<'', ''y''], Simple ''a'' ''2''])])
     ''b'' = Some (join_nl [''x=<<'', ''y''])"
  using parseOutputs_roundtrip [of "[Simple ''a'' ''1'', Multiline ''b'' ''EOF'' [''x=<<'', ''y''], Simple ''a'' ''2'']"
      "new_env_manager ''/w''" Map.empty "''b''"]
  by (simp add: plain_line_def no_cr_def sublist_Cons_right)

text \<open>
  A simple assignment whose value contains two less-than signs is not read as an assignment:
  the marker search comes first, so everything before it becomes the key and every following line
  of the file is swallowed as the value, unless a line happens to repeat the text after the marker.
\<close>

theorem simple_value_with_marker:
  assumes "CHR ''<'' \<notin> set k" "CHR ''<'' \<notin> set a" "no_cr b" "\<forall>l \<in> set rest. chomp_cr l \<noteq> b"
  shows "parse_kv_lines ((k @ ''='' @ a @ ''<<'' @ b) # rest) r =
    omap_set (k @ ''='' @ a) (join_nl (map chomp_cr rest)) r"
proof -
  let ?l = "(k @ ''='' @ a) @ ''<<'' @ b"
  have "str_find ''<<'' ?l = Some (length (k @ ''='' @ a))"
    using assms(1,2) by (intro str_find_heredoc) auto
  moreover have "no_cr ?l" using assms(3) by (auto simp: no_cr_def)
  moreover have "read_heredoc b rest [] True = (join_nl (map chomp_cr rest), [])"
    using read_heredoc_missing [OF assms(4)] by (cases rest) (simp_all add: heredoc_value_def)
  moreover have "drop (3 + length a) (CHR ''='' # a @ ''<<'' @ b) = b"
    by (simp add: numeral_3_eq_3)
  ultimately show ?thesis by (simp add: Let_def store_nonempty_def)
qed

theorem simple_value_with_marker_witness:
  "parse_kv_lines [''URL=a<<b'', ''NEXT=1''] [] = [(''URL=a'', ''NEXT=1'')]"
  using simple_value_with_marker [of "''URL''" "''a''" "''b''" "[''NEXT=1'']" "[]"]
  by (simp add: no_cr_def chomp_cr_def)

section \<open>Between steps\<close>

lemma protocol_paths_distinct:
  "githubOutputPath em \<noteq> githubEnvPath em" "githubOutputPath em \<noteq> githubPathPath em"
  "githubOutputPath em \<noteq> githubStatePath em" "githubSummaryPath em \<noteq> githubEnvPath em"
  "githubSummaryPath em \<noteq> githubPathPath em" "githubSummaryPath em \<noteq> githubStatePath em"
  by (auto simp: githubOutputPath_def githubEnvPath_def githubPathPath_def githubStatePath_def
      githubSummaryPath_def starts_with_def dest!: path_join_inj)

text \<open>What the step runner does with the manager after a step.\<close>

definition end_of_step :: "env_manager \<times> files \<Rightarrow> env_manager \<times> files" where
  "end_of_step st = (case st of (em, fs) \<Rightarrow>
     let em = applyPathChanges fs (applyEnvChanges fs em) in (em, resetBetweenSteps em fs))"

lemma paths_update [simp]:
  "githubOutputPath (em\<lparr>env_overrides := x, path_prepends := y\<rparr>) = githubOutputPath em"
  "githubEnvPath (em\<lparr>env_overrides := x, path_prepends := y\<rparr>) = githubEnvPath em"
  "githubPathPath (em\<lparr>env_overrides := x, path_prepends := y\<rparr>) = githubPathPath em"
  "githubSummaryPath (em\<lparr>env_overrides := x, path_prepends := y\<rparr>) = githubSummaryPath em"
  "githubPathPath (em\<lparr>env_overrides := x\<rparr>) = githubPathPath em"
  by (simp_all add: githubOutputPath_def githubEnvPath_def githubPathPath_def githubSummaryPath_def)

lemma end_of_step_eq:
  "end_of_step (em, fs) =
     (em\<lparr>env_overrides := fold (\<lambda>(k, v). omap_set k v) (parseKeyValueFile fs (githubEnvPath em)) (env_overrides em),
         path_prepends := path_prepends em @ path_lines fs (githubPathPath em)\<rparr>,
      fs(githubOutputPath em \<mapsto> [], githubSummaryPath em \<mapsto> []))"
  by (simp add: end_of_step_def applyPathChanges_def applyEnvChanges_def resetBetweenSteps_def
      truncateFile_def Let_def)

text \<open>
  At the end of a step the outputs and the summary are cleared, so the next step starts with no
  outputs, while the environment, path and state files keep their contents.
\<close>

theorem end_of_step_files:
  "end_of_step (em, fs) = (em', fs') \<Longrightarrow>
   parseOutputs em' fs' = [] \<and> fs' (githubSummaryPath em) = Some []
   \<and> (\<forall>p \<in> {githubEnvPath em, githubPathPath em, githubStatePath em}. fs' p = fs p)"
  using protocol_paths_distinct [of em]
  by (auto simp: end_of_step_eq parseOutputs_def parseKeyValueFile_def)

theorem end_of_step_files_witness:
  "parseOutputs (fst (end_of_step (new_env_manager ''/w'', Map.empty)))
     (snd (end_of_step (new_env_manager ''/w'', Map.empty))) = []"
  using end_of_step_files [of "new_env_manager ''/w''" Map.empty] by (metis prod.collapse)

text \<open>
  Because the path file is never truncated, every later step appends all of its lines again:
  after \<open>n\<close> steps the manager holds \<open>n\<close> copies of the path entries written by the first one.
\<close>

theorem path_prepends_repeat:
  "path_prepends (fst ((end_of_step ^^ n) (em, fs))) =
     path_prepends em @ concat (replicate n (path_lines fs (githubPathPath em)))"
proof (induction n arbitrary: em fs)
  case (Suc n)
  obtain em' fs' where e: "end_of_step (em, fs) = (em', fs')" by fastforce
  then have "path_prepends em' = path_prepends em @ path_lines fs (githubPathPath em)"
    "githubPathPath em' = githubPathPath em" "fs' (githubPathPath em) = fs (githubPathPath em)"
    using protocol_paths_distinct [of em] by (auto simp: end_of_step_eq)
  with Suc [of em' fs'] e show ?case by (simp add: funpow_Suc_right path_lines_def del: funpow.simps)
qed simp

end
