(* ===== verification/Step_Runner.thy ===== *)
theory Step_Runner
  imports Exec_Monad Process_Spawner Env_Manager Workflow_Types
begin

text \<open>
  \<^verbatim>\<open>src/src/runner/StepRunner.cpp\<close>: one step of a job, from its condition to the collection of its
  outputs.  The state is what the step runner changes: the environment manager, the files, the lines
  given to the log forwarder, the queue of deferred scripts and the processes spawned so far.  The
  operating system and \<^verbatim>\<open>ActionRunner::run\<close> are parameters (\<open>step_world\<close>).
\<close>

record post_script =
  ps_node_bin :: string
  ps_script_path :: string
  ps_working_dir :: string
  ps_env :: "string list"

record exec_state =
  x_em :: env_manager
  x_files :: files
  x_log :: "string list"
  x_posts :: "post_script list"
  x_procs :: "spawn_request list"

record step_run_result =
  st_ok :: bool
  st_exit_code :: int
  st_outputs :: "string smap"

definition new_step_result :: step_run_result where
  "new_step_result = \<lparr>st_ok = False, st_exit_code = -1, st_outputs = []\<rparr>"

text \<open>
  \<open>sw_os procs req fs\<close>: what becomes of the process requested when \<open>procs\<close> were spawned before, and
  the files it leaves.
\<close>

record step_world =
  sw_platform :: platform
  sw_eval :: "files \<Rightarrow> world"
  sw_environ :: "string list"
  sw_getenv_path :: "string option"
  sw_mkdirs :: "string \<Rightarrow> exn option"
  sw_os :: "spawn_request list \<Rightarrow> spawn_request \<Rightarrow> files \<Rightarrow> child_outcome \<times> files"
  sw_action :: "step \<Rightarrow> expr_context \<Rightarrow> (string \<times> string) list \<Rightarrow> (exec_state, step_run_result) comp"

record step_runner =
  sr_workspace :: string
  sr_default_shell :: string
  sr_gitea_url :: string
  sr_actions_url :: string
  sr_cache_dir :: string

definition new_step_runner :: "string \<Rightarrow> string \<Rightarrow> string \<Rightarrow> string \<Rightarrow> string \<Rightarrow> step_runner" where
  "new_step_runner workspace shell gitea_url actions_url cache_dir =
     \<lparr>sr_workspace = workspace, sr_default_shell = (if shell = [] then ''/bin/sh'' else shell),
      sr_gitea_url = gitea_url, sr_actions_url = (if actions_url = [] then ''https://github.com'' else actions_url),
      sr_cache_dir = (if cache_dir = [] then (if workspace = [] then ''/tmp/act_runner_actions''
                        else workspace @ ''/../act_runner_actions'') else cache_dir)\<rparr>"

definition resolveShell :: "step_runner \<Rightarrow> step \<Rightarrow> string" where
  "resolveShell sr st =
     (if step_shell st \<noteq> [] then
        (if step_shell st = ''bash'' then ''/bin/bash''
         else if step_shell st = ''sh'' then ''/bin/sh''
         else step_shell st)
      else sr_default_shell sr)"

definition log_append :: "string \<Rightarrow> (exec_state, unit) comp" where
  "log_append line = smod (\<lambda>s. s\<lparr>x_log := x_log s @ [line]\<rparr>)"

section \<open>Time limits\<close>

text \<open>The product of two \<^verbatim>\<open>int\<close> values.\<close>

definition mul_int :: "int \<Rightarrow> int \<Rightarrow> int eres" where
  "mul_int a b = (if - (2 ^ 31) \<le> a * b \<and> a * b < 2 ^ 31 then EOk (a * b) else EUndef Signed_overflow)"

definition step_timeout :: "step \<Rightarrow> int eres" where
  "step_timeout st = (if 0 < step_timeout_minutes st then mul_int (step_timeout_minutes st) 60 else EOk 0)"

definition effective_timeout :: "int \<Rightarrow> int \<Rightarrow> int" where
  "effective_timeout step_timeout_s job_remaining_s =
     (if 0 < step_timeout_s \<and> 0 < job_remaining_s then min step_timeout_s job_remaining_s
      else if 0 < step_timeout_s then step_timeout_s
      else if 0 < job_remaining_s then job_remaining_s
      else 0)"

section \<open>Scripts\<close>

definition script_path :: "env_manager \<Rightarrow> step \<Rightarrow> string" where
  "script_path em st = path_join (workspace_dir em) (''_step_'' @ step_id st @ ''.sh'')"

definition script_text :: "string \<Rightarrow> string \<Rightarrow> string" where
  "script_text shell script =
     (if str_find ''bash'' shell \<noteq> None then ''#!/bin/bash'' @ [CHR 0x0A] @ ''set -eo pipefail'' @ [CHR 0x0A]
      else ''#!/bin/sh'' @ [CHR 0x0A] @ ''set -e'' @ [CHR 0x0A])
     @ script @ [CHR 0x0A]"

text \<open>
  Run a process.  \<open>cb\<close> is what the output callback appends to the log for a line and its stream
  (\<^const>\<open>True\<close> for the error stream); a step's callback appends every line.
\<close>

definition spawn_with :: "step_world \<Rightarrow> (string \<times> bool \<Rightarrow> string list) \<Rightarrow> string \<Rightarrow> string \<Rightarrow> string \<Rightarrow> string list \<Rightarrow> int
    \<Rightarrow> (exec_state, process_result) comp" where
  "spawn_with w cb shell script work_dir env timeout_s s =
     (let req = \<lparr>sp_argv = build_argv (sw_platform w) shell script work_dir, sp_env = env, sp_timeout = timeout_s\<rparr>;
          (outcome, fs) = sw_os w (x_procs s) req (x_files s);
          (res, callbacks) = spawn_run (sw_platform w) (\<lambda>_. outcome) shell script work_dir env timeout_s
      in Some (of_result res, s\<lparr>x_files := fs, x_procs := x_procs s @ [req], x_log := x_log s @ concat (map cb callbacks)\<rparr>))"

definition every_line :: "string \<times> bool \<Rightarrow> string list" where
  "every_line l = [fst l]"

definition spawn :: "step_world \<Rightarrow> string \<Rightarrow> string \<Rightarrow> string \<Rightarrow> string list \<Rightarrow> int \<Rightarrow> (exec_state, process_result) comp" where
  "spawn w = spawn_with w every_line"

definition exit_message :: "process_result \<Rightarrow> string list" where
  "exit_message proc =
     (if killed proc then
        [''##[error]Step killed by signal '' @ int_to_string (proc_signal proc)
          @ (if proc_signal proc = 7
             then '' (SIGKILLTHR '' @ [CHR 0xE2, CHR 0x80, CHR 0x94] @ '' Haiku posix_spawn race; try: act_runner run --retry 3)''
             else [])]
      else if exit_code proc \<noteq> 0 then [''##[error]Process completed with exit code '' @ int_to_string (exit_code proc)]
      else [])"

definition runScript :: "step_world \<Rightarrow> step \<Rightarrow> string \<Rightarrow> string \<Rightarrow> string \<Rightarrow> string list \<Rightarrow> int
    \<Rightarrow> (exec_state, step_run_result) comp" where
  "runScript w st script shell work_dir env job_remaining_s =
     sbind (sget (\<lambda>s. script_path (x_em s) st)) (\<lambda>path.
     sbind (smod (\<lambda>s. s\<lparr>x_files := (x_files s)(path \<mapsto> script_text shell script)\<rparr>)) (\<lambda>_.
     sbind (slift (Some (step_timeout st))) (\<lambda>step_timeout_s.
     sbind (spawn w shell path work_dir env (effective_timeout step_timeout_s job_remaining_s)) (\<lambda>proc.
     sbind (smod (\<lambda>s. s\<lparr>x_files := (x_files s)(path := None), x_log := x_log s @ exit_message proc\<rparr>)) (\<lambda>_.
     sret \<lparr>st_ok = (exit_code proc = 0), st_exit_code = exit_code proc, st_outputs = []\<rparr>)))))"

text \<open>
  An action: an exception of the action runner is a failure of the step, unless the step continues
  on errors.
\<close>

definition runAction :: "step_world \<Rightarrow> step \<Rightarrow> expr_context \<Rightarrow> (exec_state, step_run_result) comp" where
  "runAction w st ctx =
     sbind (sget (\<lambda>s. currentEnv (sw_getenv_path w) (x_em s))) (\<lambda>base_env.
     scatch (sw_action w st ctx base_env) (\<lambda>e.
       sbind (log_append (''##[error]Action failed: '' @ what e)) (\<lambda>_.
       sret \<lparr>st_ok = step_continue_on_error st, st_exit_code = 1, st_outputs = []\<rparr>)))"

section \<open>A step\<close>

definition step_env_pairs :: "(string \<times> string) list \<Rightarrow> (string \<times> string) list \<Rightarrow> string option \<Rightarrow> env_manager
    \<Rightarrow> (string \<times> string) list" where
  "step_env_pairs base_env senv getenv_path em = base_env @ senv @ currentEnv getenv_path em"

definition step_work_dir :: "evaluator \<Rightarrow> step_runner \<Rightarrow> step \<Rightarrow> (exec_state, string) comp" where
  "step_work_dir ev sr st =
     (if step_working_dir st = [] then sret (sr_workspace sr)
      else sbind (slift (interpolate ev (step_working_dir st))) (\<lambda>d.
        sret (if d \<noteq> [] \<and> hd d = CHR ''/'' then d else sr_workspace sr @ ''/'' @ d)))"

definition create_directories :: "step_world \<Rightarrow> string \<Rightarrow> (exec_state, unit) comp" where
  "create_directories w d = (case sw_mkdirs w d of None \<Rightarrow> sret () | Some e \<Rightarrow> sthrow e)"

definition dispatch_step :: "step_world \<Rightarrow> step_runner \<Rightarrow> evaluator \<Rightarrow> expr_context \<Rightarrow> step \<Rightarrow> string \<Rightarrow> string list \<Rightarrow> int
    \<Rightarrow> (exec_state, step_run_result) comp" where
  "dispatch_step w sr ev ctx st work_dir env remaining_s =
     (if step_run st \<noteq> [] then
        sbind (slift (interpolate ev (step_run st))) (\<lambda>script.
          runScript w st script (resolveShell sr st) work_dir env remaining_s)
      else if step_uses st \<noteq> [] then runAction w st ctx
      else sbind (log_append (''##[error]Step '' @ quoted (step_id st) @ '' has neither '' @ quoted ''run'' @ '' nor '' @ quoted ''uses''))
             (\<lambda>_. sret (new_step_result\<lparr>st_exit_code := 1\<rparr>)))"

text \<open>The end of a step: outputs, environment and path changes, and the reset of the protocol files.\<close>

definition collect_step :: "step_run_result \<Rightarrow> (exec_state, step_run_result) comp" where
  "collect_step r =
     sbind (sget (\<lambda>s. fold (\<lambda>(k, v). omap_set k v) (parseOutputs (x_em s) (x_files s)) (st_outputs r))) (\<lambda>outs.
     sbind (smod (\<lambda>s. s\<lparr>x_em := applyPathChanges (x_files s) (applyEnvChanges (x_files s) (x_em s))\<rparr>)) (\<lambda>_.
     sbind (smod (\<lambda>s. s\<lparr>x_files := resetBetweenSteps (x_em s) (x_files s)\<rparr>)) (\<lambda>_.
     sret (r\<lparr>st_outputs := outs\<rparr>))))"

definition run_step_body :: "step_world \<Rightarrow> step_runner \<Rightarrow> evaluator \<Rightarrow> expr_context \<Rightarrow> step \<Rightarrow> (string \<times> string) list
    \<Rightarrow> int \<Rightarrow> (exec_state, step_run_result) comp" where
  "run_step_body w sr ev ctx st base_env remaining_s =
     sbind (slift (if step_name st = [] then Some (EOk (step_id st)) else interpolate ev (step_name st))) (\<lambda>display_name.
     sbind (log_append (''##[group]'' @ display_name)) (\<lambda>_.
     sbind (smap (\<lambda>(k, v). sbind (slift (interpolate ev v)) (\<lambda>v'. sret (k, v'))) (step_env st)) (\<lambda>senv.
     sbind (sget (\<lambda>s. buildEnv (sw_environ w) (step_env_pairs base_env senv (sw_getenv_path w) (x_em s)) [])) (\<lambda>env.
     sbind (step_work_dir ev sr st) (\<lambda>work_dir.
     sbind (create_directories w work_dir) (\<lambda>_.
     sbind (dispatch_step w sr ev ctx st work_dir env remaining_s) (\<lambda>r.
     sbind (log_append ''##[endgroup]'') (\<lambda>_.
     collect_step r))))))))"

definition step_runner_run :: "step_world \<Rightarrow> step_runner \<Rightarrow> step \<Rightarrow> expr_context \<Rightarrow> (string \<times> string) list \<Rightarrow> int
    \<Rightarrow> (exec_state, step_run_result) comp" where
  "step_runner_run w sr st ctx base_env remaining_s =
     sbind (sget (\<lambda>s. new_evaluator (sw_eval w (x_files s)) ctx)) (\<lambda>ev.
     sbind (slift (evaluateCondition ev (step_if_condition st))) (\<lambda>cond.
       if \<not> cond then
         sbind (log_append (''##[debug]Step '' @ quoted (step_id st) @ '' skipped (if: '' @ step_if_condition st @ '')''))
           (\<lambda>_. sret (new_step_result\<lparr>st_ok := True, st_exit_code := 0\<rparr>))
       else run_step_body w sr ev ctx st base_env remaining_s))"

section \<open>The environment of a process\<close>

lemma currentEnv_names:
  assumes "\<forall>(k, v) \<in> set (env_overrides em). CHR ''='' \<notin> set k"
  shows "\<forall>(k, v) \<in> set (currentEnv getenv_path em). CHR ''='' \<notin> set k"
  using assms by (auto simp: currentEnv_def Let_def)



section \<open>The time limit of a process\<close>

lemma effective_timeout_bounds:
  "0 < rem \<Longrightarrow> 0 < effective_timeout t rem \<and> effective_timeout t rem \<le> rem \<and> (0 < t \<longrightarrow> effective_timeout t rem \<le> t)"
  by (auto simp: effective_timeout_def)

definition within_limit :: "step \<Rightarrow> int \<Rightarrow> spawn_request \<Rightarrow> bool" where
  "within_limit st rem req \<longleftrightarrow> 0 < sp_timeout req \<and> sp_timeout req \<le> rem
     \<and> (0 < step_timeout_minutes st \<longrightarrow> sp_timeout req \<le> step_timeout_minutes st * 60)"

abbreviation spawns :: "(spawn_request \<Rightarrow> bool) \<Rightarrow> (exec_state, 'a) comp \<Rightarrow> bool" where
  "spawns \<equiv> extends x_procs"

lemma spawns_log [simp]: "spawns P (log_append l)"
  unfolding log_append_def by (rule extends_smod) simp

lemma spawns_spawn: "P \<lparr>sp_argv = build_argv (sw_platform w) shell script d, sp_env = env, sp_timeout = t\<rparr> \<Longrightarrow>
    spawns P (spawn w shell script d env t)"
  by (auto simp: extends_def spawn_def spawn_with_def Let_def split: prod.splits)

lemma spawns_runScript:
  assumes "0 < rem"
  shows "spawns (within_limit st rem) (runScript w st script shell d env rem)"
proof (cases "step_timeout st")
  case (EOk t)
  then have "0 < step_timeout_minutes st \<Longrightarrow> t = step_timeout_minutes st * 60"
    by (auto simp: step_timeout_def mul_int_def split: if_splits)
  then have "within_limit st rem \<lparr>sp_argv = argv, sp_env = env, sp_timeout = effective_timeout t rem\<rparr>" for argv
    using effective_timeout_bounds [OF assms, of t] by (auto simp: within_limit_def)
  then have "spawns (within_limit st rem) (spawn w shell path d env (effective_timeout t rem))" for path
    by (rule spawns_spawn)
  moreover have "sbind (slift (Some (EOk t))) k = k t" for k :: "int \<Rightarrow> (exec_state, step_run_result) comp"
    by (rule ext) simp
  ultimately show ?thesis
    unfolding runScript_def EOk by (auto intro!: extends_sbind extends_smod)
next
  case (EThrow e)
  then show ?thesis by (auto simp: step_timeout_def mul_int_def split: if_splits)
next
  case (EUndef u)
  have "sbind (slift (Some (EUndef u))) k = slift (Some (EUndef u))" for k :: "int \<Rightarrow> (exec_state, step_run_result) comp"
    by (rule ext) simp
  then show ?thesis
    unfolding runScript_def EUndef by (auto intro!: extends_sbind extends_smod)
qed

lemma spawns_collect_step [simp]: "spawns P (collect_step r)"
  unfolding collect_step_def by (intro extends_sbind extends_smod) simp_all

lemma spawns_work_dir [simp]: "spawns P (step_work_dir ev sr st)"
  unfolding step_work_dir_def by (auto intro: extends_sbind)

lemma spawns_create_directories [simp]: "spawns P (create_directories w d)"
  by (simp add: create_directories_def split: option.split)

lemma spawns_dispatch:
  "0 < rem \<Longrightarrow> step_run st \<noteq> [] \<or> step_uses st = [] \<Longrightarrow> spawns (within_limit st rem) (dispatch_step w sr ev ctx st d env rem)"
  unfolding dispatch_step_def by (auto intro!: extends_sbind spawns_runScript)

lemma spawns_step:
  assumes "0 < rem" "step_run st \<noteq> [] \<or> step_uses st = []"
  shows "spawns (within_limit st rem) (step_runner_run w sr st ctx base_env rem)"
  unfolding step_runner_run_def run_step_body_def
  by (auto intro!: extends_sbind extends_smap spawns_dispatch [OF assms])

text \<open>
  C18. A \<^verbatim>\<open>run:\<close> step with a positive remaining budget spawns at most processes whose time limit is
  positive and neither exceeds the remaining budget of the job nor the step's own limit, however the
  step ends.
\<close>

theorem step_time_limit:
  assumes "step_runner_run w sr st ctx base_env rem s = Some (r, s')" "0 < rem" "step_run st \<noteq> []"
  shows "\<exists>reqs. x_procs s' = x_procs s @ reqs
    \<and> (\<forall>req \<in> set reqs. 0 < sp_timeout req \<and> sp_timeout req \<le> rem
         \<and> (0 < step_timeout_minutes st \<longrightarrow> sp_timeout req \<le> step_timeout_minutes st * 60))"
  using spawns_step [OF assms(2), of st w sr ctx base_env] assms(1,3)
  unfolding extends_def within_limit_def list_all_iff by blast

text \<open>
  A step with the condition \<^verbatim>\<open>failure()\<close> never runs: every step is evaluated with a new evaluator, for
  which no step has failed.
\<close>

lemma failure_condition_skips:
  assumes "step_if_condition st = ''failure()''"
  shows "\<exists>line. step_runner_run w sr st ctx base_env rem s =
    Some (EOk \<lparr>st_ok = True, st_exit_code = 0, st_outputs = []\<rparr>, s\<lparr>x_log := x_log s @ [line]\<rparr>)"
proof -
  have t: "tokenize ''failure()'' = EOk [Identifier ''failure'', LParen, RParen, Eof]"
    by (simp add: tokenize.simps is_space_def is_quote_def starts_number_def is_digit_def two_char_op_def
        one_char_op_def isIdentStart_def isIdentChar_def is_alnum_def is_alpha_def ascii_def keyword_def)
  have "trim ''failure()'' = ''failure()''" "strip_delims ''failure()'' = ''failure()''"
    by (simp_all add: trim_def strip_delims_def is_space_def ascii_def)
  moreover have "callFunction (new_evaluator w ctx) ''failure'' [] = EOk (EBool False)" for w ctx
    by (simp add: callFunction_def new_evaluator_def to_lower_def to_lower_char_def ascii_def)
  then have "parse (new_evaluator w ctx) POr [Identifier ''failure'', LParen, RParen, Eof] = Some (EOk (EBool False, [Eof]))" for w ctx
    by (simp add: parse_mode_eqs parse_PComparison_eq parse_PPrimary_eqs parse_PArgs_eq after_left_def is_compare_def)
  ultimately have "evaluateCondition (new_evaluator w ctx) ''failure()'' = Some (EOk False)" for w ctx
    by (simp add: evaluateCondition_def evaluateExpr_def t)
  with assms show ?thesis
    by (auto simp: step_runner_run_def log_append_def new_step_result_def)
qed

section \<open>A concrete step\<close>

definition demo_step_world :: step_world where
  "demo_step_world = \<lparr>sw_platform = Haiku, sw_eval = (\<lambda>_. demo_world), sw_environ = [], sw_getenv_path = None,
     sw_mkdirs = (\<lambda>_. None), sw_os = (\<lambda>_ _ fs. (Child_ended (Exited 0) [] [] [], fs)),
     sw_action = (\<lambda>_ _ _. sthrow (Runtime_error ''no actions''))\<rparr>"

definition demo_exec_state :: exec_state where
  "demo_exec_state = \<lparr>x_em = new_env_manager ''/w'', x_files = Map.empty, x_log = [], x_posts = [], x_procs = []\<rparr>"

definition demo_run_step :: step where
  "demo_run_step = default_step\<lparr>step_id := ''s'', step_run := ''true''\<rparr>"

lemma demo_run_step_runs:
  "\<exists>r s'. step_runner_run demo_step_world sr demo_run_step ctx base_env rem s = Some (EOk r, s') \<and> st_ok r"
  by (simp add: step_runner_run_def evaluateCondition_def demo_run_step_def default_step_def run_step_body_def log_append_def
      step_work_dir_def create_directories_def demo_step_world_def dispatch_step_def runScript_def step_timeout_def sbind_def
      spawn_def spawn_with_def spawn_run_def exit_message_def new_process_result_def collect_step_def)

theorem step_time_limit_witness:
  "\<exists>r s'. step_runner_run demo_step_world (new_step_runner ''/w'' [] [] [] []) demo_run_step [] [] 60 demo_exec_state = Some (r, s')
     \<and> list_all (\<lambda>req. 0 < sp_timeout req \<and> sp_timeout req \<le> 60) (x_procs s')"
proof -
  obtain r s' where r: "step_runner_run demo_step_world (new_step_runner ''/w'' [] [] [] []) demo_run_step [] [] 60 demo_exec_state = Some (EOk r, s')"
    using demo_run_step_runs by blast
  from step_time_limit [OF r] r show ?thesis
    by (force simp: demo_run_step_def default_step_def demo_exec_state_def list_all_iff)
qed

end
