(* ===== verification/Workflow_Parser.thy ===== *)
theory Workflow_Parser
  imports Job_Graph Yaml_Nodes
begin

text \<open>
  \<^verbatim>\<open>src/src/workflow/WorkflowParser.cpp\<close>: from a YAML document to a workflow, and the structural
  validation of a workflow.
\<close>

section \<open>Reading nodes\<close>

text \<open>The helpers \<^verbatim>\<open>str\<close>, \<^verbatim>\<open>boolean\<close> and \<^verbatim>\<open>integer\<close> never throw.\<close>

fun str :: "ynode option \<Rightarrow> string" where
  "str (Some (YScalar s)) = s"
| "str _ = []"

definition boolean :: "yaml_api \<Rightarrow> ynode option \<Rightarrow> bool" where
  "boolean y n = (case n of None \<Rightarrow> False | Some YNull \<Rightarrow> False
     | Some m \<Rightarrow> (case as_bool y m of Inr b \<Rightarrow> b | Inl _ \<Rightarrow> False))"

definition integer :: "yaml_api \<Rightarrow> ynode option \<Rightarrow> int" where
  "integer y n = (case n of None \<Rightarrow> 0 | Some YNull \<Rightarrow> 0
     | Some m \<Rightarrow> (case as_int y m of Inr i \<Rightarrow> i | Inl _ \<Rightarrow> 0))"

definition parseStringMap :: "ynode option \<Rightarrow> string smap result" where
  "parseStringMap n =
     (case n of
        Some (YMap kvs) \<Rightarrow>
          rfold (\<lambda>(k, v) m. rbind (as_string k) (\<lambda>key. Inr (omap_set key (str (Some v)) m))) kvs []
      | _ \<Rightarrow> Inr [])"

definition parseStringSeq :: "ynode option \<Rightarrow> string list" where
  "parseStringSeq n =
     (case n of
        Some (YScalar s) \<Rightarrow> [s]
      | Some (YSeq xs) \<Rightarrow> map (\<lambda>v. str (Some v)) xs
      | _ \<Rightarrow> [])"

section \<open>Matrix, steps and jobs\<close>

definition parse_entries :: "ynode \<Rightarrow> string smap list result" where
  "parse_entries n = (case n of YSeq xs \<Rightarrow> rmap (\<lambda>e. parseStringMap (Some e)) xs | _ \<Rightarrow> Inr [])"

definition add_axis :: "string \<Rightarrow> ynode \<Rightarrow> string list smap \<Rightarrow> string list smap" where
  "add_axis key n axs =
     (case n of
        YSeq xs \<Rightarrow>
          if xs = [] then axs
          else omap_set key ((case omap_get axs key of Some vs \<Rightarrow> vs | None \<Rightarrow> []) @ map (\<lambda>v. str (Some v)) xs) axs
      | _ \<Rightarrow> axs)"

definition parseMatrix :: "ynode option \<Rightarrow> matrix result" where
  "parseMatrix n =
     (case n of
        Some (YMap kvs) \<Rightarrow>
          rfold (\<lambda>(k, v) m. rbind (as_string k) (\<lambda>key.
            if key = ''include'' then
              rbind (parse_entries v) (\<lambda>es. Inr (m\<lparr>include_entries := include_entries m @ es\<rparr>))
            else if key = ''exclude'' then
              rbind (parse_entries v) (\<lambda>es. Inr (m\<lparr>exclude_entries := exclude_entries m @ es\<rparr>))
            else Inr (m\<lparr>axes := add_axis key v (axes m)\<rparr>)))
          kvs \<lparr>axes = [], include_entries = [], exclude_entries = []\<rparr>
      | _ \<Rightarrow> Inr \<lparr>axes = [], include_entries = [], exclude_entries = []\<rparr>)"

text \<open>Read a field of a node and go on.\<close>

definition with_field :: "ynode \<Rightarrow> string \<Rightarrow> (ynode option \<Rightarrow> 'a result) \<Rightarrow> 'a result" where
  "with_field n key k = rbind (yget n key) k"

definition parseStep :: "yaml_api \<Rightarrow> ynode \<Rightarrow> nat \<Rightarrow> step result" where
  "parseStep y n index =
     with_field n ''id'' (\<lambda>nid.
     with_field n ''name'' (\<lambda>name.
     with_field n ''uses'' (\<lambda>uses_n.
     with_field n ''run'' (\<lambda>run.
     with_field n ''shell'' (\<lambda>shell.
     with_field n ''working-directory'' (\<lambda>wd.
     with_field n ''if'' (\<lambda>cond.
     with_field n ''continue-on-error'' (\<lambda>coe.
     with_field n ''timeout-minutes'' (\<lambda>tm.
     with_field n ''env'' (\<lambda>env. rbind (parseStringMap env) (\<lambda>env.
     with_field n ''with'' (\<lambda>wth. rbind (parseStringMap wth) (\<lambda>wth.
     Inr \<lparr>step_id = (if str nid = [] then ''step_'' @ nat_to_string index else str nid),
          step_name = str name, step_uses = str uses_n, step_run = str run, step_shell = str shell,
          step_working_dir = str wd, step_if_condition = str cond, step_env = env, step_with = wth,
          step_continue_on_error = boolean y coe, step_timeout_minutes = integer y tm\<rparr>)))))))))))))"

fun parse_steps :: "yaml_api \<Rightarrow> nat \<Rightarrow> ynode list \<Rightarrow> step list result" where
  "parse_steps y idx [] = Inr []"
| "parse_steps y idx (n # ns) =
     rbind (parseStep y n idx) (\<lambda>s. rbind (parse_steps y (Suc idx) ns) (\<lambda>ss. Inr (s # ss)))"

definition parse_run_defaults :: "ynode \<Rightarrow> (string \<times> string) result" where
  "parse_run_defaults n =
     rbind (yget n ''defaults'') (\<lambda>d.
     rbind (yget_opt d ''run'') (\<lambda>r.
       case r of
         None \<Rightarrow> Inr ([], [])
       | Some rn \<Rightarrow>
           with_field rn ''shell'' (\<lambda>sh. with_field rn ''working-directory'' (\<lambda>wd. Inr (str sh, str wd)))))"

definition parse_strategy :: "yaml_api \<Rightarrow> ynode option \<Rightarrow> job \<Rightarrow> job result" where
  "parse_strategy y strat j =
     (case strat of
        None \<Rightarrow> Inr j
      | Some s \<Rightarrow>
          rbind (yget s ''matrix'') (\<lambda>mx.
          rbind (case mx of None \<Rightarrow> Inr j | Some m \<Rightarrow> rbind (parseMatrix (Some m)) (\<lambda>m. Inr (j\<lparr>job_matrix := Some m\<rparr>))) (\<lambda>j.
          rbind (yget s ''fail-fast'') (\<lambda>ff.
          rbind (case ff of Some (YScalar t) \<Rightarrow> rbind (as_bool y (YScalar t)) (\<lambda>b. Inr (j\<lparr>job_fail_fast := b\<rparr>)) | _ \<Rightarrow> Inr j) (\<lambda>j.
          rbind (yget s ''max-parallel'') (\<lambda>mp.
          (case mp of Some (YScalar t) \<Rightarrow> rbind (as_int y (YScalar t)) (\<lambda>i. Inr (j\<lparr>job_max_parallel := i\<rparr>)) | _ \<Rightarrow> Inr j)))))))"

text \<open>The scalar fields of a job, before its defaults, strategy and steps.\<close>

definition parse_job_fields :: "yaml_api \<Rightarrow> string \<Rightarrow> ynode \<Rightarrow> job result" where
  "parse_job_fields y jid n =
     with_field n ''name'' (\<lambda>name.
     with_field n ''runs-on'' (\<lambda>ro.
     with_field n ''if'' (\<lambda>cond.
     with_field n ''needs'' (\<lambda>needs.
     with_field n ''env'' (\<lambda>env. rbind (parseStringMap env) (\<lambda>env.
     with_field n ''timeout-minutes'' (\<lambda>tm.
     with_field n ''continue-on-error'' (\<lambda>coe.
     with_field n ''outputs'' (\<lambda>outs. rbind (parseStringMap outs) (\<lambda>outs.
     Inr (default_job\<lparr>job_id := jid, job_name := (if str name = [] then jid else str name),
          job_runs_on := parseStringSeq ro, job_if_condition := str cond, job_needs := parseStringSeq needs,
          job_env := env, job_timeout_minutes := integer y tm, job_continue_on_error := boolean y coe,
          job_outputs := outs\<rparr>)))))))))))"

definition parseJob :: "yaml_api \<Rightarrow> string \<Rightarrow> ynode \<Rightarrow> job result" where
  "parseJob y jid n =
     rbind (parse_job_fields y jid n) (\<lambda>j.
     rbind (parse_run_defaults n) (\<lambda>(sh, wd).
     with_field n ''strategy'' (\<lambda>strat.
     rbind (parse_strategy y strat (j\<lparr>job_default_shell := sh, job_default_working_dir := wd\<rparr>)) (\<lambda>j.
     with_field n ''steps'' (\<lambda>st.
       case st of
         Some (YSeq ns) \<Rightarrow> rbind (parse_steps y 0 ns) (\<lambda>ss. Inr (j\<lparr>job_steps := ss\<rparr>))
       | _ \<Rightarrow> Inr j)))))"

section \<open>Workflows\<close>

definition no_filter :: trigger_filter where
  "no_filter = \<lparr>tf_branches = [], tf_branches_ignore = [], tf_tags = [], tf_tags_ignore = [], tf_paths = [],
     tf_paths_ignore = [], tf_types = [], tf_inputs = []\<rparr>"

definition parseTriggerFilter :: "ynode \<Rightarrow> trigger_filter" where
  "parseTriggerFilter n =
     (case n of
        YMap kvs \<Rightarrow>
          (let f = (\<lambda>key. parseStringSeq (map_of kvs (YScalar key)))
           in \<lparr>tf_branches = f ''branches'', tf_branches_ignore = f ''branches-ignore'', tf_tags = f ''tags'',
               tf_tags_ignore = f ''tags-ignore'', tf_paths = f ''paths'', tf_paths_ignore = f ''paths-ignore'',
               tf_types = f ''types'', tf_inputs = []\<rparr>)
      | _ \<Rightarrow> no_filter)"

definition parse_on :: "ynode option \<Rightarrow> trigger_filter smap result" where
  "parse_on n =
     (case n of
        Some (YScalar s) \<Rightarrow> Inr [(s, no_filter)]
      | Some (YSeq xs) \<Rightarrow> rfold (\<lambda>e m. rbind (as_string e) (\<lambda>k. Inr (omap_set k no_filter m))) xs []
      | Some (YMap kvs) \<Rightarrow>
          rfold (\<lambda>(k, v) m. rbind (as_string k) (\<lambda>key. Inr (omap_set key (parseTriggerFilter v) m))) kvs []
      | _ \<Rightarrow> Inr [])"

definition parse_concurrency :: "yaml_api \<Rightarrow> ynode option \<Rightarrow> string \<times> bool" where
  "parse_concurrency y n =
     (case n of
        Some (YScalar s) \<Rightarrow> (s, False)
      | Some (YMap kvs) \<Rightarrow>
          (str (map_of kvs (YScalar ''group'')), boolean y (map_of kvs (YScalar ''cancel-in-progress'')))
      | _ \<Rightarrow> ([], False))"

definition parse_jobs :: "yaml_api \<Rightarrow> ynode option \<Rightarrow> job smap result" where
  "parse_jobs y n =
     (case n of
        Some (YMap kvs) \<Rightarrow>
          rfold (\<lambda>(k, v) m. rbind (as_string k) (\<lambda>jid. rbind (parseJob y jid v) (\<lambda>j. Inr (omap_set jid j m)))) kvs []
      | _ \<Rightarrow> Inr [])"

definition parse_workflow_node :: "yaml_api \<Rightarrow> ynode \<Rightarrow> workflow result" where
  "parse_workflow_node y doc =
     with_field doc ''name'' (\<lambda>name.
     with_field doc ''env'' (\<lambda>env. rbind (parseStringMap env) (\<lambda>env.
     with_field doc ''on'' (\<lambda>on. rbind (parse_on on) (\<lambda>trigs.
     rbind (parse_run_defaults doc) (\<lambda>(sh, wd).
     with_field doc ''concurrency'' (\<lambda>conc.
     with_field doc ''jobs'' (\<lambda>js. rbind (parse_jobs y js) (\<lambda>jobs.
     Inr \<lparr>wf_name = str name, wf_triggers = trigs, wf_env = env, wf_default_shell = sh, wf_default_working_dir = wd,
          wf_jobs = jobs, wf_concurrency = fst (parse_concurrency y conc),
          wf_concurrency_cancel_in_progress = snd (parse_concurrency y conc)\<rparr>)))))))))"

definition parseWorkflow :: "yaml_api \<Rightarrow> string \<Rightarrow> workflow result" where
  "parseWorkflow y yaml_content =
     (case yaml_load y yaml_content of
        Inl e \<Rightarrow> Inl (Runtime_error (''Workflow YAML parse error: '' @ what e))
      | Inr doc \<Rightarrow> parse_workflow_node y doc)"

definition parseWorkflowFile :: "yaml_api \<Rightarrow> (string \<rightharpoonup> string) \<Rightarrow> string \<Rightarrow> workflow result" where
  "parseWorkflowFile y fs path =
     (case fs path of
        None \<Rightarrow> Inl (Runtime_error (''Cannot open workflow file: '' @ path))
      | Some text \<Rightarrow> parseWorkflow y text)"

section \<open>Validation\<close>

definition job_errors :: "job smap \<Rightarrow> string \<times> job \<Rightarrow> string list" where
  "job_errors jobs kj =
     (case kj of (jid, j) \<Rightarrow>
        (if job_runs_on j = [] then [''Job '' @ quoted jid @ '' has no runs-on''] else [])
        @ (if job_steps j = [] then [''Job '' @ quoted jid @ '' has no steps''] else [])
        @ concat (map (\<lambda>s. if step_run s = [] \<and> step_uses s = []
              then [''Step '' @ quoted (step_id s) @ '' in job '' @ quoted jid @ '' has neither '' @ quoted ''run'' @ '' nor '' @ quoted ''uses'']
              else []) (job_steps j))
        @ concat (map (\<lambda>n. if omap_has jobs n then []
              else [''Job '' @ quoted jid @ '' needs '' @ quoted n @ '' which is not defined'']) (job_needs j)))"

definition validateWorkflow :: "workflow \<Rightarrow> string list" where
  "validateWorkflow w =
     (if wf_jobs w = [] then [''Workflow has no jobs defined''] else [])
     @ concat (map (job_errors (wf_jobs w)) (wf_jobs w))"

section \<open>Properties\<close>

lemma parseStringMap_ok: "parseStringMap n = Inr m \<Longrightarrow> omap_ok m"
proof -
  have "omap_ok m" if "rfold (\<lambda>(k, v) m. rbind (as_string k) (\<lambda>key. Inr (omap_set key (str (Some v)) m))) kvs [] = Inr m" for kvs
    using that by (rule rfold_invariant) (auto simp: rbind_Inr_iff)
  then show "parseStringMap n = Inr m \<Longrightarrow> omap_ok m"
    by (auto simp: parseStringMap_def split: option.splits ynode.splits)
qed

text \<open>What the parser guarantees of a job stored under a key.\<close>

definition wf_job :: "string \<Rightarrow> job \<Rightarrow> bool" where
  "wf_job jid j \<longleftrightarrow> job_id j = jid \<and> (jid \<noteq> [] \<longrightarrow> job_name j \<noteq> []) \<and> omap_ok (job_env j) \<and> omap_ok (job_outputs j)
     \<and> (\<forall>s \<in> set (job_steps j). step_id s \<noteq> [] \<and> omap_ok (step_env s) \<and> omap_ok (step_with s))"

lemma parseStep_ok: "parseStep y n i = Inr s \<Longrightarrow> step_id s \<noteq> [] \<and> omap_ok (step_env s) \<and> omap_ok (step_with s)"
  by (auto simp: parseStep_def with_field_def rbind_Inr_iff parseStringMap_ok simp del: nat_to_string.simps split: if_splits)

lemma parse_steps_ok:
  "parse_steps y i ns = Inr ss \<Longrightarrow> \<forall>s \<in> set ss. step_id s \<noteq> [] \<and> omap_ok (step_env s) \<and> omap_ok (step_with s)"
  by (induction ns arbitrary: i ss) (auto simp: rbind_Inr_iff dest: parseStep_ok)

lemma wf_job_strategy [simp]:
  "wf_job jid (j\<lparr>job_matrix := m\<rparr>) = wf_job jid j"
  "wf_job jid (j\<lparr>job_fail_fast := f\<rparr>) = wf_job jid j"
  "wf_job jid (j\<lparr>job_max_parallel := i\<rparr>) = wf_job jid j"
  by (simp_all add: wf_job_def)

lemma parse_strategy_ok:
  assumes "parse_strategy y st j = Inr j'" "wf_job jid j"
  shows "wf_job jid j'"
proof (cases st)
  case None
  then show ?thesis using assms by (simp add: parse_strategy_def)
next
  case (Some s)
  then obtain mx j1 ff j2 mp where
    "(case mx of None \<Rightarrow> Inr j | Some m \<Rightarrow> rbind (parseMatrix (Some m)) (\<lambda>m. Inr (j\<lparr>job_matrix := Some m\<rparr>))) = Inr j1"
    "(case ff of Some (YScalar t) \<Rightarrow> rbind (as_bool y (YScalar t)) (\<lambda>b. Inr (j1\<lparr>job_fail_fast := b\<rparr>)) | _ \<Rightarrow> Inr j1) = Inr j2"
    "(case mp of Some (YScalar t) \<Rightarrow> rbind (as_int y (YScalar t)) (\<lambda>i. Inr (j2\<lparr>job_max_parallel := i\<rparr>)) | _ \<Rightarrow> Inr j2) = Inr j'"
    using assms(1) unfolding parse_strategy_def by (simp only: option.case rbind_Inr_iff) blast
  then have "wf_job jid j1 = wf_job jid j" "wf_job jid j2 = wf_job jid j1" "wf_job jid j' = wf_job jid j2"
    by (auto simp only: wf_job_strategy rbind_Inr_iff sum.inject split: option.splits ynode.splits)
  then show ?thesis using assms(2) by simp
qed

lemma parse_job_fields_ok:
  "parse_job_fields y jid n = Inr j \<Longrightarrow> wf_job jid (j\<lparr>job_default_shell := sh, job_default_working_dir := wd\<rparr>)"
  by (auto simp: parse_job_fields_def with_field_def rbind_Inr_iff wf_job_def default_job_def parseStringMap_ok split: if_splits)

lemma parseJob_ok:
  assumes "parseJob y jid n = Inr j"
  shows "wf_job jid j"
proof -
  obtain st j0 sh wd j1 sn where j0: "parse_job_fields y jid n = Inr j0"
    and s: "parse_strategy y st (j0\<lparr>job_default_shell := sh, job_default_working_dir := wd\<rparr>) = Inr j1"
    and j: "(case sn of Some (YSeq ns) \<Rightarrow> rbind (parse_steps y 0 ns) (\<lambda>ss. Inr (j1\<lparr>job_steps := ss\<rparr>)) | _ \<Rightarrow> Inr j1) = Inr j"
    using assms unfolding parseJob_def with_field_def by (simp only: rbind_Inr_iff case_prod_beta) blast
  from parse_strategy_ok [OF s parse_job_fields_ok [OF j0]] j show "wf_job jid j"
    by (auto simp: wf_job_def rbind_Inr_iff dest: parse_steps_ok split: option.splits ynode.splits)
qed

lemma parse_jobs_ok:
  assumes "parse_jobs y n = Inr jobs"
  shows "omap_ok jobs \<and> (\<forall>(k, j) \<in> set jobs. wf_job k j)"
proof -
  have step: "omap_ok (omap_set jid j m) \<and> (\<forall>(k, j) \<in> set (omap_set jid j m). wf_job k j)"
    if "omap_ok m \<and> (\<forall>(k, j) \<in> set m. wf_job k j)" "parseJob y jid v = Inr j" for jid j v and m :: "job smap"
    using that parseJob_ok [OF that(2)] set_omap_set [of jid j m] by auto
  have "omap_ok jobs \<and> (\<forall>(k, j) \<in> set jobs. wf_job k j)"
    if "rfold (\<lambda>(k, v) m. rbind (as_string k) (\<lambda>jid. rbind (parseJob y jid v) (\<lambda>j. Inr (omap_set jid j m)))) kvs [] = Inr jobs" for kvs
    using that
  proof (rule rfold_invariant)
    fix x :: "ynode \<times> ynode" and b b' :: "job smap"
    assume b: "omap_ok b \<and> (\<forall>(k, j) \<in> set b. wf_job k j)"
      and "(case x of (k, v) \<Rightarrow> \<lambda>m. rbind (as_string k) (\<lambda>jid. rbind (parseJob y jid v) (\<lambda>j. Inr (omap_set jid j m)))) b = Inr b'"
    then obtain jid j v where "parseJob y jid v = Inr j" "b' = omap_set jid j b"
      by (cases x) (auto simp: rbind_Inr_iff)
    with step [OF b] show "omap_ok b' \<and> (\<forall>(k, j) \<in> set b'. wf_job k j)" by simp
  qed simp
  then show ?thesis
    using assms by (auto simp: parse_jobs_def split: option.splits ynode.splits)
qed

lemma parse_workflow_node_ok:
  assumes "parse_workflow_node y doc = Inr w"
  shows "omap_ok (wf_env w) \<and> omap_ok (wf_jobs w) \<and> (\<forall>(k, j) \<in> set (wf_jobs w). wf_job k j)"
proof -
  obtain env js where "parseStringMap env = Inr (wf_env w)" "parse_jobs y js = Inr (wf_jobs w)"
    using assms unfolding parse_workflow_node_def with_field_def
    by (auto simp only: rbind_Inr_iff case_prod_beta sum.inject workflow.simps)
  then show ?thesis using parseStringMap_ok parse_jobs_ok by blast
qed

lemma parseWorkflow_jobs_ok: "parseWorkflow y text = Inr w \<Longrightarrow> omap_ok (wf_jobs w)"
  using parse_workflow_node_ok by (auto simp: parseWorkflow_def split: sum.splits)

text \<open>
  C31. A workflow that the parser returns is well formed: its jobs are keyed uniquely, every job carries
  the key it is stored under as its id, has a name, and every step has an id (generated when the
  file gives none); every environment is an ordered map.
\<close>

theorem parseWorkflow_wf:
  assumes "parseWorkflow y text = Inr w"
  shows "omap_ok (wf_env w) \<and> omap_ok (wf_jobs w)
    \<and> (\<forall>(k, j) \<in> set (wf_jobs w). job_id j = k \<and> (k \<noteq> [] \<longrightarrow> job_name j \<noteq> []) \<and> omap_ok (job_env j)
         \<and> omap_ok (job_outputs j) \<and> (\<forall>s \<in> set (job_steps j). step_id s \<noteq> [] \<and> omap_ok (step_env s)))"
  using assms parse_workflow_node_ok [of y _ w]
  by (auto simp: parseWorkflow_def wf_job_def split: sum.splits) fastforce+

definition demo_workflow_yaml :: yaml_api where
  "demo_workflow_yaml = \<lparr>yaml_load = (\<lambda>text. Inr (YMap [(YScalar ''jobs'', YMap
       [(YScalar ''build'', YMap [(YScalar ''runs-on'', YScalar ''haiku''),
          (YScalar ''steps'', YSeq [YMap [(YScalar ''run'', YScalar text)]])])])])),
     scalar_int = (\<lambda>s. None), scalar_bool = (\<lambda>s. None)\<rparr>"

definition demo_build :: job where
  "demo_build = default_job\<lparr>job_id := ''build'', job_name := ''build'', job_runs_on := [''haiku''],
     job_steps := [default_step\<lparr>step_id := ''step_0'', step_run := ''make''\<rparr>]\<rparr>"

lemma demo_workflow_yaml_parsed:
  "parseWorkflow demo_workflow_yaml ''make'' = Inr \<lparr>wf_name = [], wf_triggers = [], wf_env = [], wf_default_shell = [],
     wf_default_working_dir = [], wf_jobs = [(''build'', demo_build)], wf_concurrency = [],
     wf_concurrency_cancel_in_progress = False\<rparr>"
  by code_simp

theorem parseWorkflow_wf_witness: "job_id demo_build = ''build'' \<and> job_name demo_build \<noteq> []"
  using parseWorkflow_wf [OF demo_workflow_yaml_parsed] by simp

section \<open>Validation against the scheduler\<close>

lemma job_errors_Nil:
  "job_errors jobs (k, j) = [] \<longleftrightarrow>
     set (job_needs j) \<subseteq> fst ` set jobs \<and> job_runs_on j \<noteq> [] \<and> job_steps j \<noteq> []
     \<and> (\<forall>s \<in> set (job_steps j). step_run s \<noteq> [] \<or> step_uses s \<noteq> [])"
proof -
  have opt: "(if b then [x] else []) = [] \<longleftrightarrow> \<not> b" "(if b then [] else [x]) = [] \<longleftrightarrow> b" for b and x :: string
    by auto
  show ?thesis
    unfolding job_errors_def prod.case append_is_Nil_conv concat_eq_Nil_conv list.set_map ball_simps opt
      omap_has_iff subset_iff by blast
qed

lemma validateWorkflow_needs:
  assumes "validateWorkflow w = []"
  shows "needs_defined (wf_jobs w)"
proof -
  have "job_errors (wf_jobs w) x = []" if "x \<in> set (wf_jobs w)" for x
    using assms that by (simp add: validateWorkflow_def)
  then have "set (job_needs j) \<subseteq> fst ` set (wf_jobs w)" if "(k, j) \<in> set (wf_jobs w)" for k j
    using that job_errors_Nil by blast
  then show ?thesis unfolding needs_defined_def by blast
qed

text \<open>
  C32. The validation reports no error exactly for workflows that have a job and whose every job names
  a runner, has steps, each with something to do, and needs only jobs of the workflow.
\<close>

theorem validateWorkflow_iff:
  "validateWorkflow w = [] \<longleftrightarrow>
     wf_jobs w \<noteq> [] \<and> needs_defined (wf_jobs w)
     \<and> (\<forall>(k, j) \<in> set (wf_jobs w). job_runs_on j \<noteq> [] \<and> job_steps j \<noteq> []
          \<and> (\<forall>s \<in> set (job_steps j). step_run s \<noteq> [] \<or> step_uses s \<noteq> []))"
proof -
  have "job_errors (wf_jobs w) x = [] \<longleftrightarrow>
      (case x of (k, j) \<Rightarrow> set (job_needs j) \<subseteq> fst ` set (wf_jobs w)) \<and>
      (case x of (k, j) \<Rightarrow> job_runs_on j \<noteq> [] \<and> job_steps j \<noteq> []
          \<and> (\<forall>s \<in> set (job_steps j). step_run s \<noteq> [] \<or> step_uses s \<noteq> []))" for x
    by (cases x) (simp only: job_errors_Nil prod.case)
  then show ?thesis
    unfolding validateWorkflow_def needs_defined_def by (simp add: ball_conj_distrib)
qed

theorem validateWorkflow_iff_witness:
  "validateWorkflow \<lparr>wf_name = [], wf_triggers = [], wf_env = [], wf_default_shell = [],
     wf_default_working_dir = [], wf_jobs = [(''build'', demo_build)], wf_concurrency = [],
     wf_concurrency_cancel_in_progress = False\<rparr> = []"
  unfolding validateWorkflow_iff
  by (simp add: needs_defined_def demo_build_def default_job_def default_step_def)

end
