(* ===== verification/Task_Executor.thy ===== *)
theory Task_Executor
  imports Step_Runner Context_Builder Config Workflow_Parser
begin

text \<open>
  \<^verbatim>\<open>src/src/runner/TaskExecutor.cpp\<close>: a task from the server's payload to its final report.  The state
  holds the state of the step runner and every \<^verbatim>\<open>updateTask\<close> call made (their exceptions are swallowed
  by the code).  Clocks, the random part of the workspace name, the cancellation flag, the index of
  the asynchronous log forwarder, YAML and JSON are parameters; the \<open>n\<close>-th reading of a clock or of the
  log index is \<open>tw_now n\<close> and \<open>tw_log_index n\<close>.
\<close>

section \<open>Environment of a job\<close>

fun context_value :: "(string \<Rightarrow> bool) \<Rightarrow> (string \<times> string) list \<Rightarrow> string" where
  "context_value P [] = []"
| "context_value P ((k, v) # ctx) = (if P k then v else context_value P ctx)"

definition is_token_key :: "string \<Rightarrow> bool" where
  "is_token_key k \<longleftrightarrow> k = ''gitea_runtime_token'' \<or> k = ''token''"

definition runtime_token :: "task_dto \<Rightarrow> string" where
  "runtime_token t =
     (let tok = context_value is_token_key (td_context t)
      in if tok = [] \<and> gitea_runtime_token t \<noteq> [] then gitea_runtime_token t else tok)"

text \<open>The variable a context key is exported as.\<close>

definition context_variable :: "string \<Rightarrow> string option" where
  "context_variable k =
     map_of [(''sha'', ''GITHUB_SHA''), (''ref'', ''GITHUB_REF''), (''ref_name'', ''GITHUB_REF_NAME''),
       (''repo'', ''GITHUB_REPOSITORY''), (''repository'', ''GITHUB_REPOSITORY''), (''workflow'', ''GITHUB_WORKFLOW''),
       (''run_id'', ''GITHUB_RUN_ID''), (''run_number'', ''GITHUB_RUN_NUMBER''), (''actor'', ''GITHUB_ACTOR''),
       (''event_name'', ''GITHUB_EVENT_NAME''), (''server_url'', ''GITHUB_SERVER_URL''), (''api_url'', ''GITHUB_API_URL''),
       (''graphql_url'', ''GITHUB_GRAPHQL_URL''), (''head_ref'', ''GITHUB_HEAD_REF''), (''base_ref'', ''GITHUB_BASE_REF'')] k"

definition context_env :: "(string \<times> string) list \<Rightarrow> (string \<times> string) list" where
  "context_env ctx =
     concat (map (\<lambda>(k, v). case context_variable k of Some n \<Rightarrow> [(n, v)] | None \<Rightarrow> []) ctx)"

text \<open>The last value of a key, empty when there is none: \<^verbatim>\<open>github_ref\<close>, \<^verbatim>\<open>github_actor\<close>, \<^verbatim>\<open>github_repo\<close>.\<close>

definition last_value :: "string list \<Rightarrow> (string \<times> string) list \<Rightarrow> string" where
  "last_value ks ctx = context_value (\<lambda>k. k \<in> set ks) (rev ctx)"

definition buildBaseEnv :: "config \<Rightarrow> task_dto \<Rightarrow> string \<Rightarrow> (string \<times> string) list" where
  "buildBaseEnv cfg t workspace =
     (let tok = runtime_token t; ref = last_value [''ref''] (td_context t);
          actor = last_value [''actor''] (td_context t); repo = last_value [''repo'', ''repository''] (td_context t)
      in [(''GITHUB_WORKSPACE'', workspace), (''GITHUB_ACTION_PATH'', workspace), (''RUNNER_WORKSPACE'', workspace)]
         @ (if tok \<noteq> [] then [(''ACTIONS_RUNTIME_TOKEN'', tok), (''ACTIONS_RUNTIME_URL'', gitea_url cfg @ ''/_git/''),
                              (''GITHUB_TOKEN'', tok)] else [])
         @ context_env (td_context t)
         @ [(''GITHUB_JOB'', td_machine t)]
         @ (if ref \<noteq> [] then [(''GITHUB_REF_TYPE'', if starts_with ref ''refs/tags/'' then ''tag'' else ''branch'')] else [])
         @ (case str_find ''/'' repo of Some i \<Rightarrow> [(''GITHUB_REPOSITORY_OWNER'', take i repo)] | None \<Rightarrow> [])
         @ (if actor \<noteq> [] then [(''GITHUB_TRIGGERING_ACTOR'', actor)] else [])
         @ [(''RUNNER_ENVIRONMENT'', ''self-hosted''), (''GITEA_SERVER_URL'', gitea_url cfg), (''CI'', ''true''), (''GITHUB_ACTIONS'', ''true'')]
         @ (if cache_url_runtime cfg \<noteq> [] then [(''ACTIONS_CACHE_URL'', cache_url_runtime cfg),
                                               (''ACTIONS_RESULTS_URL'', cache_url_runtime cfg)] else []))"

definition extractEventInfo :: "(string \<times> string) list \<Rightarrow> string \<times> string" where
  "extractEventInfo ctx = (last_value [''event_name''] ctx, last_value [''event'', ''event_payload''] ctx)"

definition extractMatrixCombo :: "(string \<Rightarrow> (string \<times> string) list option) \<Rightarrow> (string \<times> string) list \<Rightarrow> string smap" where
  "extractMatrixCombo json_object ctx =
     fold (\<lambda>(k, v) combo.
       if k = ''matrix'' then
         (case json_object v of Some members \<Rightarrow> fold (\<lambda>(jk, jv). omap_set jk jv) members combo | None \<Rightarrow> combo)
       else if starts_with k ''matrix.'' then omap_set (drop 7 k) v combo
       else combo) ctx []"

section \<open>Secrets, matrix, limits\<close>

fun add_token_secrets :: "(string \<times> string) list \<Rightarrow> string list \<Rightarrow> string list" where
  "add_token_secrets [] s = s"
| "add_token_secrets ((k, v) # ctx) s =
     add_token_secrets ctx (if is_token_key k \<and> v \<noteq> [] \<and> \<not> list_ex (\<lambda>x. x = v) s then s @ [v] else s)"

definition initial_secrets :: "task_dto \<Rightarrow> string list" where
  "initial_secrets t =
     (let s = filter (\<lambda>v. v \<noteq> []) (map snd (td_secrets t));
          s = (if gitea_runtime_token t \<noteq> [] then s @ [gitea_runtime_token t] else s)
      in add_token_secrets (td_context t) s)"

definition matrix_of_job :: "job \<Rightarrow> string smap" where
  "matrix_of_job j =
     (case job_matrix j of
        None \<Rightarrow> []
      | Some m \<Rightarrow>
          fold (fold (\<lambda>(k, v) combo. if omap_has combo k then combo else omap_set k v combo)) (include_entries m)
            (fold (\<lambda>(k, vals) combo. case vals of v # _ \<Rightarrow> omap_set k v combo | [] \<Rightarrow> combo) (axes m) []))"

definition matrix_combo :: "(string \<Rightarrow> (string \<times> string) list option) \<Rightarrow> task_dto \<Rightarrow> job \<Rightarrow> string smap" where
  "matrix_combo json_object t j =
     (let combo = extractMatrixCombo json_object (td_context t)
      in if combo = [] then matrix_of_job j else combo)"

definition find_job :: "task_dto \<Rightarrow> workflow \<Rightarrow> job option" where
  "find_job t wfl =
     (case (if td_machine t \<noteq> [] then omap_get (wf_jobs wfl) (td_machine t) else None) of
        Some j \<Rightarrow> Some j
      | None \<Rightarrow> (case wf_jobs wfl of [(k, j)] \<Rightarrow> Some j | _ \<Rightarrow> None))"

definition job_default_shell_path :: "job \<Rightarrow> workflow \<Rightarrow> string" where
  "job_default_shell_path j wfl =
     (let sh = (if job_default_shell j \<noteq> [] then job_default_shell j
                else if wf_default_shell wfl \<noteq> [] then wf_default_shell wfl else ''/bin/sh'')
      in if sh = ''bash'' then ''/bin/bash'' else sh)"

definition actions_url_of :: "task_dto \<Rightarrow> string" where
  "actions_url_of t =
     (let v = context_value (\<lambda>k. k = ''gitea_default_actions_url'') (filter (\<lambda>(k, v). v \<noteq> []) (td_context t))
      in if v = [] then ''https://github.com'' else v)"

definition cache_dir_of :: "config \<Rightarrow> string" where
  "cache_dir_of cfg = (if work_dir cfg = [] then ''/tmp/act_runner_actions'' else work_dir cfg @ ''/act_runner_actions'')"

text \<open>\<^verbatim>\<open>static_cast<int>\<close> of a 64-bit value.\<close>

definition int_cast :: "int \<Rightarrow> int" where
  "int_cast i = signed_take_bit 31 i"

definition effective_timeout_minutes :: "task_dto \<Rightarrow> job \<Rightarrow> int" where
  "effective_timeout_minutes t j =
     (let task_minutes = (if 0 < td_timeout t then int_cast (td_timeout t div 60) else 360);
          job_minutes = (if 0 < job_timeout_minutes j then job_timeout_minutes j else task_minutes)
      in if 0 < job_minutes then job_minutes else 360)"

section \<open>State and reports\<close>

record report =
  rep_result :: int
  rep_steps :: "step_state_dto list"
  rep_started :: int
  rep_stopped :: int
  rep_outputs :: "(string \<times> string) list"

record te_state =
  te_exec :: exec_state
  te_reports :: "report list"
  te_reads :: nat

record te_world =
  tw_step :: step_world
  tw_yaml :: yaml_api
  tw_json_object :: "string \<Rightarrow> (string \<times> string) list option"
  tw_now :: "nat \<Rightarrow> int"
  tw_log_index :: "nat \<Rightarrow> int"
  tw_elapsed :: "nat \<Rightarrow> int"
  tw_cancelled :: "nat \<Rightarrow> bool"
  tw_cancelled_at_end :: bool
  tw_random_hex :: string

definition on_exec :: "(exec_state, 'a) comp \<Rightarrow> (te_state, 'a) comp" where
  "on_exec m s = map_option (\<lambda>(r, x). (r, s\<lparr>te_exec := x\<rparr>)) (m (te_exec s))"

definition te_log :: "string \<Rightarrow> (te_state, unit) comp" where
  "te_log line = on_exec (log_append line)"

definition now_s :: "te_world \<Rightarrow> (te_state, int) comp" where
  "now_s w s = Some (EOk (tw_now w (te_reads s)), s\<lparr>te_reads := te_reads s + 1\<rparr>)"

definition currentLogIndex :: "te_world \<Rightarrow> (te_state, int) comp" where
  "currentLogIndex w s = Some (EOk (tw_log_index w (te_reads s)), s\<lparr>te_reads := te_reads s + 1\<rparr>)"

definition send_report :: "report \<Rightarrow> (te_state, unit) comp" where
  "send_report r = smod (\<lambda>s. s\<lparr>te_reports := te_reports s @ [r]\<rparr>)"

definition reportStart :: "int \<Rightarrow> (te_state, unit) comp" where
  "reportStart started_at =
     send_report \<lparr>rep_result = 0, rep_steps = [], rep_started = started_at, rep_stopped = 0, rep_outputs = []\<rparr>"

definition final_result :: "bool \<Rightarrow> bool \<Rightarrow> int" where
  "final_result success cancelled = (if cancelled then 3 else if success then 1 else 2)"

definition reportEnd :: "te_world \<Rightarrow> bool \<Rightarrow> int \<Rightarrow> int \<Rightarrow> step_state_dto list \<Rightarrow> (string \<times> string) list \<Rightarrow> (te_state, unit) comp" where
  "reportEnd w success started_at stopped_at steps outs =
     send_report \<lparr>rep_result = final_result success (tw_cancelled_at_end w), rep_steps = steps,
                  rep_started = started_at, rep_stopped = stopped_at, rep_outputs = outs\<rparr>"

definition createWorkspace :: "te_world \<Rightarrow> config \<Rightarrow> task_dto \<Rightarrow> (te_state, string) comp" where
  "createWorkspace w cfg t =
     (let path = (if work_dir cfg = [] then ''/tmp'' else work_dir cfg) @ ''/act_runner_''
                  @ int_to_string (td_id t) @ ''_'' @ tw_random_hex w
      in sbind (on_exec (create_directories (tw_step w) path)) (\<lambda>_. sret path))"

text \<open>\<^verbatim>\<open>fs::remove_all\<close>: every file below the workspace.\<close>

definition cleanupWorkspace :: "string \<Rightarrow> (te_state, unit) comp" where
  "cleanupWorkspace path =
     on_exec (smod (\<lambda>x. x\<lparr>x_files := (\<lambda>p. if p = path \<or> starts_with p (path @ ''/'') then None else x_files x p)\<rparr>))"

section \<open>Steps\<close>

record job_run =
  jr_sr :: step_runner
  jr_base_env :: "(string \<times> string) list"
  jr_timeout_minutes :: int
  jr_timeout_s :: int
  jr_started :: int

definition step_state :: "nat \<Rightarrow> step_run_result \<Rightarrow> int \<Rightarrow> int \<Rightarrow> int \<Rightarrow> int \<Rightarrow> step_state_dto" where
  "step_state i r started stopped idx idx' =
     \<lparr>ss_id = int i, ss_result = (if st_ok r then 1 else 2), ss_started_at = started, ss_stopped_at = stopped,
      ss_log_index = idx, ss_log_length = idx' - idx\<rparr>"

definition map_of_env :: "(string \<times> string) list \<Rightarrow> string smap" where
  "map_of_env env = fold (\<lambda>(k, v). omap_set k v) env []"

text \<open>The context after a step: its outputs, and the environment of the manager.\<close>

definition context_after :: "step_world \<Rightarrow> step \<Rightarrow> step_run_result \<Rightarrow> exec_state \<Rightarrow> context_builder \<Rightarrow> context_builder" where
  "context_after w st r x cb =
     withJobEnv (map_of_env (currentEnv (sw_getenv_path w) (x_em x)))
       (addStepOutputs (step_id st) (if st_ok r then 1 else 2) (st_outputs r) cb)"

text \<open>One step of the loop; the flag tells whether the loop goes on.\<close>

definition run_one_step :: "te_world \<Rightarrow> job_run \<Rightarrow> nat \<Rightarrow> step \<Rightarrow> context_builder \<Rightarrow> step_state_dto list \<Rightarrow> int
    \<Rightarrow> (te_state, bool \<times> context_builder \<times> step_state_dto list) comp" where
  "run_one_step w jr i st cb states remaining_s =
     sbind (now_s w) (\<lambda>started.
     sbind (currentLogIndex w) (\<lambda>idx.
     sbind (on_exec (step_runner_run (tw_step w) (jr_sr jr) st (build (tw_json_object w) cb)
                       (jr_base_env jr) remaining_s)) (\<lambda>r.
     sbind (now_s w) (\<lambda>stopped.
     sbind (currentLogIndex w) (\<lambda>idx'.
     sbind (sget (\<lambda>s. context_after (tw_step w) st r (te_exec s) cb)) (\<lambda>cb'.
     let states' = states @ [step_state i r started stopped idx idx']
     in sbind (send_report \<lparr>rep_result = 0, rep_steps = states', rep_started = jr_started jr,
                            rep_stopped = 0, rep_outputs = []\<rparr>) (\<lambda>_.
        if \<not> st_ok r \<and> \<not> step_continue_on_error st then
          sbind (te_log (''##[error]Step '' @ quoted (step_id st) @ '' failed '' @ [CHR 0xE2, CHR 0x80, CHR 0x94] @ '' stopping job''))
            (\<lambda>_. sret (False, cb', states'))
        else sret (True, cb', states'))))))))"

fun run_steps :: "te_world \<Rightarrow> job_run \<Rightarrow> nat \<Rightarrow> step list \<Rightarrow> context_builder \<Rightarrow> step_state_dto list
    \<Rightarrow> (te_state, bool \<times> context_builder \<times> step_state_dto list) comp" where
  "run_steps w jr i [] cb states = sret (True, cb, states)"
| "run_steps w jr i (st # sts) cb states =
     (if tw_cancelled w i then
        sbind (te_log (''##[warning]Job cancelled '' @ [CHR 0xE2, CHR 0x80, CHR 0x94] @ '' skipping remaining steps''))
          (\<lambda>_. sret (False, cb, states))
      else
        let remaining_s = jr_timeout_s jr - int_cast (tw_elapsed w i)
        in if remaining_s \<le> 0 then
             sbind (te_log (''##[error]Job timed out after '' @ int_to_string (jr_timeout_minutes jr) @ '' minute(s)''))
               (\<lambda>_. sret (False, cb, states))
           else
             sbind (run_one_step w jr i st cb states remaining_s) (\<lambda>(go_on, cb', states').
               if go_on then run_steps w jr (Suc i) sts cb' states' else sret (False, cb', states')))"

section \<open>After the steps\<close>

definition run_post_script :: "te_world \<Rightarrow> post_script \<Rightarrow> (te_state, unit) comp" where
  "run_post_script w ps =
     sbind (te_log (''##[group]Post: '' @ ps_script_path ps)) (\<lambda>_.
     sbind (on_exec (spawn (tw_step w) (ps_node_bin ps) (ps_script_path ps) (ps_working_dir ps) (ps_env ps) 300)) (\<lambda>proc.
     sbind (if exit_code proc \<noteq> 0
            then te_log (''##[warning]post: script failed with exit code '' @ int_to_string (exit_code proc))
            else sret ()) (\<lambda>_.
     te_log ''##[endgroup]'')))"

definition run_post_scripts :: "te_world \<Rightarrow> (te_state, unit list) comp" where
  "run_post_scripts w = sbind (sget (\<lambda>s. rev (x_posts (te_exec s)))) (smap (run_post_script w))"

definition evaluator_now :: "te_world \<Rightarrow> context_builder \<Rightarrow> (te_state, evaluator) comp" where
  "evaluator_now w cb = sget (\<lambda>s. new_evaluator (sw_eval (tw_step w) (x_files (te_exec s))) (build (tw_json_object w) cb))"

definition interpolate_all :: "evaluator \<Rightarrow> string smap \<Rightarrow> (te_state, (string \<times> string) list) comp" where
  "interpolate_all ev m = smap (\<lambda>(k, v). sbind (slift (interpolate ev v)) (\<lambda>v'. sret (k, v'))) m"

definition eval_job_outputs :: "te_world \<Rightarrow> job \<Rightarrow> context_builder \<Rightarrow> (te_state, (string \<times> string) list) comp" where
  "eval_job_outputs w j cb =
     (if job_outputs j = [] then sret []
      else sbind (evaluator_now w cb) (\<lambda>ev. interpolate_all ev (job_outputs j)))"

definition em_clean :: "(te_state, unit) comp" where
  "em_clean = on_exec (smod (\<lambda>x. x\<lparr>x_files := em_cleanup (x_em x) (x_files x)\<rparr>))"

definition finish_job :: "te_world \<Rightarrow> job \<Rightarrow> string \<Rightarrow> int \<Rightarrow> bool \<times> context_builder \<times> step_state_dto list
    \<Rightarrow> (te_state, bool) comp" where
  "finish_job w j workspace started res =
     (case res of (ok, cb, states) \<Rightarrow>
        sbind (run_post_scripts w) (\<lambda>_.
        sbind (eval_job_outputs w j cb) (\<lambda>outs.
        let success = ok \<or> job_continue_on_error j
        in sbind em_clean (\<lambda>_.
           sbind (now_s w) (\<lambda>stopped.
           sbind (cleanupWorkspace workspace) (\<lambda>_.
           sbind (reportEnd w success started stopped states outs) (\<lambda>_.
           sret success)))))))"

section \<open>The task\<close>

definition report_failure :: "te_world \<Rightarrow> int \<Rightarrow> (te_state, bool) comp" where
  "report_failure w started =
     sbind (reportStart started) (\<lambda>_.
     sbind (now_s w) (\<lambda>stopped.
     sbind (reportEnd w False started stopped [] []) (\<lambda>_. sret False)))"

definition setup_em :: "te_world \<Rightarrow> task_dto \<Rightarrow> string \<Rightarrow> (te_state, unit) comp" where
  "setup_em w t workspace =
     (case extractEventInfo (td_context t) of (event_name, event_payload) \<Rightarrow>
        sbind (on_exec (create_directories (tw_step w) (workspace @ ''/_runner''))) (\<lambda>_.
        on_exec (smod (\<lambda>x. let (em, fs) = em_setup event_payload event_name (new_env_manager (workspace @ ''/_runner''), x_files x)
                          in x\<lparr>x_em := em, x_files := fs\<rparr>))))"

definition initial_context :: "te_world \<Rightarrow> config \<Rightarrow> task_dto \<Rightarrow> job \<Rightarrow> string \<Rightarrow> context_builder" where
  "initial_context w cfg t j workspace =
     (let cb = withJobEnv (map_of_env (buildBaseEnv cfg t workspace)) (withWorkDir (work_dir cfg)
                 (withRunnerInfo (cfg_name cfg) ''haiku'' ''x86_64'' (withTask t new_context_builder)));
          combo = matrix_combo (tw_json_object w) t j
      in if combo \<noteq> [] then withMatrix combo cb else cb)"

definition run_job_steps :: "te_world \<Rightarrow> config \<Rightarrow> task_dto \<Rightarrow> workflow \<Rightarrow> job \<Rightarrow> string \<Rightarrow> int \<Rightarrow> evaluator \<Rightarrow> context_builder
    \<Rightarrow> (te_state, bool) comp" where
  "run_job_steps w cfg t wfl j workspace started ev cb =
     sbind (interpolate_all ev (wf_env wfl)) (\<lambda>wenv.
     sbind (interpolate_all ev (job_env j)) (\<lambda>jenv.
     let base_env = buildBaseEnv cfg t workspace @ wenv @ jenv;
         minutes = effective_timeout_minutes t j
     in sbind (slift (Some (mul_int minutes 60))) (\<lambda>job_timeout_s.
        sbind (run_steps w \<lparr>jr_sr = new_step_runner workspace (job_default_shell_path j wfl) (gitea_url cfg) (actions_url_of t) (cache_dir_of cfg),
                            jr_base_env = base_env, jr_timeout_minutes = minutes, jr_timeout_s = job_timeout_s, jr_started = started\<rparr>
                 0 (job_steps j) (withJobEnv (map_of_env base_env) cb) []) (\<lambda>res.
        finish_job w j workspace started res))))"

definition execute_job :: "te_world \<Rightarrow> config \<Rightarrow> task_dto \<Rightarrow> workflow \<Rightarrow> job \<Rightarrow> int \<Rightarrow> (te_state, bool) comp" where
  "execute_job w cfg t wfl j started =
     sbind (createWorkspace w cfg t) (\<lambda>workspace.
     sbind (setup_em w t workspace) (\<lambda>_.
     sbind (reportStart started) (\<lambda>_.
     let cb = initial_context w cfg t j workspace
     in sbind (evaluator_now w cb) (\<lambda>ev.
        sbind (slift (evaluateCondition ev (job_if_condition j))) (\<lambda>cond.
          if \<not> cond then
            sbind (te_log (''##[notice]Job skipped due to '' @ quoted ''if:'' @ '' condition'')) (\<lambda>_.
            sbind em_clean (\<lambda>_.
            sbind (cleanupWorkspace workspace) (\<lambda>_.
            sbind (now_s w) (\<lambda>stopped.
            sbind (reportEnd w True started stopped [] []) (\<lambda>_. sret True)))))
          else run_job_steps w cfg t wfl j workspace started ev cb)))))"

definition execute :: "te_world \<Rightarrow> config \<Rightarrow> task_dto \<Rightarrow> (te_state, bool) comp" where
  "execute w cfg t =
     sbind (now_s w) (\<lambda>started.
       case parseWorkflow (tw_yaml w) (workflow_payload t) of
         Inl _ \<Rightarrow> report_failure w started
       | Inr wfl \<Rightarrow>
           (case find_job t wfl of
              None \<Rightarrow> report_failure w started
            | Some j \<Rightarrow> execute_job w cfg t wfl j started))"

definition te_init :: "exec_state \<Rightarrow> te_state" where
  "te_init x = \<lparr>te_exec = x, te_reports = [], te_reads = 0\<rparr>"

section \<open>What is reported\<close>

definition running :: "report \<Rightarrow> bool" where
  "running r \<longleftrightarrow> rep_result r = 0"

abbreviation reports :: "(report \<Rightarrow> bool) \<Rightarrow> (te_state, 'a) comp \<Rightarrow> bool" where
  "reports \<equiv> extends te_reports"

lemma reports_on_exec [simp]: "reports P (on_exec m)"
  by (auto simp: extends_def on_exec_def)

lemma reports_clock [simp]: "reports P (now_s w)" "reports P (currentLogIndex w)"
  by (auto simp: extends_def now_s_def currentLogIndex_def)

lemma reports_te_log [simp]: "reports P (te_log l)"
  by (simp add: te_log_def)

lemma reports_send: "P r \<Longrightarrow> reports P (send_report r)"
  by (auto simp: extends_def send_report_def)

lemma reports_start [simp]: "reports running (reportStart t)"
  by (simp add: reportStart_def reports_send running_def)

lemma reports_quiet [simp]:
  "reports P (createWorkspace w cfg t)" "reports P (cleanupWorkspace path)" "reports P (setup_em w t path)" "reports P em_clean"
  "reports P (run_post_script w ps)" "reports P (evaluator_now w cb)" "reports P (interpolate_all ev m)"
  by (auto simp: createWorkspace_def cleanupWorkspace_def setup_em_def em_clean_def run_post_script_def evaluator_now_def
      interpolate_all_def Let_def intro!: extends_sbind extends_smap split: prod.splits)

lemma reports_after [simp]: "reports P (run_post_scripts w)" "reports P (eval_job_outputs w j cb)"
  by (auto simp: run_post_scripts_def eval_job_outputs_def intro!: extends_sbind extends_smap)

lemma reports_run_one_step [simp]: "reports running (run_one_step w jr i st cb states rem)"
  unfolding run_one_step_def Let_def by (auto simp: running_def intro!: extends_sbind reports_send)

lemma reports_run_steps [simp]: "reports running (run_steps w jr i sts cb states)"
proof (induction sts arbitrary: i cb states)
  case (Cons st sts)
  then show ?case by (auto simp: Let_def intro!: extends_sbind)
qed simp

text \<open>A computation whose last report is the final one if it returns, and that sends no final report if it throws.\<close>

definition concludes :: "te_world \<Rightarrow> (te_state, bool) comp \<Rightarrow> bool" where
  "concludes w m \<longleftrightarrow> (\<forall>s r s'. m s = Some (r, s') \<longrightarrow>
     (\<exists>rs. list_all running rs \<and>
       (case r of
          EOk b \<Rightarrow> \<exists>lst. te_reports s' = te_reports s @ rs @ [lst] \<and> rep_result lst = final_result b (tw_cancelled_at_end w)
        | _ \<Rightarrow> te_reports s' = te_reports s @ rs)))"

lemma concludes_sbind:
  assumes "reports running m" "\<And>x. concludes w (k x)"
  shows "concludes w (sbind m k)"
  unfolding concludes_def
proof (intro allI impI)
  fix s r s'
  assume m: "sbind m k s = Some (r, s')"
  show "\<exists>rs. list_all running rs \<and> (case r of
      EOk b \<Rightarrow> \<exists>lst. te_reports s' = te_reports s @ rs @ [lst] \<and> rep_result lst = final_result b (tw_cancelled_at_end w)
    | _ \<Rightarrow> te_reports s' = te_reports s @ rs)"
  proof (cases "m s")
    case None
    with m show ?thesis by (simp add: sbind_def)
  next
    case (Some p)
    obtain r1 s1 where p: "m s = Some (r1, s1)" using Some by (cases p) simp
    obtain r1s where r1s: "te_reports s1 = te_reports s @ r1s" "list_all running r1s" using extendsE [OF assms(1) p] .
    show ?thesis
    proof (cases r1)
      case (EOk x)
      with m p have "k x s1 = Some (r, s')" by (simp add: sbind_def)
      with assms(2) obtain r2s where "list_all running r2s" "case r of
          EOk b \<Rightarrow> \<exists>lst. te_reports s' = te_reports s1 @ r2s @ [lst] \<and> rep_result lst = final_result b (tw_cancelled_at_end w)
        | _ \<Rightarrow> te_reports s' = te_reports s1 @ r2s" unfolding concludes_def by blast
      with r1s show ?thesis by (intro exI [of _ "r1s @ r2s"]) (simp split: eres.splits)
    qed (use m p r1s in \<open>auto simp: sbind_def\<close>)
  qed
qed

lemma concludes_end: "concludes w (sbind (reportEnd w b started stopped steps outs) (\<lambda>_. sret b))"
  by (auto simp: concludes_def reportEnd_def send_report_def intro: exI [of _ "[]"])

lemma concludes_report_failure: "concludes w (report_failure w started)"
  unfolding report_failure_def by (intro concludes_sbind concludes_end) simp_all

lemma concludes_finish_job: "concludes w (finish_job w j workspace started res)"
  unfolding finish_job_def Let_def by (cases res) (auto intro!: concludes_sbind concludes_end)

lemma concludes_execute: "concludes w (execute w cfg t)"
  unfolding execute_def execute_job_def run_job_steps_def Let_def
  by (auto intro!: concludes_sbind concludes_end concludes_report_failure concludes_finish_job split: sum.split option.split)

text \<open>
  C4. Exactly the tasks whose execution returns are concluded on the server: then the last report is
  the only final one and says success, failure or cancelled according to the returned verdict and
  the cancellation flag; an execution that throws has only reported the task as running, so the
  server is never told that it ended.
\<close>

theorem execute_reports:
  assumes "execute w cfg t (te_init x) = Some (r, s')"
  shows "\<exists>rs. (\<forall>rep \<in> set rs. rep_result rep = 0) \<and>
    (case r of
       EOk b \<Rightarrow> \<exists>lst. te_reports s' = rs @ [lst] \<and> rep_result lst = final_result b (tw_cancelled_at_end w)
     | _ \<Rightarrow> te_reports s' = rs)"
proof -
  from concludes_execute [of w cfg t] assms obtain rs where "list_all running rs" "case r of
      EOk b \<Rightarrow> \<exists>lst. te_reports s' = te_reports (te_init x) @ rs @ [lst] \<and> rep_result lst = final_result b (tw_cancelled_at_end w)
    | _ \<Rightarrow> te_reports s' = te_reports (te_init x) @ rs"
    unfolding concludes_def by blast
  then show ?thesis
    by (intro exI [of _ rs]) (auto simp: list_all_iff running_def te_init_def split: eres.splits)
qed

definition demo_te_world :: te_world where
  "demo_te_world = \<lparr>tw_step = demo_step_world, tw_yaml = demo_workflow_yaml\<lparr>yaml_load := (\<lambda>_. Inl (Runtime_error ''no document''))\<rparr>,
     tw_json_object = (\<lambda>_. None), tw_now = int, tw_log_index = (\<lambda>_. 0), tw_elapsed = (\<lambda>_. 0), tw_cancelled = (\<lambda>_. False),
     tw_cancelled_at_end = False, tw_random_hex = ''00''\<rparr>"

lemma demo_execute:
  "\<exists>s'. execute demo_te_world default_config empty_task (te_init demo_exec_state) = Some (EOk False, s')"
  by (simp add: execute_def now_s_def demo_te_world_def parseWorkflow_def report_failure_def reportStart_def reportEnd_def
      send_report_def sbind_def)

theorem execute_reports_witness:
  "\<exists>s' lst. execute demo_te_world default_config empty_task (te_init demo_exec_state) = Some (EOk False, s')
     \<and> last (te_reports s') = lst \<and> rep_result lst = 2"
proof -
  obtain s' where e: "execute demo_te_world default_config empty_task (te_init demo_exec_state) = Some (EOk False, s')"
    using demo_execute by blast
  from execute_reports [OF e] have "rep_result (last (te_reports s')) = 2"
    by (auto simp: final_result_def demo_te_world_def)
  with e show ?thesis by blast
qed

section \<open>Which steps run\<close>

definition step_fine :: "step \<Rightarrow> step_state_dto \<Rightarrow> bool" where
  "step_fine st ss \<longleftrightarrow> ss_result ss = 1 \<or> step_continue_on_error st"

lemma run_one_stepE:
  assumes "run_one_step w jr i st cb states rem s = Some (EOk (go_on, cb', states'), s')"
  obtains ss where "states' = states @ [ss]" "ss_id ss = int i" "go_on \<longleftrightarrow> step_fine st ss"
proof -
  obtain r started stopped idx idx' where
    "states' = states @ [step_state i r started stopped idx idx']" "go_on \<longleftrightarrow> st_ok r \<or> step_continue_on_error st"
    using assms unfolding run_one_step_def Let_def by (auto simp: sbind_EOk split: if_splits)
  then show thesis using that [of "step_state i r started stopped idx idx'"]
    by (auto simp: step_state_def step_fine_def)
qed

lemma run_steps_ConsE:
  assumes "run_steps w jr i (st # sts) cb states s = Some (EOk (ok, cb', states'), s')"
  obtains (stopped) "\<not> ok" "states' = states"
  | (failed) ss where "ss_id ss = int i" "\<not> step_fine st ss" "\<not> ok" "states' = states @ [ss]"
  | (next_step) ss cb1 s1 where "ss_id ss = int i" "step_fine st ss"
      "run_steps w jr (Suc i) sts cb1 (states @ [ss]) s1 = Some (EOk (ok, cb', states'), s')"
proof (cases "tw_cancelled w i \<or> jr_timeout_s jr - int_cast (tw_elapsed w i) \<le> 0")
  case True
  with assms have "\<not> ok" "states' = states" by (auto simp: Let_def sbind_EOk split: if_splits)
  then show thesis by (rule stopped)
next
  case False
  with assms obtain go_on cb1 states1 s1 where
    one: "run_one_step w jr i st cb states (jr_timeout_s jr - int_cast (tw_elapsed w i)) s = Some (EOk (go_on, cb1, states1), s1)"
    and rest: "(if go_on then run_steps w jr (Suc i) sts cb1 states1 else sret (False, cb1, states1)) s1 = Some (EOk (ok, cb', states'), s')"
    by (auto simp: Let_def sbind_EOk)
  obtain ss where "states1 = states @ [ss]" "ss_id ss = int i" "go_on \<longleftrightarrow> step_fine st ss"
    using one by (rule run_one_stepE)
  with rest failed next_step show thesis by (cases go_on) auto
qed

text \<open>
  C6. The recorded step states belong to a prefix of the job's steps, numbered in order; every step
  but the last of them succeeded or continues on errors; and the steps as a whole count as
  successful exactly when all steps of the job were run and none failed fatally.
\<close>

theorem run_steps_prefix:
  assumes "run_steps w jr i sts cb states s = Some (EOk (ok, cb', states'), s')"
  shows "\<exists>ss. states' = states @ ss \<and> length ss \<le> length sts
    \<and> (\<forall>k < length ss. ss_id (ss ! k) = int (i + k))
    \<and> (\<forall>k. Suc k < length ss \<longrightarrow> ss_result (ss ! k) = 1 \<or> step_continue_on_error (sts ! k))
    \<and> (ok \<longleftrightarrow> length ss = length sts \<and> (\<forall>k < length ss. ss_result (ss ! k) = 1 \<or> step_continue_on_error (sts ! k)))"
  using assms
proof (induction sts arbitrary: i cb states s)
  case Nil
  then show ?case by simp
next
  case (Cons st sts)
  from Cons.prems show ?case
  proof (cases rule: run_steps_ConsE)
    case stopped
    then show ?thesis by (intro exI [of _ "[]"]) simp
  next
    case (failed ss)
    then show ?thesis by (intro exI [of _ "[ss]"]) (simp add: step_fine_def)
  next
    case (next_step ss cb1 s1)
    from Cons.IH [OF next_step(3)] obtain rest where rest: "states' = (states @ [ss]) @ rest" "length rest \<le> length sts"
      "\<forall>k < length rest. ss_id (rest ! k) = int (Suc i + k)"
      "\<forall>k. Suc k < length rest \<longrightarrow> ss_result (rest ! k) = 1 \<or> step_continue_on_error (sts ! k)"
      "ok \<longleftrightarrow> length rest = length sts \<and> (\<forall>k < length rest. ss_result (rest ! k) = 1 \<or> step_continue_on_error (sts ! k))"
      by blast
    then show ?thesis
      using next_step(1,2) by (intro exI [of _ "ss # rest"]) (auto simp: nth_Cons step_fine_def less_Suc_eq_0_disj split: nat.splits)
  qed
qed

definition demo_job_run :: job_run where
  "demo_job_run = \<lparr>jr_sr = new_step_runner ''/w'' [] [] [] [], jr_base_env = [], jr_timeout_minutes = 1, jr_timeout_s = 60, jr_started = 0\<rparr>"

lemma demo_run_steps:
  "\<exists>cb' states' s'. run_steps demo_te_world demo_job_run 0 [demo_run_step] cb [] s = Some (EOk (True, cb', states'), s')"
proof -
  have i: "int_cast 0 = 0" by (simp add: int_cast_def)
  obtain r x' where "step_runner_run demo_step_world (jr_sr demo_job_run) demo_run_step (build (tw_json_object demo_te_world) cb)
      (jr_base_env demo_job_run) 60 (te_exec s) = Some (EOk r, x')" "st_ok r"
    using demo_run_step_runs by blast
  with i show ?thesis
    by (simp add: run_one_step_def Let_def sbind_def now_s_def currentLogIndex_def on_exec_def send_report_def
        demo_te_world_def demo_job_run_def)
qed

theorem run_steps_prefix_witness:
  "\<exists>cb' states' s'. run_steps demo_te_world demo_job_run 0 [demo_run_step] new_context_builder [] (te_init demo_exec_state)
       = Some (EOk (True, cb', states'), s') \<and> length states' = 1"
proof -
  obtain cb' states' s' where r: "run_steps demo_te_world demo_job_run 0 [demo_run_step] new_context_builder [] (te_init demo_exec_state)
       = Some (EOk (True, cb', states'), s')" using demo_run_steps by blast
  from run_steps_prefix [OF r] have "length states' = 1" by auto
  with r show ?thesis by blast
qed

section \<open>Secrets and limits\<close>

lemma add_token_secrets_props:
  "set s \<subseteq> set (add_token_secrets ctx s)"
  "[] \<notin> set s \<Longrightarrow> [] \<notin> set (add_token_secrets ctx s)"
  by (induction ctx s rule: add_token_secrets.induct) (auto split: if_splits)

lemma add_token_secrets_in:
  "(k, v) \<in> set ctx \<Longrightarrow> is_token_key k \<Longrightarrow> v \<noteq> [] \<Longrightarrow> v \<in> set (add_token_secrets ctx s)"
proof (induction ctx s rule: add_token_secrets.induct)
  case (2 k' v' ctx s)
  let ?s = "if is_token_key k' \<and> v' \<noteq> [] \<and> \<not> list_ex (\<lambda>x. x = v') s then s @ [v'] else s"
  have "(k, v) = (k', v') \<Longrightarrow> v \<in> set ?s" using 2(3,4) by (auto simp: list_ex_iff)
  with 2 add_token_secrets_props(1) [of ?s ctx] show ?case by auto
qed simp

lemma context_value_in: "context_value P ctx \<noteq> [] \<Longrightarrow> \<exists>k. (k, context_value P ctx) \<in> set ctx \<and> P k"
  by (induction P ctx rule: context_value.induct) (auto split: if_splits)

lemma initial_secrets_complete:
  "[] \<notin> set (initial_secrets t)"
  "(k, v) \<in> set (td_secrets t) \<Longrightarrow> v \<noteq> [] \<Longrightarrow> v \<in> set (initial_secrets t)"
  "runtime_token t \<noteq> [] \<Longrightarrow> runtime_token t \<in> set (initial_secrets t)"
proof -
  let ?s = "filter (\<lambda>v. v \<noteq> []) (map snd (td_secrets t))"
  let ?s' = "if gitea_runtime_token t \<noteq> [] then ?s @ [gitea_runtime_token t] else ?s"
  have s: "initial_secrets t = add_token_secrets (td_context t) ?s'"
    by (simp add: initial_secrets_def Let_def)
  show "[] \<notin> set (initial_secrets t)" unfolding s by (rule add_token_secrets_props(2)) auto
  show "v \<in> set (initial_secrets t)" if "(k, v) \<in> set (td_secrets t)" "v \<noteq> []"
  proof -
    have "v \<in> set ?s'" using that by force
    then show ?thesis unfolding s using add_token_secrets_props(1) by blast
  qed
  show "runtime_token t \<in> set (initial_secrets t)" if "runtime_token t \<noteq> []"
  proof (cases "context_value is_token_key (td_context t) = []")
    case True
    with that have "runtime_token t \<in> set ?s'" by (auto simp: runtime_token_def Let_def split: if_splits)
    then show ?thesis unfolding s using add_token_secrets_props(1) by blast
  next
    case False
    then have "runtime_token t = context_value is_token_key (td_context t)" by (simp add: runtime_token_def Let_def)
    with context_value_in [OF False] False show ?thesis unfolding s by (auto intro: add_token_secrets_in)
  qed
qed

text \<open>
  A job never runs without a time limit: the effective limit is positive, and it is the job's own
  limit whenever that is positive.
\<close>

theorem job_limit_positive:
  "0 < effective_timeout_minutes t j
   \<and> (0 < job_timeout_minutes j \<longrightarrow> effective_timeout_minutes t j = job_timeout_minutes j)"
  by (simp add: effective_timeout_minutes_def Let_def)


end
