(* ===== verification/Cxx_Numbers.thy ===== *)
theory Cxx_Numbers
  imports Prelude
begin

text \<open>
  Decimal numbers in texts, as \<^verbatim>\<open>strtoll\<close>, \<^verbatim>\<open>std::stoll\<close>, \<^verbatim>\<open>std::stoi\<close> and \<^verbatim>\<open>sscanf\<close> read them.
\<close>

text \<open>A decimal number behind white space, with an optional sign, and the text behind it.\<close>

definition scan_number :: "string \<Rightarrow> (int \<times> string) option" where
  "scan_number s =
     (let s = dropWhile is_space s;
          (neg, ds) = (case s of c # r \<Rightarrow> (if c = CHR ''-'' then (True, r) else if c = CHR ''+'' then (False, r) else (False, s))
                       | [] \<Rightarrow> (False, []));
          digits = takeWhile is_digit ds
      in if digits = [] then None
         else Some ((if neg then - int (dec_val digits) else int (dec_val digits)), dropWhile is_digit ds))"

definition clamp64 :: "int \<Rightarrow> int" where
  "clamp64 i = max (- (2 ^ 63)) (min (2 ^ 63 - 1) i)"

definition strtoll :: "string \<Rightarrow> int" where
  "strtoll s = (case scan_number s of None \<Rightarrow> 0 | Some (i, _) \<Rightarrow> clamp64 i)"

definition stoll :: "string \<Rightarrow> int result" where
  "stoll s =
     (case scan_number s of
        None \<Rightarrow> Inl (Invalid_argument ''stoll'')
      | Some (i, _) \<Rightarrow> if clamp64 i = i then Inr i else Inl (Out_of_range ''stoll''))"

definition stoi :: "string \<Rightarrow> int result" where
  "stoi s =
     (case scan_number s of
        None \<Rightarrow> Inl (Invalid_argument ''stoi'')
      | Some (i, _) \<Rightarrow> if - (2 ^ 31) \<le> i \<and> i < 2 ^ 31 then Inr i else Inl (Out_of_range ''stoi''))"

lemma digit_not_sign: "is_digit c \<Longrightarrow> \<not> is_space c \<and> c \<noteq> CHR ''-'' \<and> c \<noteq> CHR ''+''"
  by (auto simp: is_digit_def is_space_def ascii_def)

lemma scan_number_digits:
  assumes "r = [] \<or> \<not> is_digit (hd r)"
  shows "scan_number (nat_to_string n @ r) = Some (int n, r)"
proof -
  have d: "\<forall>c \<in> set (nat_to_string n). is_digit c" using nat_to_string_digits by blast
  obtain c cs where n: "nat_to_string n = c # cs" using nat_to_string_not_Nil by (cases "nat_to_string n") auto
  then have "is_digit c" using d by simp
  from digit_not_sign [OF this] have c: "dropWhile is_space (nat_to_string n @ r) = nat_to_string n @ r" "c \<noteq> CHR ''-''" "c \<noteq> CHR ''+''"
    by (simp_all add: n)
  have "takeWhile is_digit (nat_to_string n @ r) = nat_to_string n" "dropWhile is_digit (nat_to_string n @ r) = r"
    using d assms by (cases r; simp add: takeWhile_append2 dropWhile_append2)+
  then show ?thesis
    using c n dec_val_nat_to_string [of n] by (simp add: scan_number_def Let_def)
qed

lemma strtoll_nat: "int n < 2 ^ 63 \<Longrightarrow> strtoll (nat_to_string n) = int n"
  using scan_number_digits [of "[]" n] by (simp add: strtoll_def clamp64_def)

lemma scan_number_space: "scan_number (CHR '' '' # s) = scan_number s"
  by (simp add: scan_number_def is_space_def ascii_def)

lemma stoi_nat: "int n < 2 ^ 31 \<Longrightarrow> stoi (nat_to_string n) = Inr (int n)"
  using scan_number_digits [of "[]" n] by (simp add: stoi_def)

end
