(* ===== verification/Json_Nodes.thy ===== *)
theory Json_Nodes
  imports Exec_Monad Cxx_Numbers "HOL-Library.Word"
begin

text \<open>
  The documents of nlohmann::json, as the cache server uses them.  The texts are a matter of the
  library: parsing a string, reading the first value of a stream and dumping (with an indentation, or
  without) are parameters, and so is the conversion of a floating-point number to an integer, which
  the language leaves open outside the range of the type.  An object is a \<^verbatim>\<open>std::map\<close>.
\<close>

datatype json =
    J_null
  | J_bool bool
  | J_int int
  | J_float dbl
  | J_string string
  | J_array "json list"
  | J_object "(string \<times> json) list"

record json_api =
  json_parse :: "string \<Rightarrow> json result"
  json_read :: "string \<Rightarrow> json result"
  json_dump :: "nat option \<Rightarrow> json \<Rightarrow> string result"
  json_float_int :: "dbl \<Rightarrow> int"

text \<open>The initializer list of an object.\<close>

definition json_obj :: "(string \<times> json) list \<Rightarrow> json" where
  "json_obj kvs = J_object (fold (\<lambda>(k, v). omap_set k v) kvs [])"

text \<open>\<^verbatim>\<open>get<std::string>()\<close>, \<^verbatim>\<open>get<int64_t>()\<close> and \<^verbatim>\<open>get<bool>()\<close>.\<close>

fun get_string :: "json \<Rightarrow> string result" where
  "get_string (J_string s) = Inr s"
| "get_string _ = Inl (Runtime_error ''type must be string'')"

fun get_int64 :: "json_api \<Rightarrow> json \<Rightarrow> int result" where
  "get_int64 api (J_int i) = Inr (sint (word_of_int i :: 64 word))"
| "get_int64 api (J_float d) = Inr (json_float_int api d)"
| "get_int64 api _ = Inl (Runtime_error ''type must be number'')"

fun get_bool :: "json \<Rightarrow> bool result" where
  "get_bool (J_bool b) = Inr b"
| "get_bool _ = Inl (Runtime_error ''type must be boolean'')"

text \<open>\<^verbatim>\<open>value(key, default)\<close>: an absent key gives the default, a value that is no object throws.\<close>

fun value_or :: "(json \<Rightarrow> 'a result) \<Rightarrow> json \<Rightarrow> string \<Rightarrow> 'a \<Rightarrow> 'a result" where
  "value_or conv (J_object kvs) k d = (case omap_get kvs k of None \<Rightarrow> Inr d | Some v \<Rightarrow> conv v)"
| "value_or conv _ k d = Inl (Runtime_error ''cannot use value()'')"

text \<open>\<^verbatim>\<open>contains(key)\<close> and the element: only an object contains a key.\<close>

fun json_find :: "json \<Rightarrow> string \<Rightarrow> json option" where
  "json_find (J_object kvs) k = omap_get kvs k"
| "json_find _ k = None"

lemma sint_int64 [simp]:
  "- (2 ^ 63) \<le> i \<Longrightarrow> i < 2 ^ 63 \<Longrightarrow> sint (word_of_int i :: 64 word) = i"
  by (simp add: sint_sbintrunc' signed_take_bit_int_eq_self)

lemma json_find_obj: "json_find (json_obj kvs) k = map_of (rev kvs) k"
proof -
  have "omap_get (fold (\<lambda>(k, v). omap_set k v) kvs m) k = (case map_of (rev kvs) k of Some v \<Rightarrow> Some v | None \<Rightarrow> omap_get m k)" for m
  proof (induction kvs arbitrary: m)
    case (Cons kv kvs)
    then show ?case by (cases kv) (auto split: option.split simp: map_add_def)
  qed simp
  from this [of "[]"] show ?thesis by (simp add: json_obj_def split: option.split)
qed

lemma value_or_obj [simp]:
  "value_or conv (json_obj kvs) k d = (case map_of (rev kvs) k of None \<Rightarrow> Inr d | Some v \<Rightarrow> conv v)"
  using json_find_obj [of kvs k] by (simp add: json_obj_def)

end
