(* ===== verification/Cache_Server.thy ===== *)
theory Cache_Server
  imports Json_Nodes
begin

text \<open>
  \<^verbatim>\<open>src/src/cache/CacheServer.cpp\<close>: the local HTTP server for the cache and artifact services of a job.
  A handler is a computation over the server's members and the files it works on.  libmicrohttpd
  calls the handlers from one thread, so the requests are a sequence; the other thread only counts
  and purges entries under the lock.
\<close>

section \<open>Names, numbers and keys\<close>

definition hex_char :: "nat \<Rightarrow> char" where
  "hex_char d = (if d < 10 then char_of (48 + d) else char_of (87 + d))"

text \<open>\<^verbatim>\<open>%016llx\<close>\<close>

definition hex16 :: "64 word \<Rightarrow> string" where
  "hex16 v = map (\<lambda>i. hex_char (unat v div 16 ^ (15 - i) mod 16)) [0..<16]"

text \<open>\<open>rnd\<close> are the two values drawn from the generator.\<close>

definition randomBlobName :: "64 word \<times> 64 word \<Rightarrow> string" where
  "randomBlobName rnd = hex16 (fst rnd) @ hex16 (snd rnd)"

function parseKeys :: "string \<Rightarrow> string list" where
  "parseKeys csv =
     (if csv = [] then []
      else case str_find '','' csv of
             None \<Rightarrow> [csv]
           | Some comma \<Rightarrow> take comma csv # parseKeys (drop (comma + 1) csv))"
  by auto
termination by (relation "measure length") auto

declare parseKeys.simps [simp del]

text \<open>\<^verbatim>\<open>sscanf(s, "bytes %lld-%lld/%lld", &start, &end, &total)\<close> with the initial values 0, without the total.\<close>

definition scan_range :: "string \<Rightarrow> int \<times> int" where
  "scan_range s =
     (if \<not> starts_with s ''bytes'' then (0, 0)
      else case scan_number (drop 5 s) of
             None \<Rightarrow> (0, 0)
           | Some (a, r) \<Rightarrow>
               (if r \<noteq> [] \<and> hd r = CHR ''-'' then
                  (case scan_number (tl r) of None \<Rightarrow> (clamp64 a, 0) | Some (b, _) \<Rightarrow> (clamp64 a, clamp64 b))
                else (clamp64 a, 0)))"

text \<open>\<^verbatim>\<open>x + 1\<close> in \<^verbatim>\<open>int64_t\<close>.\<close>

definition inc64 :: "int \<Rightarrow> int eres" where
  "inc64 i = (if i < 2 ^ 63 - 1 then EOk (i + 1) else EUndef Signed_overflow)"

section \<open>State\<close>

record cache_entry =
  ce_key :: string
  ce_version :: string
  ce_blob_name :: string
  ce_size :: int
  ce_created :: int

record cache_upload =
  up_key :: string
  up_version :: string
  up_declared_size :: int
  up_path :: string
  up_received :: int

record artifact_entry =
  ar_name :: string
  ar_workflow_run_id :: string
  ar_job_run_id :: string
  ar_blob_path :: string
  ar_size :: int
  ar_finalized :: bool
  ar_id :: int
  ar_created :: int

record cache_server =
  cs_dir :: string
  cs_host :: string
  cs_desired_port :: nat
  cs_port :: nat
  cs_running :: bool
  cs_entries :: "(string \<times> cache_entry) list"
  cs_uploads :: "(int \<times> cache_upload) list"
  cs_next_upload :: int
  cs_artifacts :: "(string \<times> artifact_entry) list"
  cs_next_artifact :: int
  cs_files :: "string \<rightharpoonup> string"

text \<open>
  The file system: whether directories can be created, a file can be opened for writing, renamed and
  removed; how many bytes a \<^verbatim>\<open>write\<close> at an offset accepts; what a failed copy leaves behind
  (\<^const>\<open>None\<close>: the copy succeeds); which files survive a recursive removal.
\<close>

record cache_world =
  cw_json :: json_api
  cw_mkdirs :: "string \<Rightarrow> bool"
  cw_writable :: "string \<Rightarrow> bool"
  cw_write :: "string \<Rightarrow> nat \<Rightarrow> nat \<Rightarrow> int"
  cw_rename :: "string \<Rightarrow> string \<Rightarrow> bool"
  cw_copy :: "string \<Rightarrow> string \<Rightarrow> string option option"
  cw_remove :: "string \<Rightarrow> bool"
  cw_survives :: "string \<Rightarrow> string \<Rightarrow> bool"
  cw_daemon :: "nat \<Rightarrow> nat option"

type_synonym 'a cache_op = "(cache_server, 'a) comp"

definition set_files :: "((string \<rightharpoonup> string) \<Rightarrow> (string \<rightharpoonup> string)) \<Rightarrow> unit cache_op" where
  "set_files f = smod (\<lambda>s. s\<lparr>cs_files := f (cs_files s)\<rparr>)"

definition slift_result :: "'a result \<Rightarrow> 'a cache_op" where
  "slift_result r = slift (Some (of_result r))"

definition create_dirs :: "cache_world \<Rightarrow> string \<Rightarrow> unit cache_op" where
  "create_dirs w d = (if cw_mkdirs w d then sret () else sthrow (Runtime_error ''create_directories''))"

text \<open>\<^verbatim>\<open>::rename\<close>: nothing happens when it fails.\<close>

definition rename_file :: "cache_world \<Rightarrow> string \<Rightarrow> string \<Rightarrow> (string \<rightharpoonup> string) \<Rightarrow> (string \<rightharpoonup> string)" where
  "rename_file w a b fs =
     (case fs a of None \<Rightarrow> fs | Some c \<Rightarrow> if cw_rename w a b then fs(a := None, b \<mapsto> c) else fs)"

text \<open>A \<^verbatim>\<open>write\<close> of \<open>data\<close> at the offset \<open>off\<close>; a gap behind the end of the file reads as zeros.\<close>

definition write_at :: "nat \<Rightarrow> string \<Rightarrow> string \<Rightarrow> string" where
  "write_at off data c = take off (c @ replicate (off - length c) (CHR 0x00)) @ data @ drop (off + length data) c"

section \<open>Persistence\<close>

definition save_doc :: "cache_world \<Rightarrow> string \<Rightarrow> json \<Rightarrow> unit cache_op" where
  "save_doc w path j =
     (let tmp = path @ ''.tmp'' in
      sbind (set_files (\<lambda>fs. if cw_writable w tmp then fs(tmp \<mapsto> []) else fs)) (\<lambda>_.
      sbind (slift_result (json_dump (cw_json w) (Some 2) j)) (\<lambda>text.
      sbind (set_files (\<lambda>fs. if cw_writable w tmp then fs(tmp \<mapsto> text) else fs)) (\<lambda>_.
      set_files (rename_file w tmp path)))))"

definition index_path :: "string \<Rightarrow> string" where
  "index_path dir = dir @ ''/index.json''"

definition artifact_index_path :: "string \<Rightarrow> string" where
  "artifact_index_path dir = dir @ ''/artifact_index.json''"

definition entry_doc :: "cache_entry \<Rightarrow> json" where
  "entry_doc e = json_obj [(''key'', J_string (ce_key e)), (''version'', J_string (ce_version e)),
     (''blob'', J_string (ce_blob_name e)), (''size'', J_int (ce_size e)), (''created'', J_int (ce_created e))]"

definition index_doc :: "(string \<times> cache_entry) list \<Rightarrow> json" where
  "index_doc es = json_obj (map (\<lambda>(k, e). (k, entry_doc e)) es)"

definition saveIndexLocked :: "cache_world \<Rightarrow> unit cache_op" where
  "saveIndexLocked w s = save_doc w (index_path (cs_dir s)) (index_doc (cs_entries s)) s"

definition load_entry :: "json_api \<Rightarrow> json \<Rightarrow> cache_entry result" where
  "load_entry api v =
     rbind (value_or get_string v ''key'' []) (\<lambda>k.
     rbind (value_or get_string v ''version'' []) (\<lambda>ver.
     rbind (value_or get_string v ''blob'' []) (\<lambda>b.
     rbind (value_or (get_int64 api) v ''size'' 0) (\<lambda>sz.
     rbind (value_or (get_int64 api) v ''created'' 0) (\<lambda>cr.
     Inr \<lparr>ce_key = k, ce_version = ver, ce_blob_name = b, ce_size = sz, ce_created = cr\<rparr>)))))"

text \<open>The loops of the loaders: an exception ends them, what was stored before it stays.\<close>

fun load_entries :: "json_api \<Rightarrow> (string \<times> json) list \<Rightarrow> (string \<times> cache_entry) list \<Rightarrow> (string \<times> cache_entry) list" where
  "load_entries api [] es = es"
| "load_entries api ((k, v) # kvs) es =
     (case load_entry api v of Inl _ \<Rightarrow> es | Inr e \<Rightarrow> load_entries api kvs (omap_set k e es))"

definition loadIndex :: "cache_world \<Rightarrow> unit cache_op" where
  "loadIndex w s =
     (case cs_files s (index_path (cs_dir s)) of
        None \<Rightarrow> sret () s
      | Some text \<Rightarrow>
          (case json_read (cw_json w) text of
             Inr (J_object kvs) \<Rightarrow> smod (\<lambda>s. s\<lparr>cs_entries := load_entries (cw_json w) kvs (cs_entries s)\<rparr>) s
           | _ \<Rightarrow> sret () s))"

definition artifact_doc :: "artifact_entry \<Rightarrow> json" where
  "artifact_doc e = json_obj [(''name'', J_string (ar_name e)), (''workflow_run_id'', J_string (ar_workflow_run_id e)),
     (''job_run_id'', J_string (ar_job_run_id e)), (''blob_path'', J_string (ar_blob_path e)), (''size'', J_int (ar_size e)),
     (''finalized'', J_bool (ar_finalized e)), (''id'', J_int (ar_id e)), (''created'', J_int (ar_created e))]"

definition artifact_index_doc :: "(string \<times> artifact_entry) list \<Rightarrow> json" where
  "artifact_index_doc es = json_obj (map (\<lambda>(k, e). (k, artifact_doc e)) es)"

definition saveArtifactIndexLocked :: "cache_world \<Rightarrow> unit cache_op" where
  "saveArtifactIndexLocked w s =
     save_doc w (artifact_index_path (cs_dir s)) (artifact_index_doc (cs_artifacts s)) s"

definition load_artifact :: "json_api \<Rightarrow> json \<Rightarrow> artifact_entry result" where
  "load_artifact api v =
     rbind (value_or get_string v ''name'' []) (\<lambda>n.
     rbind (value_or get_string v ''workflow_run_id'' []) (\<lambda>wr.
     rbind (value_or get_string v ''job_run_id'' []) (\<lambda>jr.
     rbind (value_or get_string v ''blob_path'' []) (\<lambda>b.
     rbind (value_or (get_int64 api) v ''size'' 0) (\<lambda>sz.
     rbind (value_or get_bool v ''finalized'' False) (\<lambda>fin.
     rbind (value_or (get_int64 api) v ''id'' 0) (\<lambda>i.
     rbind (value_or (get_int64 api) v ''created'' 0) (\<lambda>cr.
     Inr \<lparr>ar_name = n, ar_workflow_run_id = wr, ar_job_run_id = jr, ar_blob_path = b, ar_size = sz,
          ar_finalized = fin, ar_id = i, ar_created = cr\<rparr>))))))))"

fun load_artifacts :: "json_api \<Rightarrow> (string \<times> json) list \<Rightarrow> unit cache_op" where
  "load_artifacts api [] = sret ()"
| "load_artifacts api ((k, v) # kvs) =
     (case load_artifact api v of
        Inl _ \<Rightarrow> sret ()
      | Inr e \<Rightarrow>
          sbind (smod (\<lambda>s. s\<lparr>cs_artifacts := omap_set k e (cs_artifacts s)\<rparr>)) (\<lambda>_.
          sbind (sget cs_next_artifact) (\<lambda>nxt.
          sbind (if nxt \<le> ar_id e then sbind (slift (Some (inc64 (ar_id e)))) (\<lambda>n. smod (\<lambda>s. s\<lparr>cs_next_artifact := n\<rparr>))
                 else sret ()) (\<lambda>_.
          load_artifacts api kvs))))"

definition loadArtifactIndex :: "cache_world \<Rightarrow> unit cache_op" where
  "loadArtifactIndex w s =
     (case cs_files s (artifact_index_path (cs_dir s)) of
        None \<Rightarrow> sret () s
      | Some text \<Rightarrow>
          (case json_read (cw_json w) text of
             Inr (J_object kvs) \<Rightarrow> load_artifacts (cw_json w) kvs s
           | _ \<Rightarrow> sret () s))"

text \<open>The constructor, on the files it finds.\<close>

definition empty_server :: "string \<Rightarrow> string \<Rightarrow> nat \<Rightarrow> (string \<rightharpoonup> string) \<Rightarrow> cache_server" where
  "empty_server dir host port fs = \<lparr>cs_dir = dir, cs_host = host, cs_desired_port = port, cs_port = 0, cs_running = False,
     cs_entries = [], cs_uploads = [], cs_next_upload = 1, cs_artifacts = [], cs_next_artifact = 1, cs_files = fs\<rparr>"

definition new_cache_server :: "cache_world \<Rightarrow> string \<Rightarrow> string \<Rightarrow> nat \<Rightarrow> (string \<rightharpoonup> string) \<Rightarrow> (unit eres \<times> cache_server) option" where
  "new_cache_server w dir host port fs =
     sbind (create_dirs w dir) (\<lambda>_.
     sbind (create_dirs w (dir @ ''/blobs'')) (\<lambda>_.
     sbind (create_dirs w (dir @ ''/uploads'')) (\<lambda>_.
     sbind (create_dirs w (dir @ ''/artifacts'')) (\<lambda>_.
     sbind (loadIndex w) (\<lambda>_.
     loadArtifactIndex w))))) (empty_server dir host port fs)"

section \<open>Replies\<close>

record http_reply =
  hr_status :: int
  hr_body :: string
  hr_type :: string

definition json_type :: string where
  "json_type = ''application/json''"

definition reply :: "int \<Rightarrow> string \<Rightarrow> http_reply" where
  "reply status body = \<lparr>hr_status = status, hr_body = body, hr_type = json_type\<rparr>"

definition error_body :: "string \<Rightarrow> string" where
  \<open>error_body msg = ''{"error":"'' @ msg @ ''"}''\<close>

definition twirp_body :: "string \<Rightarrow> string \<Rightarrow> string" where
  \<open>twirp_body code msg = ''{"code":"'' @ code @ ''","msg":"'' @ msg @ ''"}''\<close>

definition reply_json :: "cache_world \<Rightarrow> json \<Rightarrow> http_reply cache_op" where
  "reply_json w j = sbind (slift_result (json_dump (cw_json w) None j)) (\<lambda>text. sret (reply 200 text))"

definition baseUrl :: "cache_server \<Rightarrow> string" where
  "baseUrl s = ''http://'' @ cs_host s @ '':'' @ nat_to_string (cs_port s) @ ''/''"

section \<open>Cache handlers\<close>

definition entry_index :: "string \<Rightarrow> string \<Rightarrow> string" where
  "entry_index key version = key @ ''|'' @ version"

definition hit_doc :: "string \<Rightarrow> cache_entry \<Rightarrow> json" where
  "hit_doc url e = json_obj [(''cacheKey'', J_string (ce_key e)), (''scope'', J_string ''refs/heads/main''),
     (''cacheVersion'', J_string (ce_version e)), (''archiveLocation'', J_string (url @ ''blobs/'' @ ce_blob_name e))]"

fun exact_pass :: "(string \<times> cache_entry) list \<Rightarrow> string \<Rightarrow> string list \<Rightarrow> cache_entry option" where
  "exact_pass es version [] = None"
| "exact_pass es version (k # ks) =
     (case omap_get es (entry_index k version) of Some e \<Rightarrow> Some e | None \<Rightarrow> exact_pass es version ks)"

definition better :: "string \<Rightarrow> string \<Rightarrow> string \<times> cache_entry \<Rightarrow> cache_entry option \<Rightarrow> cache_entry option" where
  "better version restore ie best =
     (if ce_version (snd ie) = version \<and> starts_with (ce_key (snd ie)) restore
         \<and> (case best of None \<Rightarrow> True | Some b \<Rightarrow> ce_created b < ce_created (snd ie))
      then Some (snd ie) else best)"

definition prefix_pass :: "(string \<times> cache_entry) list \<Rightarrow> string \<Rightarrow> string list \<Rightarrow> cache_entry option" where
  "prefix_pass es version restores = fold (\<lambda>p. fold (better version p) es) restores None"

definition handleCacheLookup :: "cache_world \<Rightarrow> string \<Rightarrow> string \<Rightarrow> http_reply cache_op" where
  "handleCacheLookup w keys_csv version s =
     (let keys = parseKeys keys_csv in
      if keys = [] then sret (reply 400 (error_body ''missing keys'')) s
      else case exact_pass (cs_entries s) version keys of
             Some e \<Rightarrow> reply_json w (hit_doc (baseUrl s) e) s
           | None \<Rightarrow>
               (case prefix_pass (cs_entries s) version (tl keys) of
                  Some e \<Rightarrow> reply_json w (hit_doc (baseUrl s) e) s
                | None \<Rightarrow> sret (reply 204 []) s))"

text \<open>\<^verbatim>\<open>json::parse\<close> inside \<^verbatim>\<open>try\<close>, where every exception is answered with \<open>bad\<close>.\<close>

definition with_request :: "cache_world \<Rightarrow> string \<Rightarrow> http_reply \<Rightarrow> (json \<Rightarrow> http_reply cache_op) \<Rightarrow> http_reply cache_op" where
  "with_request w body bad k = (case json_parse (cw_json w) body of Inl _ \<Rightarrow> sret bad | Inr req \<Rightarrow> k req)"

definition upload_dir :: "string \<Rightarrow> int \<Rightarrow> string" where
  "upload_dir dir upload_id = dir @ ''/uploads/'' @ int_to_string upload_id"

definition reserve_upload :: "cache_world \<Rightarrow> string \<Rightarrow> string \<Rightarrow> int \<Rightarrow> int cache_op" where
  "reserve_upload w key version declared =
     sbind (sget cs_next_upload) (\<lambda>upload_id.
     sbind (slift (Some (inc64 upload_id))) (\<lambda>nxt.
     sbind (smod (\<lambda>s. s\<lparr>cs_next_upload := nxt\<rparr>)) (\<lambda>_.
     sbind (sget (\<lambda>s. upload_dir (cs_dir s) upload_id)) (\<lambda>d.
     sbind (create_dirs w d) (\<lambda>_.
     sbind (smod (\<lambda>s. s\<lparr>cs_uploads := omap_set upload_id
       \<lparr>up_key = key, up_version = version, up_declared_size = declared, up_path = d @ ''/data'', up_received = 0\<rparr>
       (cs_uploads s)\<rparr>)) (\<lambda>_.
     sbind (set_files (\<lambda>fs. if cw_writable w (d @ ''/data'') then fs(d @ ''/data'' \<mapsto> []) else fs)) (\<lambda>_.
     sret upload_id)))))))"

definition handleCacheReserve :: "cache_world \<Rightarrow> string \<Rightarrow> http_reply cache_op" where
  "handleCacheReserve w request_body =
     with_request w request_body (reply 400 (error_body ''invalid JSON'')) (\<lambda>req.
     sbind (slift_result (value_or get_string req ''key'' [])) (\<lambda>key.
     sbind (slift_result (value_or get_string req ''version'' [])) (\<lambda>version.
     sbind (slift_result (value_or (get_int64 (cw_json w)) req ''cacheSize'' 0)) (\<lambda>size.
     if key = [] \<or> version = [] then sret (reply 400 (error_body ''key and version required''))
     else
       sbind (sget (\<lambda>s. omap_has (cs_entries s) (entry_index key version))) (\<lambda>exists.
       if exists then sret (reply 409 (error_body ''already exists''))
       else
         sbind (reserve_upload w key version size) (\<lambda>upload_id.
         reply_json w (json_obj [(''cacheId'', J_int upload_id)])))))))"

text \<open>
  The \<^verbatim>\<open>write\<close> loop: the contents it leaves, and whether all was written.  A call accepts at most what
  it was offered.
\<close>

function write_all :: "cache_world \<Rightarrow> string \<Rightarrow> nat \<Rightarrow> string \<Rightarrow> string \<Rightarrow> bool \<times> string" where
  "write_all w path off data c =
     (if data = [] then (True, c)
      else let n = cw_write w path off (length data) in
        if n \<le> 0 then (False, c)
        else write_all w path (off + nat n) (drop (nat n) data) (write_at off (take (nat n) data) c))"
  by auto
termination by (relation "measure (\<lambda>(w, p, off, data, c). length data)") auto

declare write_all.simps [simp del]

text \<open>\<^verbatim>\<open>(end >= start) ? end + 1 : static_cast<int64_t>(start + data_len)\<close>, where the second sum is unsigned.\<close>

definition written_end :: "int \<Rightarrow> int \<Rightarrow> nat \<Rightarrow> int eres" where
  "written_end start end data_len =
     (if start \<le> end then inc64 end else EOk (sint (word_of_int (start + int data_len) :: 64 word)))"

definition note_received :: "int \<Rightarrow> int \<Rightarrow> int \<Rightarrow> nat \<Rightarrow> unit cache_op" where
  "note_received upload_id start end data_len =
     sbind (sget (\<lambda>s. omap_get (cs_uploads s) upload_id)) (\<lambda>u.
     case u of
       None \<Rightarrow> sret ()
     | Some u \<Rightarrow>
         sbind (slift (Some (written_end start end data_len))) (\<lambda>e.
         if up_received u < e
         then smod (\<lambda>s. s\<lparr>cs_uploads := omap_set upload_id (u\<lparr>up_received := e\<rparr>) (cs_uploads s)\<rparr>)
         else sret ()))"

definition handleCachePatch :: "cache_world \<Rightarrow> int \<Rightarrow> string \<Rightarrow> string \<Rightarrow> http_reply cache_op" where
  "handleCachePatch w upload_id content_range data =
     (let (start, end) = scan_range content_range in
      sbind (sget (\<lambda>s. omap_get (cs_uploads s) upload_id)) (\<lambda>u.
      case u of
        None \<Rightarrow> sret (reply 404 (error_body ''unknown upload id''))
      | Some u \<Rightarrow>
          let path = up_path u in
          if \<not> cw_writable w path then sret (reply 500 (error_body ''cannot open upload file''))
          else
            sbind (sget (\<lambda>s. write_all w path (nat start) data (case cs_files s path of None \<Rightarrow> [] | Some c \<Rightarrow> c))) (\<lambda>r.
            sbind (set_files (\<lambda>fs. fs(path \<mapsto> snd r))) (\<lambda>_.
            if \<not> fst r then sret (reply 500 (error_body ''write failed''))
            else
              sbind (note_received upload_id start end (length data)) (\<lambda>_.
              sret (reply 204 []))))))"

text \<open>
  \<^verbatim>\<open>fs::rename\<close> with an error code, and the copy when it fails; the result tells whether the blob is
  in place.
\<close>

definition move_blob :: "cache_world \<Rightarrow> string \<Rightarrow> string \<Rightarrow> bool cache_op" where
  "move_blob w src dest =
     sbind (sget (\<lambda>s. cs_files s src)) (\<lambda>c.
     case c of
       None \<Rightarrow> sret False
     | Some c \<Rightarrow>
         if cw_rename w src dest then sbind (set_files (\<lambda>fs. fs(src := None, dest \<mapsto> c))) (\<lambda>_. sret True)
         else
           (case cw_copy w src dest of
              Some rest \<Rightarrow> sbind (set_files (\<lambda>fs. fs(dest := rest))) (\<lambda>_. sret False)
            | None \<Rightarrow>
                sbind (set_files (\<lambda>fs. fs(dest \<mapsto> c))) (\<lambda>_.
                if cw_remove w src then sbind (set_files (\<lambda>fs. fs(src := None))) (\<lambda>_. sret True)
                else sthrow (Runtime_error ''remove''))))"

text \<open>
  A path below a directory, without a component that leads out of it again.  \<^verbatim>\<open>fs::remove_all\<close> removes a
  directory and what is below it.
\<close>

fun path_parts :: "string \<Rightarrow> string list" where
  "path_parts [] = [[]]"
| "path_parts (c # cs) =
     (if c = CHR ''/'' then [] # path_parts cs
      else case path_parts cs of [] \<Rightarrow> [[c]] | x # xs \<Rightarrow> (c # x) # xs)"

definition inside :: "string \<Rightarrow> string \<Rightarrow> bool" where
  "inside d p \<longleftrightarrow> starts_with p (d @ ''/'') \<and> ''..'' \<notin> set (path_parts (drop (length d + 1) p))"

definition remove_tree :: "cache_world \<Rightarrow> string \<Rightarrow> (string \<rightharpoonup> string) \<Rightarrow> (string \<rightharpoonup> string)" where
  "remove_tree w d fs = (\<lambda>p. if (p = d \<or> inside d p) \<and> \<not> cw_survives w d p then None else fs p)"

definition file_size :: "(string \<rightharpoonup> string) \<Rightarrow> string \<Rightarrow> int" where
  "file_size fs p = (case fs p of None \<Rightarrow> 0 | Some c \<Rightarrow> int (length c))"

definition blob_path :: "string \<Rightarrow> string \<Rightarrow> string" where
  "blob_path dir blob_name = dir @ ''/blobs/'' @ blob_name"

definition handleCacheCommit :: "cache_world \<Rightarrow> int \<Rightarrow> 64 word \<times> 64 word \<Rightarrow> int \<Rightarrow> http_reply cache_op" where
  "handleCacheCommit w now rnd upload_id =
     sbind (sget (\<lambda>s. omap_get (cs_uploads s) upload_id)) (\<lambda>u.
     case u of
       None \<Rightarrow> sret (reply 404 (error_body ''unknown upload id''))
     | Some u \<Rightarrow>
         let blob_name = randomBlobName rnd @ ''.bin'' in
         sbind (sget (\<lambda>s. blob_path (cs_dir s) blob_name)) (\<lambda>dest.
         sbind (move_blob w (up_path u) dest) (\<lambda>moved.
         if \<not> moved then sret (reply 500 (error_body ''blob commit failed''))
         else
           sbind (sget (\<lambda>s. file_size (cs_files s) dest)) (\<lambda>size.
           sbind (smod (\<lambda>s. s\<lparr>cs_entries := omap_set (entry_index (up_key u) (up_version u))
               \<lparr>ce_key = up_key u, ce_version = up_version u, ce_blob_name = blob_name, ce_size = size, ce_created = now\<rparr>
               (cs_entries s),
             cs_uploads := omap_erase upload_id (cs_uploads s)\<rparr>)) (\<lambda>_.
           sbind (saveIndexLocked w) (\<lambda>_.
           sbind (sget (\<lambda>s. upload_dir (cs_dir s) upload_id)) (\<lambda>d.
           sbind (set_files (remove_tree w d)) (\<lambda>_.
           sret (reply 204 [])))))))))"

text \<open>The test of blob and artifact names.\<close>

definition unsafe_name :: "string \<Rightarrow> bool" where
  "unsafe_name name \<longleftrightarrow> str_find ''/'' name \<noteq> None \<or> str_find ''..'' name \<noteq> None"

definition octets :: "string \<Rightarrow> http_reply" where
  "octets c = \<lparr>hr_status = 200, hr_body = c, hr_type = ''application/octet-stream''\<rparr>"

definition handleBlobGet :: "string \<Rightarrow> http_reply cache_op" where
  "handleBlobGet blob_name s =
     (if unsafe_name blob_name then sret (reply 400 (error_body ''invalid blob name'')) s
      else case cs_files s (blob_path (cs_dir s) blob_name) of
             None \<Rightarrow> sret (reply 404 (error_body ''not found'')) s
           | Some c \<Rightarrow> sret (octets c) s)"

section \<open>Artifact handlers\<close>

definition twirp_invalid :: "string \<Rightarrow> http_reply" where
  "twirp_invalid msg = reply 400 (twirp_body ''invalid_argument'' msg)"

definition twirp_not_found :: http_reply where
  "twirp_not_found = reply 404 (twirp_body ''not_found'' ''artifact not found'')"

definition artifact_url :: "cache_server \<Rightarrow> string \<Rightarrow> string" where
  "artifact_url s name = baseUrl s @ ''artifacts/'' @ name @ ''/blob''"

definition artifact_path :: "string \<Rightarrow> string \<Rightarrow> string" where
  "artifact_path dir name = dir @ ''/artifacts/'' @ name @ ''.bin''"

definition handleArtifactCreate :: "cache_world \<Rightarrow> int \<Rightarrow> string \<Rightarrow> http_reply cache_op" where
  "handleArtifactCreate w now request_body =
     with_request w request_body (twirp_invalid ''invalid JSON'') (\<lambda>req.
     sbind (slift_result (value_or get_string req ''name'' [])) (\<lambda>name.
     sbind (slift_result (value_or get_string req ''workflow_run_backend_id'' [])) (\<lambda>run.
     sbind (slift_result (value_or get_string req ''workflow_job_run_backend_id'' [])) (\<lambda>job.
     if name = [] then sret (twirp_invalid ''name required'')
     else if unsafe_name name then sret (twirp_invalid ''invalid artifact name'')
     else
       sbind (sget cs_next_artifact) (\<lambda>artifact_id.
       sbind (slift (Some (inc64 artifact_id))) (\<lambda>nxt.
       sbind (smod (\<lambda>s. s\<lparr>cs_next_artifact := nxt,
         cs_artifacts := omap_set name \<lparr>ar_name = name, ar_workflow_run_id = run, ar_job_run_id = job,
           ar_blob_path = artifact_path (cs_dir s) name, ar_size = 0, ar_finalized = False, ar_id = artifact_id,
           ar_created = now\<rparr> (cs_artifacts s)\<rparr>)) (\<lambda>_.
       sbind (saveArtifactIndexLocked w) (\<lambda>_.
       sbind (sget (\<lambda>s. artifact_url s name)) (\<lambda>url.
       reply_json w (json_obj [(''ok'', J_bool True), (''signed_upload_url'', J_string url)]))))))))))"

text \<open>The size of a finalize request: a decimal string or a number; other values count as absent.\<close>

definition declared_size :: "json_api \<Rightarrow> json \<Rightarrow> int result" where
  "declared_size api req =
     (case json_find req ''size'' of
        Some (J_string t) \<Rightarrow> stoll t
      | Some (J_int i) \<Rightarrow> get_int64 api (J_int i)
      | Some (J_float d) \<Rightarrow> get_int64 api (J_float d)
      | _ \<Rightarrow> Inr 0)"

definition handleArtifactFinalize :: "cache_world \<Rightarrow> string \<Rightarrow> http_reply cache_op" where
  "handleArtifactFinalize w request_body =
     with_request w request_body (twirp_invalid ''invalid JSON'') (\<lambda>req.
     sbind (slift_result (value_or get_string req ''name'' [])) (\<lambda>name.
     sbind (slift_result (declared_size (cw_json w) req)) (\<lambda>declared.
     sbind (sget (\<lambda>s. omap_get (cs_artifacts s) name)) (\<lambda>a.
     case a of
       None \<Rightarrow> sret twirp_not_found
     | Some a \<Rightarrow>
         sbind (smod (\<lambda>s.
           let actual = file_size (cs_files s) (ar_blob_path a)
           in s\<lparr>cs_artifacts := omap_set name (a\<lparr>ar_size := if 0 < actual then actual else declared, ar_finalized := True\<rparr>)
                  (cs_artifacts s)\<rparr>)) (\<lambda>_.
         sbind (saveArtifactIndexLocked w) (\<lambda>_.
         sbind (sget (\<lambda>s. omap_get (cs_artifacts s) name)) (\<lambda>a'.
         case a' of
           None \<Rightarrow> sthrow (Out_of_range ''map::at'')
         | Some a' \<Rightarrow> reply_json w (json_obj [(''ok'', J_bool True), (''artifact_id'', J_string (int_to_string (ar_id a')))]))))))))"

definition artifact_row :: "artifact_entry \<Rightarrow> json" where
  "artifact_row e = json_obj [(''workflow_run_backend_id'', J_string (ar_workflow_run_id e)),
     (''workflow_job_run_backend_id'', J_string (ar_job_run_id e)), (''database_id'', J_string (int_to_string (ar_id e))),
     (''name'', J_string (ar_name e)), (''size'', J_string (int_to_string (ar_size e)))]"

definition name_filter :: "json \<Rightarrow> string result" where
  "name_filter req =
     (case json_find req ''name_filter'' of
        Some (J_object kvs) \<Rightarrow> value_or get_string (J_object kvs) ''value'' []
      | _ \<Rightarrow> Inr [])"

definition handleArtifactList :: "cache_world \<Rightarrow> string \<Rightarrow> http_reply cache_op" where
  "handleArtifactList w request_body =
     (let req = (case json_parse (cw_json w) request_body of Inr j \<Rightarrow> j | Inl _ \<Rightarrow> J_object []) in
      sbind (slift_result (name_filter req)) (\<lambda>filt.
      sbind (sget (\<lambda>s. map (artifact_row \<circ> snd)
        (filter (\<lambda>(k, e). ar_finalized e \<and> (filt = [] \<or> ar_name e = filt)) (cs_artifacts s)))) (\<lambda>rows.
      reply_json w (json_obj [(''artifacts'', J_array rows)]))))"

definition handleArtifactGetSignedUrl :: "cache_world \<Rightarrow> string \<Rightarrow> http_reply cache_op" where
  "handleArtifactGetSignedUrl w request_body =
     with_request w request_body (twirp_invalid ''invalid JSON'') (\<lambda>req.
     sbind (slift_result (value_or get_string req ''name'' [])) (\<lambda>name.
     sbind (sget (\<lambda>s. omap_get (cs_artifacts s) name)) (\<lambda>a.
     case a of
       None \<Rightarrow> sret twirp_not_found
     | Some a \<Rightarrow>
         if \<not> ar_finalized a then sret twirp_not_found
         else
           sbind (sget (\<lambda>s. artifact_url s name)) (\<lambda>url.
           reply_json w (json_obj [(''signed_url'', J_string url)])))))"

definition handleArtifactBlobPut :: "cache_world \<Rightarrow> string \<Rightarrow> string \<Rightarrow> http_reply cache_op" where
  "handleArtifactBlobPut w artifact_name data =
     sbind (sget (\<lambda>s. omap_get (cs_artifacts s) artifact_name)) (\<lambda>a.
     case a of
       None \<Rightarrow> sret (reply 404 (error_body ''artifact not created''))
     | Some a \<Rightarrow>
         if \<not> cw_writable w (ar_blob_path a) then sret (reply 500 (error_body ''cannot write blob''))
         else sbind (set_files (\<lambda>fs. fs(ar_blob_path a \<mapsto> data))) (\<lambda>_. sret (reply 200 [])))"

definition handleArtifactBlobGet :: "string \<Rightarrow> http_reply cache_op" where
  "handleArtifactBlobGet artifact_name s =
     (case omap_get (cs_artifacts s) artifact_name of
        None \<Rightarrow> sret (reply 404 (error_body ''artifact not found'')) s
      | Some a \<Rightarrow>
          if \<not> ar_finalized a then sret (reply 404 (error_body ''artifact not found'')) s
          else case cs_files s (ar_blob_path a) of
                 None \<Rightarrow> sret (reply 404 (error_body ''blob not readable'')) s
               | Some c \<Rightarrow> sret (octets c) s)"

section \<open>Requests\<close>

record http_conn =
  hc_method :: string
  hc_url :: string
  hc_argument :: "string \<Rightarrow> string option"
  hc_header :: "string \<Rightarrow> string option"

definition or_empty :: "string option \<Rightarrow> string" where
  "or_empty v = (case v of None \<Rightarrow> [] | Some t \<Rightarrow> t)"

definition cache_prefix :: string where
  "cache_prefix = ''/_apis/artifactcache/caches''"

definition twirp_prefix :: string where
  "twirp_prefix = ''/twirp/github.actions.results.api.v1.ArtifactService/''"

text \<open>
  The name in \<^verbatim>\<open>/artifacts/<name>/blob\<close>, if the tests of the URL let it through:
  \<^verbatim>\<open>substr(11, size() - 11 - 5)\<close>, where the length wraps around for a URL of less than 16 characters.
\<close>

definition artifact_blob_url :: "string \<Rightarrow> string option" where
  "artifact_blob_url url =
     (if starts_with url ''/artifacts/'' \<and> 12 < length url \<and> drop (length url - 5) url = ''/blob''
      then Some (if length url < 16 then drop 11 url else take (length url - 16) (drop 11 url))
      else None)"

text \<open>Handlers without a type parameter: the type is set by the dispatcher.\<close>

definition untyped :: "http_reply \<Rightarrow> http_reply" where
  "untyped r = r\<lparr>hr_type := if hr_body r = [] then [] else json_type\<rparr>"

definition route :: "cache_world \<Rightarrow> int \<Rightarrow> 64 word \<times> 64 word \<Rightarrow> http_conn \<Rightarrow> string \<Rightarrow> http_reply cache_op" where
  "route w now rnd conn body =
     (let m = hc_method conn; url = hc_url conn in
      if m = ''GET'' \<and> url = ''/_apis/artifactcache/cache'' then
        handleCacheLookup w (or_empty (hc_argument conn ''keys'')) (or_empty (hc_argument conn ''version''))
      else if m = ''POST'' \<and> url = cache_prefix then handleCacheReserve w body
      else if m = ''PATCH'' \<and> starts_with url (cache_prefix @ ''/'') then
        sbind (handleCachePatch w (strtoll (drop 28 url)) (or_empty (hc_header conn ''Content-Range'')) body)
          (\<lambda>r. sret (untyped r))
      else if m = ''POST'' \<and> starts_with url (cache_prefix @ ''/'') then
        sbind (handleCacheCommit w now rnd (strtoll (drop 28 url))) (\<lambda>r. sret (untyped r))
      else if m = ''GET'' \<and> starts_with url ''/blobs/'' then handleBlobGet (drop 7 url)
      else if m = ''POST'' \<and> url = twirp_prefix @ ''CreateArtifact'' then handleArtifactCreate w now body
      else if m = ''POST'' \<and> url = twirp_prefix @ ''FinalizeArtifact'' then handleArtifactFinalize w body
      else if m = ''POST'' \<and> url = twirp_prefix @ ''ListArtifacts'' then handleArtifactList w body
      else if m = ''POST'' \<and> url = twirp_prefix @ ''GetSignedArtifactURL'' then handleArtifactGetSignedUrl w body
      else case (if m = ''PUT'' \<or> m = ''GET'' then artifact_blob_url url else None) of
             Some name \<Rightarrow>
               if m = ''PUT'' then sbind (handleArtifactBlobPut w name body) (\<lambda>r. sret (untyped r))
               else handleArtifactBlobGet name
           | None \<Rightarrow> sret (reply 404 (error_body ''not found'')))"

definition no_content :: "http_reply \<Rightarrow> http_reply" where
  "no_content r = (if hr_status r = 204 then \<lparr>hr_status = 204, hr_body = [], hr_type = []\<rparr> else r)"

text \<open>
  The access handler.  \<open>con\<close> is \<^verbatim>\<open>*con_cls\<close>: null, or the body collected so far.  The result is the next
  \<^verbatim>\<open>*con_cls\<close>, or the reply that was queued.
\<close>

datatype mhd_result = Continue string | Respond http_reply

definition cache_server_access_handler ::
  "cache_world \<Rightarrow> int \<Rightarrow> 64 word \<times> 64 word \<Rightarrow> http_conn \<Rightarrow> string \<Rightarrow> string option \<Rightarrow> mhd_result cache_op" where
  "cache_server_access_handler w now rnd conn upload_data con =
     (case con of
        None \<Rightarrow> sret (Continue [])
      | Some body \<Rightarrow>
          if hc_method conn \<in> {''POST'', ''PATCH'', ''PUT''} \<and> upload_data \<noteq> [] then sret (Continue (body @ upload_data))
          else
            sbind (scatch (route w now rnd conn body) (\<lambda>e. sret (reply 500 (error_body (what e))))) (\<lambda>r.
            sret (Respond (no_content r))))"

text \<open>
  A request as libmicrohttpd delivers it: a call for the headers, one for every piece of the body, and
  a last one without data.
\<close>

fun serve_body :: "cache_world \<Rightarrow> int \<Rightarrow> 64 word \<times> 64 word \<Rightarrow> http_conn \<Rightarrow> string \<Rightarrow> string list \<Rightarrow> mhd_result cache_op" where
  "serve_body w now rnd conn con [] = cache_server_access_handler w now rnd conn [] (Some con)"
| "serve_body w now rnd conn con (c # cs) =
     sbind (cache_server_access_handler w now rnd conn c (Some con)) (\<lambda>r.
     case r of Continue con' \<Rightarrow> serve_body w now rnd conn con' cs | Respond rep \<Rightarrow> sret (Respond rep))"

definition serve :: "cache_world \<Rightarrow> int \<Rightarrow> 64 word \<times> 64 word \<Rightarrow> http_conn \<Rightarrow> string list \<Rightarrow> mhd_result cache_op" where
  "serve w now rnd conn chunks =
     sbind (cache_server_access_handler w now rnd conn [] None) (\<lambda>r.
     case r of Continue con \<Rightarrow> serve_body w now rnd conn con chunks | Respond rep \<Rightarrow> sret (Respond rep))"

section \<open>Start, stop, counts and purging\<close>

definition cs_start :: "cache_world \<Rightarrow> unit cache_op" where
  "cs_start w s =
     (if cs_running s then sret () s
      else case cw_daemon w (cs_desired_port s) of
             None \<Rightarrow> sthrow (Runtime_error (''MHD_start_daemon failed '' @ [CHR 0xE2, CHR 0x80, CHR 0x94] @ '' port in use?'')) s
           | Some port \<Rightarrow> sret () (s\<lparr>cs_port := port, cs_running := True\<rparr>))"

definition cs_stop :: "cache_server \<Rightarrow> cache_server" where
  "cs_stop s = s\<lparr>cs_running := False\<rparr>"

definition entryCount :: "cache_server \<Rightarrow> nat" where
  "entryCount s = length (cs_entries s)"

definition artifactCount :: "cache_server \<Rightarrow> nat" where
  "artifactCount s = length (filter (\<lambda>(k, e). ar_finalized e) (cs_artifacts s))"

fun purge_loop :: "cache_world \<Rightarrow> string \<Rightarrow> int \<Rightarrow> (string \<times> cache_entry) list \<Rightarrow> (string \<rightharpoonup> string)
    \<Rightarrow> (string \<times> cache_entry) list \<times> nat \<times> (string \<rightharpoonup> string)" where
  "purge_loop w dir cutoff [] fs = ([], 0, fs)"
| "purge_loop w dir cutoff ((k, e) # es) fs =
     (if ce_created e < cutoff then
        (let path = blob_path dir (ce_blob_name e);
             (es', n, fs') = purge_loop w dir cutoff es (if cw_remove w path then fs(path := None) else fs)
         in (es', n + 1, fs'))
      else (let (es', n, fs') = purge_loop w dir cutoff es fs in ((k, e) # es', n, fs')))"

definition purgeOlderThan :: "cache_world \<Rightarrow> int \<Rightarrow> int \<Rightarrow> nat cache_op" where
  "purgeOlderThan w now max_age_days s =
     (if max_age_days \<le> 0 then sret 0 s
      else
        (let cutoff = now - max_age_days * 86400 * 1000;
             (es, removed, fs) = purge_loop w (cs_dir s) cutoff (cs_entries s) (cs_files s);
             s' = s\<lparr>cs_entries := es, cs_files := fs\<rparr>
         in if 0 < removed then sbind (saveIndexLocked w) (\<lambda>_. sret removed) s' else sret removed s'))"

end
