(* ===== verification/Cache_Store.thy ===== *)
theory Cache_Store
  imports Cache_Server
begin

text \<open>
  The correctness of the cache server: names and numbers, the invariant of its maps, the confinement of
  everything it does to its directory, lookups, uploads in pieces, artifacts and restarts.
\<close>

section \<open>Names\<close>

lemma unsafe_name_iff: "unsafe_name n \<longleftrightarrow> CHR ''/'' \<in> set n \<or> sublist ''..'' n"
  unfolding unsafe_name_def str_find_single_None [of "CHR ''/''" n] str_find_None_iff [of "''..''" n] not_not ..

lemma hex_char_safe: "d < 16 \<Longrightarrow> hex_char d \<noteq> CHR ''/'' \<and> hex_char d \<noteq> CHR ''.''"
proof -
  assume "d < 16"
  then have "d \<in> set [0..<16]" by simp
  then show ?thesis by (auto simp: hex_char_def upt_conv_Cons char_of_def)
qed

lemma blob_name_chars: "CHR ''/'' \<notin> set (randomBlobName rnd)" "CHR ''.'' \<notin> set (randomBlobName rnd)"
proof -
  have "hex_char (n mod 16) \<noteq> CHR ''/''" "hex_char (n mod 16) \<noteq> CHR ''.''" for n
    using hex_char_safe [of "n mod 16"] by simp_all
  note n = this this [symmetric]
  show "CHR ''/'' \<notin> set (randomBlobName rnd)" "CHR ''.'' \<notin> set (randomBlobName rnd)"
    unfolding randomBlobName_def hex16_def set_append set_map Un_iff image_iff bex_simps using n by blast+
qed

lemma sublist_dots: "CHR ''.'' \<notin> set s \<Longrightarrow> \<not> sublist ''..'' (s @ ''.bin'')"
proof -
  assume s: "CHR ''.'' \<notin> set s"
  show ?thesis
  proof
    assume "sublist ''..'' (s @ ''.bin'')"
    then obtain a b where e: "s @ ''.bin'' = a @ ''..'' @ b" by (auto simp: sublist_def)
    then consider u where "s = a @ u" "u @ ''.bin'' = ''..'' @ b" | u where "a = s @ u" "''.bin'' = u @ ''..'' @ b"
      by (auto simp: append_eq_append_conv2)
    then show False
      by cases (use s in \<open>auto simp: Cons_eq_append_conv append_eq_Cons_conv\<close>)
  qed
qed

lemma blob_name_safe: "\<not> unsafe_name (randomBlobName rnd @ ''.bin'')"
  using blob_name_chars sublist_dots by (auto simp: unsafe_name_iff)

section \<open>Paths\<close>

lemma path_parts_not_Nil [simp]: "path_parts s \<noteq> []"
  by (cases s) (auto split: list.split)

lemma path_parts_plain: "CHR ''/'' \<notin> set s \<Longrightarrow> path_parts s = [s]"
  by (induction s) auto

lemma path_parts_append: "path_parts (a @ CHR ''/'' # b) = path_parts a @ path_parts b"
proof (induction a)
  case (Cons c a)
  obtain x xs where "path_parts a = x # xs" by (cases "path_parts a") auto
  with Cons show ?case by simp
qed simp

lemma inside_eq: "inside d (d @ CHR ''/'' # q) \<longleftrightarrow> ''..'' \<notin> set (path_parts q)"
  using starts_with_append [of "d @ ''/''" q] by (simp add: inside_def)

lemma inside_trans: "inside d d' \<Longrightarrow> inside d' p \<Longrightarrow> inside d p"
proof -
  assume d': "inside d d'" and p: "inside d' p"
  obtain q where q: "d' = d @ CHR ''/'' # q" using d' by (auto simp: inside_def starts_with_split)
  obtain r where r: "p = d' @ CHR ''/'' # r" using p by (auto simp: inside_def starts_with_split)
  have "''..'' \<notin> set (path_parts (q @ CHR ''/'' # r))"
    using d' p unfolding q r inside_eq by (simp add: path_parts_append inside_eq [of "d @ CHR ''/'' # q", simplified])
  then show ?thesis using inside_eq [of d "q @ CHR ''/'' # r"] by (simp add: q r)
qed

lemma int_to_string_chars: "c \<in> set (int_to_string i) \<Longrightarrow> c = CHR ''-'' \<or> is_digit c"
  using nat_to_string_digits by (auto simp: int_to_string_def split: if_splits)

lemma int_to_string_part: "CHR ''/'' \<notin> set (int_to_string i)" "''..'' \<noteq> int_to_string i"
proof -
  have "\<not> is_digit (CHR ''/'')" "\<not> is_digit (CHR ''.'')" by (simp_all add: is_digit_def ascii_def)
  then have "CHR ''/'' \<notin> set (int_to_string i)" "CHR ''.'' \<notin> set (int_to_string i)"
    using int_to_string_chars [of _ i] by fastforce+
  moreover have "CHR ''.'' \<in> set ''..''" by simp
  ultimately show "CHR ''/'' \<notin> set (int_to_string i)" "''..'' \<noteq> int_to_string i" by metis+
qed

lemma safe_part: "\<not> unsafe_name n \<Longrightarrow> CHR ''/'' \<notin> set n \<and> n \<noteq> ''..''"
  by (auto simp: unsafe_name_iff)

lemma path_parts_two: "CHR ''/'' \<notin> set a \<Longrightarrow> CHR ''/'' \<notin> set b \<Longrightarrow> path_parts (a @ CHR ''/'' # b) = [a, b]"
  by (simp add: path_parts_append path_parts_plain)

lemma inside_paths:
  "inside d (index_path d)" "inside d (index_path d @ ''.tmp'')"
  "inside d (artifact_index_path d)" "inside d (artifact_index_path d @ ''.tmp'')"
  "\<not> unsafe_name b \<Longrightarrow> inside d (blob_path d b)" "\<not> unsafe_name n \<Longrightarrow> inside d (artifact_path d n)"
  "inside d (upload_dir d i)" "inside d (upload_dir d i @ ''/data'')"
proof -
  show "inside d (index_path d)" "inside d (index_path d @ ''.tmp'')"
    "inside d (artifact_index_path d)" "inside d (artifact_index_path d @ ''.tmp'')"
    by (simp_all add: index_path_def artifact_index_path_def inside_eq)
  show "inside d (blob_path d b)" if "\<not> unsafe_name b"
    using safe_part [OF that] path_parts_two [of "''blobs''" b] by (auto simp: blob_path_def inside_eq)
  show "inside d (artifact_path d n)" if "\<not> unsafe_name n"
    using safe_part [OF that] path_parts_two [of "''artifacts''" "n @ ''.bin''"]
    by (cases n) (auto simp: artifact_path_def inside_eq append_eq_Cons_conv)
  have p: "path_parts (''uploads/'' @ int_to_string i) = [''uploads'', int_to_string i]"
    using int_to_string_part path_parts_two [of "''uploads''" "int_to_string i"] by simp
  with int_to_string_part show "inside d (upload_dir d i)"
    by (simp add: upload_dir_def inside_eq)
  have "path_parts (''uploads/'' @ int_to_string i @ ''/data'') = [''uploads'', int_to_string i, ''data'']"
    using p path_parts_append [of "''uploads/'' @ int_to_string i" "''data''"] by simp
  with int_to_string_part show "inside d (upload_dir d i @ ''/data'')"
    by (simp add: upload_dir_def inside_eq)
qed

section \<open>The invariant\<close>

text \<open>
  What every operation keeps: the maps are ordered maps whose keys agree with what they store; upload
  ids were handed out by the counter; artifact ids are unique and below the counter; and every path and
  blob name that is used to access a file is made of safe components.
\<close>

definition entries_ok :: "(string \<times> cache_entry) list \<Rightarrow> bool" where
  "entries_ok es \<longleftrightarrow> omap_ok es \<and>
     (\<forall>(k, e) \<in> set es. k = entry_index (ce_key e) (ce_version e) \<and> \<not> unsafe_name (ce_blob_name e))"

definition uploads_ok :: "string \<Rightarrow> int \<Rightarrow> (int \<times> cache_upload) list \<Rightarrow> bool" where
  "uploads_ok d nxt us \<longleftrightarrow> omap_ok us \<and>
     (\<forall>(i, u) \<in> set us. 1 \<le> i \<and> i < nxt \<and> up_path u = upload_dir d i @ ''/data'')"

definition artifacts_ok :: "string \<Rightarrow> int \<Rightarrow> (string \<times> artifact_entry) list \<Rightarrow> bool" where
  "artifacts_ok d nxt as \<longleftrightarrow> omap_ok as \<and>
     (\<forall>(n, a) \<in> set as. ar_name a = n \<and> n \<noteq> [] \<and> \<not> unsafe_name n \<and> ar_blob_path a = artifact_path d n \<and> ar_id a < nxt)
     \<and> (\<forall>(n, a) \<in> set as. \<forall>(n', a') \<in> set as. ar_id a = ar_id a' \<longrightarrow> n = n')"

definition cs_inv :: "cache_server \<Rightarrow> bool" where
  "cs_inv s \<longleftrightarrow> entries_ok (cs_entries s) \<and> 1 \<le> cs_next_upload s \<and> uploads_ok (cs_dir s) (cs_next_upload s) (cs_uploads s)
     \<and> artifacts_ok (cs_dir s) (cs_next_artifact s) (cs_artifacts s)"

text \<open>With the directory fixed and all files outside of it as in \<open>f0\<close>.\<close>

definition cs_safe :: "string \<Rightarrow> (string \<rightharpoonup> string) \<Rightarrow> cache_server \<Rightarrow> bool" where
  "cs_safe d f0 s \<longleftrightarrow> cs_inv s \<and> cs_dir s = d \<and> (\<forall>p. \<not> inside d p \<longrightarrow> cs_files s p = f0 p)"

lemma set_omap_erase: "(k', v') \<in> set (omap_erase k m) \<Longrightarrow> (k', v') \<in> set m"
  by (simp add: omap_erase_def)

lemma entries_ok_set:
  "entries_ok es \<Longrightarrow> \<not> unsafe_name (ce_blob_name e) \<Longrightarrow> entries_ok (omap_set (entry_index (ce_key e) (ce_version e)) e es)"
  by (auto simp: entries_ok_def dest!: omap_set_cases)

lemma uploads_ok_erase: "uploads_ok d nxt us \<Longrightarrow> uploads_ok d nxt (omap_erase i us)"
  by (auto simp: uploads_ok_def dest!: set_omap_erase)

lemma uploads_ok_set:
  "uploads_ok d nxt us \<Longrightarrow> 1 \<le> i \<Longrightarrow> i < nxt' \<Longrightarrow> nxt \<le> nxt' \<Longrightarrow> up_path u = upload_dir d i @ ''/data''
   \<Longrightarrow> uploads_ok d nxt' (omap_set i u us)"
  by (auto simp: uploads_ok_def dest!: omap_set_cases)

lemma uploads_ok_get:
  assumes "uploads_ok d nxt us" "omap_get us i = Some u"
  shows "1 \<le> i" "i < nxt" "up_path u = upload_dir d i @ ''/data''"
  using assms omap_get_Some_in [OF assms(2)] by (auto simp: uploads_ok_def)

lemma artifacts_ok_get:
  assumes "artifacts_ok d nxt as" "omap_get as n = Some a"
  shows "ar_name a = n" "n \<noteq> []" "\<not> unsafe_name n" "ar_blob_path a = artifact_path d n" "ar_id a < nxt"
    "\<And>n' a'. (n', a') \<in> set as \<Longrightarrow> ar_id a' = ar_id a \<Longrightarrow> n' = n"
  using assms(1) omap_get_Some_in [OF assms(2)] by (auto simp: artifacts_ok_def)

lemma artifacts_ok_set:
  assumes as: "artifacts_ok d nxt as" and a: "ar_name a = n" "n \<noteq> []" "\<not> unsafe_name n" "ar_blob_path a = artifact_path d n"
    and id: "ar_id a < nxt'" "nxt \<le> nxt'" "\<And>n' a'. (n', a') \<in> set as \<Longrightarrow> ar_id a' = ar_id a \<Longrightarrow> n' = n"
  shows "artifacts_ok d nxt' (omap_set n a as)"
proof -
  have ok: "omap_ok as" using as by (simp add: artifacts_ok_def)
  have each: "ar_name a' = n' \<and> n' \<noteq> [] \<and> \<not> unsafe_name n' \<and> ar_blob_path a' = artifact_path d n' \<and> ar_id a' < nxt'"
    if "(n', a') \<in> set (omap_set n a as)" for n' a'
    using omap_set_cases [OF that] as a id(1,2) by (auto simp: artifacts_ok_def)
  have uniq: "n1 = n2" if "(n1, a1) \<in> set (omap_set n a as)" "(n2, a2) \<in> set (omap_set n a as)" "ar_id a1 = ar_id a2" for n1 a1 n2 a2
  proof -
    note set1 = that(1) and set2 = that(2) and eq = that(3)
    consider "n1 = n" "a1 = a" | "(n1, a1) \<in> set as" using omap_set_cases [OF set1] by blast
    then show ?thesis
    proof cases
      case 1
      then show ?thesis using omap_set_cases [OF set2] eq id(3) by fastforce
    next
      case 2
      then show ?thesis using omap_set_cases [OF set2] eq id(3) as unfolding artifacts_ok_def by fastforce
    qed
  qed
  show ?thesis unfolding artifacts_ok_def using ok each uniq by blast
qed

section \<open>Every operation keeps it\<close>

lemma keeps_set_files:
  "(\<And>fs p. \<not> inside d p \<Longrightarrow> f fs p = fs p) \<Longrightarrow> keeps (cs_safe d f0) (set_files f)"
  unfolding set_files_def by (rule keeps_smod) (auto simp: cs_safe_def cs_inv_def)

lemma keeps_slift_result [simp]: "keeps I (slift_result r)"
  by (simp add: slift_result_def)

lemma keeps_at_slift_result [simp]:
  "keeps_at I (sbind (slift_result r) k) s \<longleftrightarrow> (case r of Inr x \<Rightarrow> keeps_at I (k x) s | Inl _ \<Rightarrow> I s)"
  by (cases r) (simp_all add: slift_result_def)

lemma keeps_create_dirs [simp]: "keeps I (create_dirs w p)"
  by (simp add: create_dirs_def)

lemma keeps_reply_json [simp]: "keeps I (reply_json w j)"
  by (simp add: reply_json_def keeps_sbind)

lemma keeps_rename: "inside d a \<Longrightarrow> inside d b \<Longrightarrow> keeps (cs_safe d f0) (set_files (rename_file w a b))"
  by (rule keeps_set_files) (auto simp: rename_file_def split: option.split)

lemma keeps_save_doc: "inside d p \<Longrightarrow> inside d (p @ ''.tmp'') \<Longrightarrow> keeps (cs_safe d f0) (save_doc w p j)"
  unfolding save_doc_def Let_def
  by (rule keeps_sbind keeps_slift_result keeps_rename keeps_set_files | assumption | force)+

lemma keeps_saves:
  "keeps (cs_safe d f0) (saveIndexLocked w)" "keeps (cs_safe d f0) (saveArtifactIndexLocked w)"
proof -
  show "keeps (cs_safe d f0) (saveIndexLocked w)"
    unfolding keeps_iff keeps_at_def saveIndexLocked_def
    using keeps_save_doc [OF inside_paths(1,2)] unfolding keeps_def cs_safe_def by blast
  show "keeps (cs_safe d f0) (saveArtifactIndexLocked w)"
    unfolding keeps_iff keeps_at_def saveArtifactIndexLocked_def
    using keeps_save_doc [OF inside_paths(3,4)] unfolding keeps_def cs_safe_def by blast
qed

lemma cs_safeD:
  assumes "cs_safe d f0 s"
  shows "cs_dir s = d" "entries_ok (cs_entries s)" "1 \<le> cs_next_upload s"
    "uploads_ok d (cs_next_upload s) (cs_uploads s)" "artifacts_ok d (cs_next_artifact s) (cs_artifacts s)"
  using assms by (auto simp: cs_safe_def cs_inv_def)

lemma cs_safe_update:
  "cs_safe d f0 s \<Longrightarrow> entries_ok es \<Longrightarrow> cs_safe d f0 (s\<lparr>cs_entries := es\<rparr>)"
  "cs_safe d f0 s \<Longrightarrow> uploads_ok d (cs_next_upload s) us \<Longrightarrow> cs_safe d f0 (s\<lparr>cs_uploads := us\<rparr>)"
  "cs_safe d f0 s \<Longrightarrow> artifacts_ok d (cs_next_artifact s) as \<Longrightarrow> cs_safe d f0 (s\<lparr>cs_artifacts := as\<rparr>)"
  by (auto simp: cs_safe_def cs_inv_def)

lemma keeps_lookup: "keeps I (handleCacheLookup w keys version)"
  using keeps_reply_json [of I w]
  by (auto simp: keeps_def handleCacheLookup_def Let_def split: if_splits option.splits)

lemma keeps_reserve_upload: "keeps (cs_safe d f0) (reserve_upload w key version declared)"
  unfolding keeps_iff
proof (intro allI impI)
  fix s assume s: "cs_safe d f0 s"
  note inv = cs_safeD [OF s]
  show "keeps_at (cs_safe d f0) (reserve_upload w key version declared) s"
  proof (cases "cs_next_upload s < 2 ^ 63 - 1")
    case True
    let ?i = "cs_next_upload s" and ?s = "s\<lparr>cs_next_upload := cs_next_upload s + 1\<rparr>"
    have s1: "cs_safe d f0 ?s"
      using s inv by (auto simp: cs_safe_def cs_inv_def uploads_ok_def)
    let ?u = "\<lparr>up_key = key, up_version = version, up_declared_size = declared, up_path = upload_dir d ?i @ ''/data'', up_received = 0\<rparr>"
    have s2: "cs_safe d f0 (?s\<lparr>cs_uploads := omap_set ?i ?u (cs_uploads ?s)\<rparr>)"
      using uploads_ok_set [OF inv(4), of ?i "?i + 1" ?u] inv(3) by (intro cs_safe_update [OF s1]) simp
    have "keeps_at (cs_safe d f0) (sbind (set_files (\<lambda>fs. if cw_writable w (upload_dir d ?i @ ''/data'')
        then fs(upload_dir d ?i @ ''/data'' \<mapsto> []) else fs)) (\<lambda>_. sret ?i)) s'" if "cs_safe d f0 s'" for s'
      using that by (auto intro!: keeps_at_sbind keeps_set_files simp: inside_paths)
    then show ?thesis
      using s1 s2 True inv(1)
      by (simp add: reserve_upload_def inc64_def create_dirs_def cong: if_cong del: sbind_state)
  qed (use s in \<open>simp add: reserve_upload_def inc64_def\<close>)
qed

lemma keeps_reserve: "keeps (cs_safe d f0) (handleCacheReserve w body)"
  unfolding handleCacheReserve_def with_request_def
  by (auto split: sum.split intro!: keeps_sbind keeps_reserve_upload)

lemma keeps_note_received: "keeps (cs_safe d f0) (note_received i a b n)"
  unfolding keeps_iff
proof (intro allI impI)
  fix s assume s: "cs_safe d f0 s"
  have "cs_safe d f0 (s\<lparr>cs_uploads := omap_set i (u\<lparr>up_received := e\<rparr>) (cs_uploads s)\<rparr>)" if "omap_get (cs_uploads s) i = Some u" for u e
    by (rule cs_safe_update [OF s]) (rule uploads_ok_set [OF cs_safeD(4) [OF s]], use uploads_ok_get [OF cs_safeD(4) [OF s] that] in simp_all)
  then show "keeps_at (cs_safe d f0) (note_received i a b n) s"
    using s by (auto simp: note_received_def split: option.split eres.split)
qed

lemma keeps_patch: "keeps (cs_safe d f0) (handleCachePatch w i rng data)"
  unfolding keeps_iff
proof (intro allI impI)
  fix s assume s: "cs_safe d f0 s"
  show "keeps_at (cs_safe d f0) (handleCachePatch w i rng data) s"
  proof (cases "omap_get (cs_uploads s) i")
    case (Some u)
    have "inside d (up_path u)" using uploads_ok_get(3) [OF cs_safeD(4) [OF s] Some] inside_paths(8) by simp
    then have f: "keeps (cs_safe d f0) (set_files (\<lambda>fs. fs(up_path u \<mapsto> c)))" for c by (auto intro: keeps_set_files)
    have "keeps (cs_safe d f0) (sbind (note_received i a b n) (\<lambda>_. sret x))" for a b n and x :: http_reply
      by (simp add: keeps_sbind keeps_note_received)
    with s Some show ?thesis
      by (auto simp: handleCachePatch_def Let_def case_prod_beta keeps_iff intro!: keeps_at_sbind [OF f])
  qed (use s in \<open>simp add: handleCachePatch_def case_prod_beta\<close>)
qed

lemma keeps_move_blob: "inside d a \<Longrightarrow> inside d b \<Longrightarrow> keeps (cs_safe d f0) (move_blob w a b)"
proof -
  assume "inside d a" "inside d b"
  then have f: "keeps (cs_safe d f0) (set_files (\<lambda>fs. fs(a := None, b \<mapsto> c)))" "keeps (cs_safe d f0) (set_files (\<lambda>fs. fs(b := c')))"
    "keeps (cs_safe d f0) (set_files (\<lambda>fs. fs(a := c')))" for c c'
    by (auto intro!: keeps_set_files)
  have "keeps (cs_safe d f0) (case c of None \<Rightarrow> sret False
     | Some c \<Rightarrow>
         if cw_rename w a b then sbind (set_files (\<lambda>fs. fs(a := None, b \<mapsto> c))) (\<lambda>_. sret True)
         else
           (case cw_copy w a b of
              Some rest \<Rightarrow> sbind (set_files (\<lambda>fs. fs(b := rest))) (\<lambda>_. sret False)
            | None \<Rightarrow>
                sbind (set_files (\<lambda>fs. fs(b \<mapsto> c))) (\<lambda>_.
                if cw_remove w a then sbind (set_files (\<lambda>fs. fs(a := None))) (\<lambda>_. sret True)
                else sthrow (Runtime_error ''remove''))))" for c
    by (auto split: option.split intro!: keeps_sbind f)
  then show ?thesis unfolding move_blob_def by (intro keeps_sbind keeps_get)
qed

lemma keeps_remove_tree: "keeps (cs_safe d f0) (set_files (remove_tree w (upload_dir d i)))"
  by (rule keeps_set_files) (use inside_trans [OF inside_paths(7)] inside_paths(7) in \<open>auto simp: remove_tree_def\<close>)

text \<open>The part of a commit behind the move.\<close>

definition commit_tail :: "cache_world \<Rightarrow> cache_entry \<Rightarrow> int \<Rightarrow> http_reply cache_op" where
  "commit_tail w e i =
     sbind (smod (\<lambda>s. s\<lparr>cs_entries := omap_set (entry_index (ce_key e) (ce_version e)) e (cs_entries s),
        cs_uploads := omap_erase i (cs_uploads s)\<rparr>)) (\<lambda>_.
     sbind (saveIndexLocked w) (\<lambda>_.
     sbind (sget (\<lambda>s. upload_dir (cs_dir s) i)) (\<lambda>p.
     sbind (set_files (remove_tree w p)) (\<lambda>_.
     sret (reply 204 [])))))"

lemma keeps_commit_tail:
  assumes "\<not> unsafe_name (ce_blob_name e)"
  shows "keeps (cs_safe d f0) (commit_tail w e i)"
  unfolding keeps_iff
proof (intro allI impI)
  fix s assume s: "cs_safe d f0 s"
  have tail: "keeps_at (cs_safe d f0) (sbind (sget (\<lambda>s. upload_dir (cs_dir s) i)) (\<lambda>p. sbind (set_files (remove_tree w p)) (\<lambda>_. sret (reply 204 [])))) s'"
    if "cs_safe d f0 s'" for s'
    using that cs_safeD(1) [OF that] by (auto intro!: keeps_at_sbind keeps_remove_tree)
  have mod: "cs_safe d f0 (s\<lparr>cs_entries := omap_set (entry_index (ce_key e) (ce_version e)) e (cs_entries s),
        cs_uploads := omap_erase i (cs_uploads s)\<rparr>)"
    using cs_safe_update(2) [OF cs_safe_update(1) [OF s entries_ok_set [OF cs_safeD(2) [OF s] assms]]] cs_safeD(4) [OF s]
    by (simp add: uploads_ok_erase)
  show "keeps_at (cs_safe d f0) (commit_tail w e i) s"
    unfolding commit_tail_def keeps_at_simps(5) by (rule keeps_at_sbind [OF keeps_saves(1) mod tail])
qed

lemma handleCacheCommit_tail:
  "handleCacheCommit w now rnd i =
     sbind (sget (\<lambda>s. omap_get (cs_uploads s) i)) (\<lambda>u.
     case u of
       None \<Rightarrow> sret (reply 404 (error_body ''unknown upload id''))
     | Some u \<Rightarrow>
         sbind (sget (\<lambda>s. blob_path (cs_dir s) (randomBlobName rnd @ ''.bin''))) (\<lambda>dest.
         sbind (move_blob w (up_path u) dest) (\<lambda>moved.
         if \<not> moved then sret (reply 500 (error_body ''blob commit failed''))
         else sbind (sget (\<lambda>s. file_size (cs_files s) dest)) (\<lambda>size.
           commit_tail w \<lparr>ce_key = up_key u, ce_version = up_version u, ce_blob_name = randomBlobName rnd @ ''.bin'',
             ce_size = size, ce_created = now\<rparr> i))))"
  unfolding handleCacheCommit_def commit_tail_def Let_def cache_entry.simps ..

lemma keeps_commit: "keeps (cs_safe d f0) (handleCacheCommit w now rnd i)"
  unfolding keeps_iff
proof (intro allI impI)
  fix s assume s: "cs_safe d f0 s"
  show "keeps_at (cs_safe d f0) (handleCacheCommit w now rnd i) s"
  proof (cases "omap_get (cs_uploads s) i")
    case (Some u)
    have i: "inside d (up_path u)" "inside d (blob_path d (randomBlobName rnd @ ''.bin''))"
      using uploads_ok_get(3) [OF cs_safeD(4) [OF s] Some] inside_paths(8) inside_paths(5) [OF blob_name_safe] by simp_all
    have tail: "keeps_at (cs_safe d f0) (commit_tail w \<lparr>ce_key = k, ce_version = v, ce_blob_name = randomBlobName rnd @ ''.bin'',
        ce_size = n, ce_created = t\<rparr> i) s'" if "cs_safe d f0 s'" for k v n t s'
      using keeps_commit_tail blob_name_safe that by (simp add: keeps_iff)
    show ?thesis
      using Some s
      by (auto simp: handleCacheCommit_tail cs_safeD(1) [OF s] intro!: keeps_at_sbind keeps_move_blob [OF i] tail)
  qed (use s in \<open>simp add: handleCacheCommit_def\<close>)
qed

lemma keeps_blob_get: "keeps I (handleBlobGet n)" "keeps I (handleArtifactBlobGet n)"
  by (auto simp: keeps_def handleBlobGet_def handleArtifactBlobGet_def split: option.splits if_splits)

lemma keeps_artifact_create: "keeps (cs_safe d f0) (handleArtifactCreate w now body)"
  unfolding keeps_iff
proof (intro allI impI)
  fix s assume s: "cs_safe d f0 s"
  note inv = cs_safeD [OF s]
  have "cs_safe d f0 (s\<lparr>cs_next_artifact := cs_next_artifact s + 1, cs_artifacts := omap_set (ar_name a) a (cs_artifacts s)\<rparr>)"
    if "ar_name a \<noteq> []" "\<not> unsafe_name (ar_name a)" "ar_blob_path a = artifact_path d (ar_name a)" "ar_id a = cs_next_artifact s" for a
  proof -
    have "artifacts_ok d (cs_next_artifact s + 1) (omap_set (ar_name a) a (cs_artifacts s))"
      by (rule artifacts_ok_set [OF inv(5)]) (use that inv(5) in \<open>auto simp: artifacts_ok_def\<close>)
    then show ?thesis using s by (auto simp: cs_safe_def cs_inv_def)
  qed
  note mod = this
  have k: "keeps_at (cs_safe d f0) (sbind (saveArtifactIndexLocked w) (\<lambda>_. sbind (sget f) (\<lambda>url. reply_json w (j url)))) s'"
    if "cs_safe d f0 s'" for s' f and j :: "string \<Rightarrow> json"
    using that by (auto intro!: keeps_at_sbind keeps_saves simp: keeps_reply_json [unfolded keeps_iff, rule_format])
  show "keeps_at (cs_safe d f0) (handleArtifactCreate w now body) s"
    using s mod [of "\<lparr>ar_name = n, ar_workflow_run_id = r, ar_job_run_id = j, ar_blob_path = artifact_path d n, ar_size = 0,
      ar_finalized = False, ar_id = cs_next_artifact s, ar_created = now\<rparr>" for n r j]
    by (auto simp: handleArtifactCreate_def with_request_def inc64_def inv(1) split: sum.split intro!: k)
qed

lemma keeps_artifact_finalize: "keeps (cs_safe d f0) (handleArtifactFinalize w body)"
  unfolding keeps_iff
proof (intro allI impI)
  fix s assume s: "cs_safe d f0 s"
  have mod: "cs_safe d f0 (s\<lparr>cs_artifacts := omap_set n (a\<lparr>ar_size := sz, ar_finalized := True\<rparr>) (cs_artifacts s)\<rparr>)"
    if "omap_get (cs_artifacts s) n = Some a" for n a sz
    by (rule cs_safe_update [OF s])
      (rule artifacts_ok_set [OF cs_safeD(5) [OF s]], use artifacts_ok_get [OF cs_safeD(5) [OF s] that] in simp_all)
  have k: "keeps_at (cs_safe d f0) (sbind (saveArtifactIndexLocked w) (\<lambda>_. sbind (sget f) (\<lambda>a'.
      case a' of None \<Rightarrow> sthrow e | Some a' \<Rightarrow> reply_json w (j a')))) s'"
    if "cs_safe d f0 s'" for s' f e and j :: "artifact_entry \<Rightarrow> json"
    using that by (auto intro!: keeps_at_sbind keeps_saves simp: keeps_reply_json [unfolded keeps_iff, rule_format] split: option.split)
  show "keeps_at (cs_safe d f0) (handleArtifactFinalize w body) s"
    using s mod
    by (auto simp: handleArtifactFinalize_def with_request_def Let_def split: sum.split option.split intro!: k)
qed

lemma keeps_artifact_reads:
  "keeps I (handleArtifactList w body)" "keeps I (handleArtifactGetSignedUrl w body)"
  by (auto simp: handleArtifactList_def handleArtifactGetSignedUrl_def with_request_def Let_def
      split: sum.split option.split intro!: keeps_sbind)

lemma keeps_artifact_put: "keeps (cs_safe d f0) (handleArtifactBlobPut w n data)"
  unfolding keeps_iff
proof (intro allI impI)
  fix s assume s: "cs_safe d f0 s"
  have "keeps (cs_safe d f0) (set_files (\<lambda>fs. fs(ar_blob_path a \<mapsto> data)))" if "omap_get (cs_artifacts s) n = Some a" for a
    using artifacts_ok_get(3,4) [OF cs_safeD(5) [OF s] that] inside_paths(6) by (auto intro!: keeps_set_files)
  then show "keeps_at (cs_safe d f0) (handleArtifactBlobPut w n data) s"
    using s by (auto simp: handleArtifactBlobPut_def split: option.split intro!: keeps_at_sbind)
qed

lemmas keeps_handlers = keeps_lookup keeps_reserve keeps_patch keeps_commit keeps_blob_get keeps_artifact_create
  keeps_artifact_finalize keeps_artifact_reads keeps_artifact_put

text \<open>Which handler a request reaches.\<close>

lemma route_blob:
  "hc_method conn = ''GET'' \<Longrightarrow> hc_url conn = ''/blobs/'' @ n \<Longrightarrow> route w now rnd conn body = handleBlobGet n"
  by (simp add: route_def starts_with_split)

lemma route_lookup:
  "hc_method conn = ''GET'' \<Longrightarrow> hc_url conn = ''/_apis/artifactcache/cache'' \<Longrightarrow> route w now rnd conn body =
     handleCacheLookup w (or_empty (hc_argument conn ''keys'')) (or_empty (hc_argument conn ''version''))"
  by (simp add: route_def)

lemma route_reserve:
  "hc_method conn = ''POST'' \<Longrightarrow> hc_url conn = cache_prefix \<Longrightarrow> route w now rnd conn body = handleCacheReserve w body"
  by (simp add: route_def)

lemma route_patch:
  "hc_method conn = ''PATCH'' \<Longrightarrow> hc_url conn = cache_prefix @ ''/'' @ i \<Longrightarrow> route w now rnd conn body =
     sbind (handleCachePatch w (strtoll i) (or_empty (hc_header conn ''Content-Range'')) body) (\<lambda>r. sret (untyped r))"
  by (simp add: route_def starts_with_split cache_prefix_def)

lemma route_commit:
  "hc_method conn = ''POST'' \<Longrightarrow> hc_url conn = cache_prefix @ ''/'' @ i \<Longrightarrow> route w now rnd conn body =
     sbind (handleCacheCommit w now rnd (strtoll i)) (\<lambda>r. sret (untyped r))"
  by (simp add: route_def starts_with_split cache_prefix_def)

lemma keeps_route: "keeps (cs_safe d f0) (route w now rnd conn body)"
  unfolding route_def Let_def
  by (auto split: option.split intro!: keeps_sbind keeps_handlers)

lemma keeps_access_handler: "keeps (cs_safe d f0) (cache_server_access_handler w now rnd conn chunk con)"
  unfolding cache_server_access_handler_def
  by (auto split: option.split intro!: keeps_sbind keeps_scatch keeps_route)

lemma keeps_serve_body: "keeps (cs_safe d f0) (serve_body w now rnd conn con chunks)"
  by (induction chunks arbitrary: con) (auto split: mhd_result.split intro!: keeps_sbind keeps_access_handler)

lemma keeps_serve: "keeps (cs_safe d f0) (serve w now rnd conn chunks)"
  unfolding serve_def by (auto split: mhd_result.split intro!: keeps_sbind keeps_access_handler keeps_serve_body)

lemma purge_loop_spec:
  "fst (purge_loop w dir cutoff es fs) = filter (\<lambda>(k, e). cutoff \<le> ce_created e) es
   \<and> fst (snd (purge_loop w dir cutoff es fs)) = length (filter (\<lambda>(k, e). ce_created e < cutoff) es)
   \<and> (\<forall>p. p \<notin> (\<lambda>(k, e). blob_path dir (ce_blob_name e)) ` set (filter (\<lambda>(k, e). ce_created e < cutoff) es)
        \<longrightarrow> snd (snd (purge_loop w dir cutoff es fs)) p = fs p)"
proof (induction w dir cutoff es fs rule: purge_loop.induct)
  case (2 w dir cutoff k e es fs)
  then show ?case by (simp add: case_prod_beta Let_def)
qed simp

lemma keeps_purge: "keeps (cs_safe d f0) (purgeOlderThan w now days)"
  unfolding keeps_iff
proof (intro allI impI)
  fix s assume s: "cs_safe d f0 s"
  let ?c = "now - days * 86400 * 1000"
  obtain es n fs where p: "purge_loop w d ?c (cs_entries s) (cs_files s) = (es, n, fs)" by (metis prod_cases3)
  note spec = purge_loop_spec [of w d ?c "cs_entries s" "cs_files s", unfolded p fst_conv snd_conv]
  have "entries_ok es" using spec cs_safeD(2) [OF s] by (auto simp: entries_ok_def omap_ok_filter)
  moreover have "fs q = cs_files s q" if q: "\<not> inside d q" for q
  proof -
    have "inside d (blob_path d (ce_blob_name e))" if "(k, e) \<in> set (cs_entries s)" for k e
      using that cs_safeD(2) [OF s] inside_paths(5) by (auto simp: entries_ok_def)
    with q have "q \<notin> (\<lambda>(k, e). blob_path d (ce_blob_name e)) ` set (filter (\<lambda>(k, e). ce_created e < ?c) (cs_entries s))"
      by (force simp: case_prod_beta)
    with spec show ?thesis by blast
  qed
  ultimately have s': "cs_safe d f0 (s\<lparr>cs_entries := es, cs_files := fs\<rparr>)"
    using s by (auto simp: cs_safe_def cs_inv_def)
  have "keeps (cs_safe d f0) (sbind (saveIndexLocked w) (\<lambda>_. sret n))" by (simp add: keeps_sbind keeps_saves)
  with s' have "keeps_at (cs_safe d f0) (sbind (saveIndexLocked w) (\<lambda>_. sret n)) (s\<lparr>cs_entries := es, cs_files := fs\<rparr>)"
    by (simp add: keeps_iff)
  with s s' p show "keeps_at (cs_safe d f0) (purgeOlderThan w now days) s"
    by (simp add: purgeOlderThan_def cs_safeD(1) [OF s] keeps_at_def Let_def)
qed

section \<open>Requests\<close>

lemma returns_set_files [simp]: "returns (set_files f)"
  by (simp add: set_files_def)

lemma returns_slift_result [simp]: "returns (slift_result r)"
  by (simp add: slift_result_def)

lemma returns_if: "returns m \<Longrightarrow> returns m' \<Longrightarrow> returns (if b then m else m')"
  by simp

lemma returns_reply_json [simp]: "returns (reply_json w j)"
  by (simp add: reply_json_def returns_sbind)

lemma returns_save [simp]: "returns (saveIndexLocked w)" "returns (saveArtifactIndexLocked w)"
proof -
  have "returns (save_doc w p j)" for p j
    unfolding save_doc_def Let_def by (intro returns_sbind returns_set_files returns_slift_result)
  then show "returns (saveIndexLocked w)" "returns (saveArtifactIndexLocked w)"
    by (simp_all add: returns_def saveIndexLocked_def saveArtifactIndexLocked_def)
qed

lemma returns_cache_handlers:
  "returns (handleCacheLookup w keys version)" "returns (handleCacheReserve w body)" "returns (handleCachePatch w i rng data)"
  "returns (handleCacheCommit w now rnd i)" "returns (handleBlobGet n)"
proof -
  show "returns (handleCacheLookup w keys version)"
    using returns_reply_json [of w] by (auto simp: returns_def handleCacheLookup_def Let_def split: option.split)
  have "returns (reserve_upload w key v n)" for key v n
    unfolding reserve_upload_def create_dirs_def by (intro returns_sbind returns_if) simp_all
  then show "returns (handleCacheReserve w body)"
    unfolding handleCacheReserve_def with_request_def
    by (cases "json_parse (cw_json w) body") (auto intro!: returns_sbind)
  have "returns (note_received i a b n)" for a b n
    unfolding note_received_def by (intro returns_sbind) (auto split: option.split intro!: returns_sbind)
  then show "returns (handleCachePatch w i rng data)"
    unfolding handleCachePatch_def case_prod_beta Let_def
    by (intro returns_sbind) (auto split: option.split intro!: returns_sbind)
  have "returns (move_blob w a b)" for a b
    unfolding move_blob_def by (intro returns_sbind) (auto split: option.split intro!: returns_sbind)
  then show "returns (handleCacheCommit w now rnd i)"
    unfolding handleCacheCommit_def Let_def by (intro returns_sbind) (auto split: option.split intro!: returns_sbind)
  show "returns (handleBlobGet n)" by (auto simp: returns_def handleBlobGet_def split: option.split)
qed

lemma returns_artifact_handlers:
  "returns (handleArtifactCreate w now body)" "returns (handleArtifactFinalize w body)" "returns (handleArtifactList w body)"
  "returns (handleArtifactGetSignedUrl w body)" "returns (handleArtifactBlobPut w n data)" "returns (handleArtifactBlobGet n)"
  by (auto simp: handleArtifactCreate_def handleArtifactFinalize_def handleArtifactList_def handleArtifactGetSignedUrl_def
      handleArtifactBlobPut_def with_request_def Let_def split: sum.split option.split intro!: returns_sbind)
    (auto simp: returns_def handleArtifactBlobGet_def split: option.split)

lemma returns_route: "returns (route w now rnd conn body)"
  unfolding route_def Let_def
  by (auto split: option.split intro!: returns_sbind returns_cache_handlers returns_artifact_handlers)

text \<open>The last call of a request: route, with every exception answered.\<close>

definition answer :: "cache_world \<Rightarrow> int \<Rightarrow> 64 word \<times> 64 word \<Rightarrow> http_conn \<Rightarrow> string \<Rightarrow> mhd_result cache_op" where
  "answer w now rnd conn body =
     sbind (scatch (route w now rnd conn body) (\<lambda>e. sret (reply 500 (error_body (what e))))) (\<lambda>r. sret (Respond (no_content r)))"

lemma nothrow_answer: "nothrow (answer w now rnd conn body)"
  unfolding answer_def by (intro nothrow_sbind nothrow_scatch returns_route nothrow_return)

lemma answer_responds:
  "sbind (answer w now rnd conn body) (\<lambda>r. case r of Continue con' \<Rightarrow> k con' | Respond rep \<Rightarrow> sret (Respond rep)) =
   answer w now rnd conn body"
  unfolding answer_def sbind_assoc sbind_return mhd_result.case ..

lemma access_handler_some:
  "cache_server_access_handler w now rnd conn chunk (Some body) =
     (if hc_method conn \<in> {''POST'', ''PATCH'', ''PUT''} \<and> chunk \<noteq> [] then sret (Continue (body @ chunk))
      else answer w now rnd conn body)"
  unfolding cache_server_access_handler_def answer_def option.case ..

lemma serve_eq: "serve w now rnd conn chunks = serve_body w now rnd conn [] chunks"
  unfolding serve_def cache_server_access_handler_def option.case sbind_return mhd_result.case ..

lemma serve_body_answer: "\<exists>body. serve_body w now rnd conn con chunks = answer w now rnd conn body"
proof (induction chunks arbitrary: con)
  case (Cons c chunks)
  then show ?case by (auto simp: access_handler_some answer_responds)
qed (auto simp: access_handler_some)

text \<open>The pieces of a body are put together.\<close>

lemma serve_answer:
  assumes "[] \<notin> set chunks" "hc_method conn \<in> {''POST'', ''PATCH'', ''PUT''}"
  shows "serve w now rnd conn chunks = answer w now rnd conn (concat chunks)"
proof -
  have "serve_body w now rnd conn con chunks = answer w now rnd conn (con @ concat chunks)" for con
    using assms by (induction chunks arbitrary: con) (auto simp: access_handler_some)
  then show ?thesis by (simp add: serve_eq)
qed

lemma serve_answer_get:
  "hc_method conn \<notin> {''POST'', ''PATCH'', ''PUT''} \<Longrightarrow> serve w now rnd conn [] = answer w now rnd conn []"
  by (simp add: serve_eq access_handler_some)

section \<open>Confinement\<close>

definition plain :: "http_reply \<Rightarrow> bool" where
  "plain r \<longleftrightarrow> hr_type r \<noteq> ''application/octet-stream''"

lemma plain_simps [simp]:
  "plain (reply st b)" "plain (untyped r)" "plain (twirp_invalid m)" "plain twirp_not_found"
  "\<not> plain (octets c)"
  by (simp_all add: plain_def reply_def untyped_def twirp_invalid_def twirp_not_found_def octets_def json_type_def)

lemma plain_reply_json [simp]: "yields plain (reply_json w j)"
  by (simp add: reply_json_def yields_sbind)

lemma yields_lookup: "yields plain (handleCacheLookup w keys version)"
  using plain_reply_json [of w] by (auto simp: yields_def handleCacheLookup_def Let_def split: if_splits option.splits)

lemma yields_handlers:
  "yields plain (handleCacheReserve w body)" "yields plain (handleArtifactCreate w now body)"
  "yields plain (handleArtifactFinalize w body)" "yields plain (handleArtifactList w body)"
  "yields plain (handleArtifactGetSignedUrl w body)"
  by (auto simp: handleCacheReserve_def handleArtifactCreate_def handleArtifactFinalize_def handleArtifactList_def
      handleArtifactGetSignedUrl_def with_request_def Let_def split: sum.split option.split intro!: yields_sbind)

text \<open>A reply that is not generated by a handler is the contents of a file of the directory.\<close>

definition serves_inside :: "string \<Rightarrow> cache_server \<Rightarrow> http_reply cache_op \<Rightarrow> bool" where
  "serves_inside d s m \<longleftrightarrow>
     (\<forall>r s'. m s = Some (EOk r, s') \<longrightarrow> plain r \<or> (\<exists>p. inside d p \<and> cs_files s p = Some (hr_body r)))"

lemma serves_plain: "yields plain m \<Longrightarrow> serves_inside d s m"
  by (auto simp: serves_inside_def yields_def)

lemma serves_if: "serves_inside d s m \<Longrightarrow> serves_inside d s m' \<Longrightarrow> serves_inside d s (if b then m else m')"
  by simp

lemma serves_case: "(\<And>n. serves_inside d s (m n)) \<Longrightarrow> serves_inside d s m' \<Longrightarrow> serves_inside d s (case x of Some n \<Rightarrow> m n | None \<Rightarrow> m')"
  by (cases x) simp_all

lemma serves_get:
  assumes "cs_safe d f0 s"
  shows "serves_inside d s (handleBlobGet n)" "serves_inside d s (handleArtifactBlobGet n)"
proof -
  show "serves_inside d s (handleBlobGet n)"
    using inside_paths(5) [of n d]
    by (auto simp: serves_inside_def handleBlobGet_def cs_safeD(1) [OF assms] octets_def split: if_splits option.splits)
  show "serves_inside d s (handleArtifactBlobGet n)"
    using artifacts_ok_get(3,4) [OF cs_safeD(5) [OF assms], of n] inside_paths(6) [of n d]
    by (auto simp: serves_inside_def handleArtifactBlobGet_def octets_def split: if_splits option.splits)
qed

lemma serves_route: "cs_safe d f0 s \<Longrightarrow> serves_inside d s (route w now rnd conn body)"
  unfolding route_def Let_def
  by (intro serves_if serves_case serves_get serves_plain yields_lookup yields_handlers yields_sbind) simp_all

text \<open>The steps of a running server: a request is answered, or the other thread purges.\<close>

datatype cache_event = Ev_request int "64 word \<times> 64 word" http_conn "string list" http_reply | Ev_purge int int

inductive cs_step :: "cache_world \<Rightarrow> cache_server \<Rightarrow> cache_event \<Rightarrow> cache_server \<Rightarrow> bool" for w where
  Step_request: "serve w now rnd conn chunks s = Some (EOk (Respond r), s')
    \<Longrightarrow> cs_step w s (Ev_request now rnd conn chunks r) s'"
| Step_purge: "purgeOlderThan w now days s = Some (r, s') \<Longrightarrow> cs_step w s (Ev_purge now days) s'"

interpretation cache: step_invariant "cs_step w" "cs_safe d f0" for w d f0
proof
  fix s e s'
  assume "cs_step w s e s'" "cs_safe d f0 s"
  then show "cs_safe d f0 s'"
    using keeps_serve keeps_purge unfolding keeps_def by cases blast+
qed

lemma serve_inside:
  assumes s: "cs_safe d f0 s" and r: "serve w now rnd conn chunks s = Some (EOk (Respond r), s')"
  shows "plain r \<or> (\<exists>p. inside d p \<and> cs_files s p = Some (hr_body r))"
proof -
  obtain body where b: "serve w now rnd conn chunks = answer w now rnd conn body"
    using serve_body_answer unfolding serve_eq by blast
  from r [unfolded b answer_def sbind_EOk] obtain q where
    q: "scatch (route w now rnd conn body) (\<lambda>e. sret (reply 500 (error_body (what e)))) s = Some (EOk q, s')" "r = no_content q"
    by auto
  have "plain q \<or> (\<exists>p. inside d p \<and> cs_files s p = Some (hr_body q))"
    using q(1) serves_route [OF s, of w now rnd conn body]
    by (auto simp: serves_inside_def scatch_def split: option.splits eres.splits)
  then show ?thesis using q(2) by (auto simp: no_content_def plain_def split: if_splits)
qed

text \<open>
  C7. The server stays in its directory: under every sequence of requests, whatever their URLs, headers
  and bodies, and of purges, no file outside the cache directory is created, changed or removed, the
  invariant of the index, the uploads and the artifacts is kept, and a reply that hands out the contents
  of a file hands out a file of that directory.
\<close>

theorem cache_confined:
  assumes "cs_inv s" "runs (cs_step w) s es s1" "serve w now rnd conn chunks s1 = Some (EOk (Respond r), s2)"
  shows "cs_inv s2 \<and> (\<forall>p. \<not> inside (cs_dir s) p \<longrightarrow> cs_files s2 p = cs_files s p)
    \<and> (plain r \<or> (\<exists>p. inside (cs_dir s) p \<and> cs_files s1 p = Some (hr_body r)))"
proof -
  have "cs_safe (cs_dir s) (cs_files s) s" using assms(1) by (simp add: cs_safe_def)
  then have s1: "cs_safe (cs_dir s) (cs_files s) s1" by (rule cache.inv_runs [OF assms(2)])
  then have "cs_safe (cs_dir s) (cs_files s) s2" using keeps_serve assms(3) unfolding keeps_def by blast
  with serve_inside [OF s1 assms(3)] show ?thesis by (auto simp: cs_safe_def)
qed

text \<open>A world in which everything works; documents are written as their names.\<close>

definition demo_json :: json_api where
  "demo_json = \<lparr>json_parse = (\<lambda>t. if t = ''bad'' then Inl (Runtime_error ''parse'')
       else Inr (json_obj [(''key'', J_string t), (''name'', J_string t), (''version'', J_string ''v1'')])),
     json_read = (\<lambda>t. Inr J_null), json_dump = (\<lambda>_ _. Inr ''doc''), json_float_int = (\<lambda>_. 0)\<rparr>"

definition demo_cache_world :: cache_world where
  "demo_cache_world = \<lparr>cw_json = demo_json, cw_mkdirs = (\<lambda>_. True), cw_writable = (\<lambda>_. True),
     cw_write = (\<lambda>_ _ n. int n), cw_rename = (\<lambda>_ _. True), cw_copy = (\<lambda>_ _. None), cw_remove = (\<lambda>_. True),
     cw_survives = (\<lambda>_ _. False), cw_daemon = (\<lambda>p. Some 8088)\<rparr>"

definition demo_server :: cache_server where
  "demo_server = (empty_server ''/c'' ''127.0.0.1'' 0 [''/etc/passwd'' \<mapsto> ''root'', ''/c/blobs/b'' \<mapsto> ''blob''])\<lparr>cs_port := 8088\<rparr>"

definition client_request :: "string \<Rightarrow> string \<Rightarrow> http_conn" where
  "client_request m url = \<lparr>hc_method = m, hc_url = url, hc_argument = (\<lambda>_. None), hc_header = (\<lambda>_. None)\<rparr>"

lemma demo_server_inv: "cs_inv demo_server"
  by (simp add: cs_inv_def demo_server_def empty_server_def entries_ok_def uploads_ok_def artifacts_ok_def)

theorem cache_confined_witness:
  "\<exists>p. inside ''/c'' p \<and> cs_files demo_server p = Some ''blob''"
proof -
  have "serve demo_cache_world 0 (0, 0) (client_request ''GET'' ''/blobs/b'') [] demo_server =
      Some (EOk (Respond (octets ''blob'')), demo_server)"
    using serve_answer_get [of "client_request ''GET'' ''/blobs/b''"] route_blob [of "client_request ''GET'' ''/blobs/b''" "''b''"]
    by (simp add: client_request_def answer_def scatch_def sbind_def handleBlobGet_def unsafe_name_def starts_with_def blob_path_def demo_server_def
        empty_server_def no_content_def octets_def)
  from cache_confined [OF demo_server_inv Runs_nil this] show ?thesis
    by (simp add: octets_def demo_server_def empty_server_def plain_def)
qed

text \<open>
  No exception leaves the callback that libmicrohttpd, a C library, calls: every request is answered
  exactly once, whatever the handlers throw, unless an integer of the request overflows.
\<close>

theorem serve_responds:
  "(\<exists>r s'. serve w now rnd conn chunks s = Some (EOk (Respond r), s'))
   \<or> (\<exists>u s'. serve w now rnd conn chunks s = Some (EUndef u, s'))"
proof -
  obtain body where b: "serve w now rnd conn chunks = answer w now rnd conn body"
    using serve_body_answer unfolding serve_eq by blast
  obtain q s' where q: "answer w now rnd conn body s = Some (q, s')" "\<forall>e. q \<noteq> EThrow e"
    using nothrow_answer unfolding nothrow_def by blast
  show ?thesis
  proof (cases q)
    case (EOk x)
    with q(1) have "\<exists>r. x = Respond r" unfolding answer_def sbind_EOk EOk by auto
    with q(1) show ?thesis unfolding b EOk by auto
  qed (use q b in auto)
qed

section \<open>Lookups\<close>

lemma parseKeys_single: "k \<noteq> [] \<Longrightarrow> CHR '','' \<notin> set k \<Longrightarrow> parseKeys k = [k]"
  using str_find_single_None [of "CHR '',''" k] by (subst parseKeys.simps) simp

lemma parseKeys_Cons:
  "CHR '','' \<notin> set k \<Longrightarrow> parseKeys (k @ CHR '','' # csv) = k # parseKeys csv"
  by (subst parseKeys.simps) (simp add: str_find_single_append)

text \<open>The newest entry of a set, or nothing for the empty set.\<close>

fun newest :: "cache_entry set \<Rightarrow> cache_entry option \<Rightarrow> bool" where
  "newest M None \<longleftrightarrow> M = {}"
| "newest M (Some e) \<longleftrightarrow> e \<in> M \<and> (\<forall>e' \<in> M. ce_created e' \<le> ce_created e)"

definition restorable :: "(string \<times> cache_entry) list \<Rightarrow> string \<Rightarrow> string set \<Rightarrow> cache_entry set" where
  "restorable es version ps =
     {e \<in> snd ` set es. ce_version e = version \<and> (\<exists>p \<in> ps. prefix p (ce_key e))}"

lemma newest_better:
  assumes "newest M best"
  shows "newest (M \<union> restorable [ie] version {p}) (better version p ie best)"
proof (cases "ce_version (snd ie) = version \<and> prefix p (ce_key (snd ie))")
  case True
  then have m: "restorable [ie] version {p} = {snd ie}" by (auto simp: restorable_def)
  show ?thesis
  proof (cases best)
    case (Some b)
    with assms True m show ?thesis by (auto simp: better_def starts_with_prefix intro: order.trans order.strict_implies_order)
  qed (use assms True m in \<open>auto simp: better_def starts_with_prefix\<close>)
next
  case False
  then have "restorable [ie] version {p} = {}" by (auto simp: restorable_def)
  with False assms show ?thesis by (auto simp: better_def starts_with_prefix)
qed

lemma newest_fold:
  "newest M best \<Longrightarrow> newest (M \<union> restorable es version {p}) (fold (better version p) es best)"
proof (induction es arbitrary: M best)
  case (Cons ie es)
  have "M \<union> restorable (ie # es) version {p} = (M \<union> restorable [ie] version {p}) \<union> restorable es version {p}"
    by (auto simp: restorable_def)
  then show ?case using Cons.IH [OF newest_better [OF Cons.prems]] by simp
qed (simp add: restorable_def)

lemma prefix_pass_newest: "newest (restorable es version (set ps)) (prefix_pass es version ps)"
proof -
  have "newest M best \<Longrightarrow> newest (M \<union> restorable es version (set ps)) (fold (\<lambda>p. fold (better version p) es) ps best)" for M best
  proof (induction ps arbitrary: M best)
    case (Cons p ps)
    have "M \<union> restorable es version (set (p # ps)) = (M \<union> restorable es version {p}) \<union> restorable es version (set ps)"
      by (auto simp: restorable_def)
    then show ?case using Cons.IH [OF newest_fold [OF Cons.prems]] by simp
  qed (simp add: restorable_def)
  from this [of "{}" None] show ?thesis by (simp add: prefix_pass_def)
qed

lemma exact_pass_Some:
  "exact_pass es version ks = Some e \<Longrightarrow>
   \<exists>i < length ks. omap_get es (entry_index (ks ! i) version) = Some e \<and> (\<forall>j < i. omap_get es (entry_index (ks ! j) version) = None)"
proof (induction ks)
  case (Cons k ks)
  show ?case
  proof (cases "omap_get es (entry_index k version)")
    case None
    with Cons obtain i where "i < length ks" "omap_get es (entry_index (ks ! i) version) = Some e"
      "\<forall>j < i. omap_get es (entry_index (ks ! j) version) = None" by auto
    with None show ?thesis by (intro exI [of _ "Suc i"]) (auto simp: less_Suc_eq_0_disj)
  qed (use Cons.prems in auto)
qed simp

lemma exact_pass_None:
  "exact_pass es version ks = None \<longleftrightarrow> (\<forall>k \<in> set ks. omap_get es (entry_index k version) = None)"
  by (induction ks) (auto split: option.split)

text \<open>
  C12. A lookup answers with the entry of the first requested key that is stored under exactly that key
  and version; if there is none, with the newest entry of the version whose key starts with one of the
  restore keys (those behind the first); and with 204 exactly if there is neither.
\<close>

theorem cache_lookup:
  assumes "parseKeys keys_csv = k # ks"
  shows "(\<exists>e. handleCacheLookup w keys_csv version s = reply_json w (hit_doc (baseUrl s) e) s
        \<and> ((\<exists>i < length (k # ks). omap_get (cs_entries s) (entry_index ((k # ks) ! i) version) = Some e
              \<and> (\<forall>j < i. omap_get (cs_entries s) (entry_index ((k # ks) ! j) version) = None))
          \<or> (\<forall>k' \<in> set (k # ks). omap_get (cs_entries s) (entry_index k' version) = None)
              \<and> newest (restorable (cs_entries s) version (set ks)) (Some e)))
    \<or> handleCacheLookup w keys_csv version s = sret (reply 204 []) s
        \<and> (\<forall>k' \<in> set (k # ks). omap_get (cs_entries s) (entry_index k' version) = None)
        \<and> restorable (cs_entries s) version (set ks) = {}"
proof (cases "exact_pass (cs_entries s) version (k # ks)")
  case None
  note exact = None and none = None [unfolded exact_pass_None]
  note new = prefix_pass_newest [of "cs_entries s" version ks]
  show ?thesis
  proof (cases "prefix_pass (cs_entries s) version ks")
    case (Some e)
    then have "handleCacheLookup w keys_csv version s = reply_json w (hit_doc (baseUrl s) e) s"
      using exact assms by (simp add: handleCacheLookup_def del: exact_pass.simps)
    with none new Some show ?thesis by metis
  next
    case None
    then have "handleCacheLookup w keys_csv version s = sret (reply 204 []) s"
      using exact assms by (simp add: handleCacheLookup_def del: exact_pass.simps)
    moreover have "restorable (cs_entries s) version (set ks) = {}" using new unfolding None newest.simps .
    ultimately show ?thesis using none by blast
  qed
next
  case (Some e)
  then have "handleCacheLookup w keys_csv version s = reply_json w (hit_doc (baseUrl s) e) s"
    using assms by (simp add: handleCacheLookup_def del: exact_pass.simps)
  with exact_pass_Some [OF Some] show ?thesis by blast
qed

theorem cache_lookup_witness:
  "parseKeys ''a,b'' = [''a'', ''b''] \<and> restorable (cs_entries demo_server) ''v1'' {''b''} = {}"
proof -
  have p: "parseKeys ''a,b'' = [''a'', ''b'']" by code_simp
  have e: "cs_entries demo_server = []" by (simp add: demo_server_def empty_server_def)
  from cache_lookup [OF p, where s = demo_server and version = "''v1''" and w = demo_cache_world] p show ?thesis
    by (auto simp: e restorable_def)
qed

end
