(* ===== verification/Cache_Roundtrip.thy ===== *)
theory Cache_Roundtrip
  imports Cache_Store
begin

text \<open>
  The cache server seen by its clients: a cache saved in pieces and restored, an artifact uploaded and
  downloaded, and the indexes found again after a restart.
\<close>

section \<open>Numbers in requests\<close>

definition content_range :: "nat \<Rightarrow> nat \<Rightarrow> string" where
  "content_range off len = ''bytes '' @ nat_to_string off @ ''-'' @ nat_to_string (off + len - 1) @ ''/*''"

lemma scan_content_range:
  assumes "0 < len" "int (off + len) < 2 ^ 63"
  shows "scan_range (content_range off len) = (int off, int (off + len - 1))"
proof -
  have d: "\<not> is_digit (CHR ''-'')" "\<not> is_digit (CHR ''/'')" by (simp_all add: is_digit_def ascii_def)
  have "scan_number (drop 5 (content_range off len)) = Some (int off, ''-'' @ nat_to_string (off + len - 1) @ ''/*'')"
    using scan_number_digits [of "''-'' @ nat_to_string (off + len - 1) @ ''/*''" off] d
    by (simp add: content_range_def scan_number_space)
  moreover have "scan_number (nat_to_string (off + len - 1) @ ''/*'') = Some (int (off + len - 1), ''/*'')"
    using d by (intro scan_number_digits) simp
  moreover have "starts_with (content_range off len) ''bytes''" by (simp add: content_range_def starts_with_split)
  ultimately show ?thesis using assms by (simp add: scan_range_def clamp64_def)
qed

section \<open>Uploads in pieces\<close>

lemma length_write_at: "length (write_at off data c) = max (length c) (off + length data)"
  by (simp add: write_at_def)

lemma nth_write_at:
  "i < length (write_at off data c) \<Longrightarrow> write_at off data c ! i =
     (if i < off then (if i < length c then c ! i else CHR 0x00)
      else if i < off + length data then data ! (i - off) else c ! i)"
  by (cases "off \<le> length c") (auto simp: write_at_def nth_append min_def)

lemma write_at_split:
  assumes "n \<le> length data"
  shows "write_at (off + n) (drop n data) (write_at off (take n data) c) = write_at off data c"
proof (rule nth_equalityI)
  show len: "length (write_at (off + n) (drop n data) (write_at off (take n data) c)) = length (write_at off data c)"
    using assms by (simp add: length_write_at max_def)
  fix i assume i: "i < length (write_at (off + n) (drop n data) (write_at off (take n data) c))"
  show "write_at (off + n) (drop n data) (write_at off (take n data) c) ! i = write_at off data c ! i"
    using i i [unfolded len] assms
    by (auto simp: nth_write_at length_write_at not_less)
qed

text \<open>The contract of a file system and a library that do what they are asked for.\<close>

definition reliable :: "cache_world \<Rightarrow> bool" where
  "reliable w \<longleftrightarrow> (\<forall>p. cw_mkdirs w p) \<and> (\<forall>p. cw_writable w p)
     \<and> (\<forall>p off n. 0 < n \<longrightarrow> 0 < cw_write w p off n \<and> cw_write w p off n \<le> int n)
     \<and> (\<forall>p q. cw_rename w p q) \<and> (\<forall>ind j. \<exists>t. json_dump (cw_json w) ind j = Inr t)"

lemma write_all_ok: "reliable w \<Longrightarrow> data \<noteq> [] \<Longrightarrow> write_all w p off data c = (True, write_at off data c)"
proof (induction "length data" arbitrary: off data c rule: less_induct)
  case less
  define n where "n = nat (cw_write w p off (length data))"
  have "0 < cw_write w p off (length data) \<and> cw_write w p off (length data) \<le> int (length data)"
    using less.prems unfolding reliable_def by (metis length_greater_0_conv)
  then have n: "cw_write w p off (length data) = int n" "0 < n" "n \<le> length data"
    by (auto simp: n_def)
  have step: "write_all w p off data c = write_all w p (off + n) (drop n data) (write_at off (take n data) c)"
    using less.prems n by (subst write_all.simps) simp
  show ?case
  proof (cases "n = length data")
    case True
    then show ?thesis unfolding step by (subst write_all.simps) simp
  next
    case False
    then have "write_all w p (off + n) (drop n data) (write_at off (take n data) c)
        = (True, write_at (off + n) (drop n data) (write_at off (take n data) c))"
      using n less.prems(1) by (intro less.hyps) auto
    then show ?thesis unfolding step using write_at_split [OF n(3)] by simp
  qed
qed

lemma save_doc_ok:
  assumes "reliable w"
  shows "\<exists>t. save_doc w p j s = Some (EOk (), s\<lparr>cs_files := (cs_files s)(p @ ''.tmp'' := None, p \<mapsto> t)\<rparr>)"
proof -
  obtain t where "json_dump (cw_json w) (Some 2) j = Inr t" using assms unfolding reliable_def by blast
  then show ?thesis
    using assms by (intro exI [of _ t])
      (simp add: reliable_def save_doc_def set_files_def slift_result_def rename_file_def Let_def)
qed

lemma reply_json_ok: "reliable w \<Longrightarrow> \<exists>t. reply_json w j s = Some (EOk (reply 200 t), s)"
proof -
  assume "reliable w"
  then obtain t where "json_dump (cw_json w) None j = Inr t" unfolding reliable_def by blast
  then show ?thesis by (auto simp: reply_json_def slift_result_def)
qed

lemma demo_reliable: "reliable demo_cache_world"
  by (simp add: reliable_def demo_cache_world_def demo_json_def)

text \<open>
  An upload in progress for the contents \<open>D\<close>, of which the positions \<open>S\<close> have arrived; everything the
  upload does not concern is as in \<open>s0\<close>.
\<close>

definition uploading :: "cache_server \<Rightarrow> int \<Rightarrow> string \<Rightarrow> string \<Rightarrow> string \<Rightarrow> nat set \<Rightarrow> cache_server \<Rightarrow> bool" where
  "uploading s0 i key version D S s \<longleftrightarrow>
     cs_dir s = cs_dir s0 \<and> cs_host s = cs_host s0 \<and> cs_port s = cs_port s0 \<and> cs_entries s = cs_entries s0
     \<and> (\<exists>u c. omap_get (cs_uploads s) i = Some u \<and> up_key u = key \<and> up_version u = version
          \<and> up_path u = upload_dir (cs_dir s0) i @ ''/data'' \<and> cs_files s (up_path u) = Some c
          \<and> length c \<le> length D \<and> (\<forall>j \<in> S. j < length c \<and> c ! j = D ! j))"

lemma reserve_uploading:
  assumes w: "reliable w" and req: "json_parse (cw_json w) body = Inr (json_obj [(''key'', J_string key), (''version'', J_string version)])"
    and new: "key \<noteq> []" "version \<noteq> []" "omap_get (cs_entries s) (entry_index key version) = None" "cs_next_upload s < 2 ^ 63 - 1"
  shows "\<exists>t s'. handleCacheReserve w body s = Some (EOk (reply 200 t), s') \<and> uploading s (cs_next_upload s) key version D {} s'"
proof -
  let ?i = "cs_next_upload s"
  let ?p = "upload_dir (cs_dir s) ?i @ ''/data''"
  let ?u = "\<lparr>up_key = key, up_version = version, up_declared_size = 0, up_path = ?p, up_received = 0\<rparr>"
  let ?s = "s\<lparr>cs_next_upload := ?i + 1, cs_uploads := omap_set ?i ?u (cs_uploads s), cs_files := (cs_files s)(?p \<mapsto> [])\<rparr>"
  have "reserve_upload w key version 0 s = Some (EOk ?i, ?s)"
    using w new(4) by (simp add: reserve_upload_def inc64_def create_dirs_def reliable_def set_files_def)
  moreover obtain t where "reply_json w (json_obj [(''cacheId'', J_int ?i)]) ?s = Some (EOk (reply 200 t), ?s)"
    using reply_json_ok [OF w] by blast
  ultimately have "handleCacheReserve w body s = Some (EOk (reply 200 t), ?s)"
    using req new(1,2,3)
    by (simp add: handleCacheReserve_def with_request_def slift_result_def omap_has_def sbind_def [of "reserve_upload _ _ _ _"])
  moreover have "uploading s ?i key version D {} ?s" by (simp add: uploading_def)
  ultimately show ?thesis by blast
qed

lemma patch_uploading:
  assumes w: "reliable w" and up: "uploading s0 i key version D S s"
    and piece: "0 < len" "off + len \<le> length D" "int (length D) < 2 ^ 63"
  shows "\<exists>s'. handleCachePatch w i (content_range off len) (take len (drop off D)) s = Some (EOk (reply 204 []), s')
    \<and> uploading s0 i key version D (S \<union> {off..<off + len}) s'"
proof -
  obtain u c where u: "omap_get (cs_uploads s) i = Some u" "up_key u = key" "up_version u = version"
      "up_path u = upload_dir (cs_dir s0) i @ ''/data''" "cs_files s (up_path u) = Some c"
    and c: "length c \<le> length D" "\<forall>j \<in> S. j < length c \<and> c ! j = D ! j"
    and rest: "cs_dir s = cs_dir s0" "cs_host s = cs_host s0" "cs_port s = cs_port s0" "cs_entries s = cs_entries s0"
    using up unfolding uploading_def by blast
  let ?d = "take len (drop off D)"
  let ?c = "write_at off ?d c"
  have rng: "scan_range (content_range off len) = (int off, int (off + len - 1))"
    using piece by (intro scan_content_range) auto
  have d: "length ?d = len" "?d \<noteq> []" using piece by auto
  have written: "write_all w (up_path u) off ?d c = (True, ?c)" by (rule write_all_ok [OF w d(2)])
  have len: "length ?c \<le> length D" using piece(2) c(1) d(1) by (simp add: length_write_at)
  have nth: "j < length ?c \<and> ?c ! j = D ! j" if "j \<in> S \<union> {off..<off + len}" for j
    using that c(2) piece d(1) by (auto simp: nth_write_at length_write_at)
  let ?s1 = "s\<lparr>cs_files := (cs_files s)(up_path u \<mapsto> ?c)\<rparr>"
  have received: "\<exists>v. note_received i (int off) (int (off + len - 1)) len ?s1 =
      Some (EOk (), ?s1\<lparr>cs_uploads := v\<rparr>) \<and> (\<exists>n. omap_get v i = Some (u\<lparr>up_received := n\<rparr>))"
  proof (cases "up_received u < int (off + len)")
    case True
    then show ?thesis using u(1) piece
      by (intro exI [of _ "omap_set i (u\<lparr>up_received := int (off + len)\<rparr>) (cs_uploads s)"])
        (auto simp: note_received_def written_end_def inc64_def of_nat_diff)
  next
    case False
    then show ?thesis using u(1) piece
      by (intro exI [of _ "cs_uploads s"]) (auto simp: note_received_def written_end_def inc64_def of_nat_diff intro!: exI [of _ "up_received u"])
  qed
  then obtain v n where v: "note_received i (int off) (int (off + len - 1)) len ?s1 = Some (EOk (), ?s1\<lparr>cs_uploads := v\<rparr>)"
    "omap_get v i = Some (u\<lparr>up_received := n\<rparr>)" by blast
  have "handleCachePatch w i (content_range off len) ?d s = Some (EOk (reply 204 []), ?s1\<lparr>cs_uploads := v\<rparr>)"
    using w u written v(1) d(1) by (simp add: handleCachePatch_def Let_def rng reliable_def set_files_def sbind_def [of "note_received _ _ _ _"])
  moreover have "uploading s0 i key version D (S \<union> {off..<off + len}) (?s1\<lparr>cs_uploads := v\<rparr>)"
    unfolding uploading_def using u rest v(2) len nth by auto
  ultimately show ?thesis by blast
qed

lemma blob_path_apart:
  "blob_path d b \<noteq> index_path d" "blob_path d b \<noteq> index_path d @ ''.tmp''"
  "blob_path d b \<noteq> upload_dir d i" "\<not> inside (upload_dir d i) (blob_path d b)"
  by (simp_all add: blob_path_def index_path_def upload_dir_def inside_def starts_with_split)

lemma commit_uploading:
  fixes rnd :: "64 word \<times> 64 word"
  assumes w: "reliable w" and up: "uploading s0 i key version D {..<length D} s"
  defines "b \<equiv> randomBlobName rnd @ ''.bin''"
  shows "\<exists>s'. handleCacheCommit w now rnd i s = Some (EOk (reply 204 []), s')
    \<and> cs_dir s' = cs_dir s0 \<and> cs_host s' = cs_host s0 \<and> cs_port s' = cs_port s0
    \<and> cs_entries s' = omap_set (entry_index key version)
        \<lparr>ce_key = key, ce_version = version, ce_blob_name = b, ce_size = int (length D), ce_created = now\<rparr> (cs_entries s0)
    \<and> cs_files s' (blob_path (cs_dir s0) b) = Some D"
proof -
  obtain u c where u: "omap_get (cs_uploads s) i = Some u" "up_key u = key" "up_version u = version"
      "cs_files s (up_path u) = Some c"
    and c: "length c \<le> length D" "\<forall>j < length D. j < length c \<and> c ! j = D ! j"
    and rest: "cs_dir s = cs_dir s0" "cs_host s = cs_host s0" "cs_port s = cs_port s0" "cs_entries s = cs_entries s0"
    using up unfolding uploading_def by auto
  have "length c = length D"
  proof (rule ccontr)
    assume "length c \<noteq> length D"
    with c(1) have "length c < length D" by simp
    with c(2) show False by blast
  qed
  with c(2) have D: "c = D" by (intro nth_equalityI) auto
  let ?dest = "blob_path (cs_dir s0) b"
  let ?e = "\<lparr>ce_key = key, ce_version = version, ce_blob_name = b, ce_size = int (length D), ce_created = now\<rparr>"
  let ?s1 = "s\<lparr>cs_files := (cs_files s)(up_path u := None, ?dest \<mapsto> D)\<rparr>"
  let ?s2 = "?s1\<lparr>cs_entries := omap_set (entry_index key version) ?e (cs_entries s0), cs_uploads := omap_erase i (cs_uploads s)\<rparr>"
  have move: "move_blob w (up_path u) ?dest s = Some (EOk True, ?s1)"
    using w u(4) by (simp add: move_blob_def reliable_def set_files_def D)
  obtain t where save: "saveIndexLocked w ?s2 = Some (EOk (), ?s2\<lparr>cs_files := (cs_files ?s2)(index_path (cs_dir s0) @ ''.tmp'' := None, index_path (cs_dir s0) \<mapsto> t)\<rparr>)"
    using save_doc_ok [OF w, of "index_path (cs_dir s0)" "index_doc (cs_entries ?s2)" ?s2] rest(1) by (auto simp: saveIndexLocked_def)
  let ?s3 = "?s2\<lparr>cs_files := (cs_files ?s2)(index_path (cs_dir s0) @ ''.tmp'' := None, index_path (cs_dir s0) \<mapsto> t)\<rparr>"
  let ?s4 = "?s3\<lparr>cs_files := remove_tree w (upload_dir (cs_dir s0) i) (cs_files ?s3)\<rparr>"
  have "commit_tail w ?e i ?s1 = Some (EOk (reply 204 []), ?s4)"
    using save rest by (simp add: commit_tail_def sbind_def [of "saveIndexLocked w"] set_files_def)
  then have "handleCacheCommit w now rnd i s = Some (EOk (reply 204 []), ?s4)"
    using u move rest(1)
    by (simp add: handleCacheCommit_tail sbind_def [of "move_blob _ _ _"] file_size_def b_def [symmetric])
  moreover have "cs_files ?s4 ?dest = Some D"
    using blob_path_apart [where b = b] by (simp add: remove_tree_def)
  ultimately show ?thesis using rest by (intro exI [of _ ?s4]) simp
qed

section \<open>A saved cache is restored\<close>

text \<open>Requests of a client, each with the pieces in which its body arrives.\<close>

type_synonym request = "http_conn \<times> string list"

fun serve_all :: "cache_world \<Rightarrow> int \<Rightarrow> 64 word \<times> 64 word \<Rightarrow> request list \<Rightarrow> cache_server \<Rightarrow> (http_reply list \<times> cache_server) option" where
  "serve_all w now rnd [] s = Some ([], s)"
| "serve_all w now rnd ((conn, chunks) # rqs) s =
     (case serve w now rnd conn chunks s of
        Some (EOk (Respond r), s') \<Rightarrow> map_option (\<lambda>(rs, s''). (r # rs, s'')) (serve_all w now rnd rqs s')
      | _ \<Rightarrow> None)"

definition reserve_request :: "(string \<Rightarrow> string list) \<Rightarrow> string \<Rightarrow> request" where
  "reserve_request net body = (client_request ''POST'' cache_prefix, net body)"

definition patch_request :: "(string \<Rightarrow> string list) \<Rightarrow> nat \<Rightarrow> string \<Rightarrow> nat \<times> nat \<Rightarrow> request" where
  "patch_request net i D = (\<lambda>(off, len).
     ((client_request ''PATCH'' (cache_prefix @ ''/'' @ nat_to_string i))
        \<lparr>hc_header := [''Content-Range'' \<mapsto> content_range off len]\<rparr>, net (take len (drop off D))))"

definition commit_request :: "(string \<Rightarrow> string list) \<Rightarrow> nat \<Rightarrow> string \<Rightarrow> request" where
  "commit_request net i body = (client_request ''POST'' (cache_prefix @ ''/'' @ nat_to_string i), net body)"

definition lookup_request :: "string \<Rightarrow> string \<Rightarrow> http_conn" where
  "lookup_request key version =
     (client_request ''GET'' ''/_apis/artifactcache/cache'')\<lparr>hc_argument := [''keys'' \<mapsto> key, ''version'' \<mapsto> version]\<rparr>"

text \<open>The network may split a body as it likes.\<close>

definition splits :: "(string \<Rightarrow> string list) \<Rightarrow> bool" where
  "splits net \<longleftrightarrow> (\<forall>body. concat (net body) = body \<and> [] \<notin> set (net body))"

lemma serve_route:
  assumes "splits net" "hc_method conn \<in> {''POST'', ''PATCH'', ''PUT''}" "route w now rnd conn body s = Some (EOk r, s')"
  shows "serve w now rnd conn (net body) s = Some (EOk (Respond (no_content r)), s')"
  using assms serve_answer [of "net body" conn w now rnd] by (simp add: splits_def answer_def sbind_def)

lemma serve_route_get:
  assumes "hc_method conn = ''GET''" "route w now rnd conn [] s = Some (EOk r, s')"
  shows "serve w now rnd conn [] s = Some (EOk (Respond (no_content r)), s')"
  using assms serve_answer_get [of conn w now rnd] by (simp add: answer_def sbind_def)

lemma serve_all_Cons:
  "serve w now rnd (fst rq) (snd rq) s = Some (EOk (Respond r), s1) \<Longrightarrow> serve_all w now rnd rqs s1 = Some (rs, s')
   \<Longrightarrow> serve_all w now rnd (rq # rqs) s = Some (r # rs, s')"
  by (cases rq) simp

lemma serve_all_append:
  "serve_all w now rnd xs s = Some (rs, s1) \<Longrightarrow> serve_all w now rnd ys s1 = Some (rs', s')
   \<Longrightarrow> serve_all w now rnd (xs @ ys) s = Some (rs @ rs', s')"
proof (induction xs arbitrary: s rs)
  case (Cons rq xs)
  then show ?case by (cases rq) (auto split: option.splits prod.splits eres.splits mhd_result.splits)
qed simp

lemma serve_patches:
  assumes w: "reliable w" and net: "splits net" and i: "int i < 2 ^ 63" and D: "int (length D) < 2 ^ 63"
    and ps: "\<forall>(off, len) \<in> set ps. 0 < len \<and> off + len \<le> length D" and up: "uploading s0 (int i) key version D S s"
  shows "\<exists>rs s'. serve_all w now rnd (map (patch_request net i D) ps) s = Some (rs, s') \<and> map hr_status rs = replicate (length ps) 204
    \<and> uploading s0 (int i) key version D (S \<union> (\<Union>(off, len) \<in> set ps. {off..<off + len})) s'"
  using ps up
proof (induction ps arbitrary: S s)
  case (Cons p ps)
  obtain off len where p: "p = (off, len)" by fastforce
  let ?d = "take len (drop off D)"
  from patch_uploading [OF w Cons.prems(2), of len off] Cons.prems(1) D p obtain s1 where
    s1: "handleCachePatch w (int i) (content_range off len) ?d s = Some (EOk (reply 204 []), s1)"
      "uploading s0 (int i) key version D (S \<union> {off..<off + len}) s1" by auto
  let ?conn = "fst (patch_request net i D p)"
  have "route w now rnd ?conn ?d s = Some (EOk (untyped (reply 204 [])), s1)"
    using s1(1) i by (simp add: route_patch [where i = "nat_to_string i"] patch_request_def p client_request_def strtoll_nat or_empty_def sbind_def)
  moreover have "hc_method ?conn \<in> {''POST'', ''PATCH'', ''PUT''}" by (simp add: patch_request_def p client_request_def)
  ultimately have "serve w now rnd ?conn (net ?d) s = Some (EOk (Respond (no_content (untyped (reply 204 [])))), s1)"
    by (intro serve_route [OF net])
  then have first: "serve w now rnd ?conn (snd (patch_request net i D p)) s = Some (EOk (Respond (no_content (untyped (reply 204 [])))), s1)"
    by (simp add: patch_request_def p)
  from Cons.IH [OF _ s1(2)] Cons.prems(1) obtain rs s' where
    rs: "serve_all w now rnd (map (patch_request net i D) ps) s1 = Some (rs, s')" "map hr_status rs = replicate (length ps) 204"
    "uploading s0 (int i) key version D ((S \<union> {off..<off + len}) \<union> (\<Union>(off, len) \<in> set ps. {off..<off + len})) s'"
    by auto
  show ?case
    using serve_all_Cons [OF first rs(1)] rs(2,3) by (auto simp: p no_content_def untyped_def reply_def Un_assoc)
qed simp

lemma lookup_hit:
  assumes w: "reliable w" and e: "omap_get (cs_entries s) (entry_index key version) = Some e" and key: "key \<noteq> []" "CHR '','' \<notin> set key"
  shows "\<exists>t. json_dump (cw_json w) None (hit_doc (baseUrl s) e) = Inr t
    \<and> serve w now rnd (lookup_request key version) [] s = Some (EOk (Respond (reply 200 t)), s)"
proof -
  obtain t where t: "json_dump (cw_json w) None (hit_doc (baseUrl s) e) = Inr t" using w unfolding reliable_def by blast
  have "handleCacheLookup w key version s = Some (EOk (reply 200 t), s)"
    using e t by (simp add: handleCacheLookup_def parseKeys_single [OF key] reply_json_def slift_result_def)
  then have "route w now rnd (lookup_request key version) [] s = Some (EOk (reply 200 t), s)"
    by (simp add: route_lookup lookup_request_def client_request_def or_empty_def)
  from serve_route_get [OF _ this] t show ?thesis
    by (simp add: lookup_request_def client_request_def no_content_def reply_def)
qed

lemma blob_served:
  assumes "cs_files s (blob_path (cs_dir s) b) = Some D" "\<not> unsafe_name b"
  shows "serve w now rnd (client_request ''GET'' (''/blobs/'' @ b)) [] s = Some (EOk (Respond (octets D)), s)"
proof -
  have "route w now rnd (client_request ''GET'' (''/blobs/'' @ b)) [] s = Some (EOk (octets D), s)"
    using assms by (simp add: route_blob [where n = b] client_request_def handleBlobGet_def)
  from serve_route_get [OF _ this] show ?thesis by (simp add: client_request_def no_content_def octets_def)
qed

text \<open>
  C8. A saved cache is restored: a client reserves an entry, sends the contents in pieces, in any order,
  with overlaps and split by the network as it likes, and commits; if the pieces cover the contents, a
  lookup of the key answers with the new entry, and the blob it names is exactly the contents.
\<close>

theorem cache_roundtrip:
  fixes rnd :: "64 word \<times> 64 word" and now :: int
  assumes w: "reliable w" and net: "splits net"
    and req: "json_parse (cw_json w) body = Inr (json_obj [(''key'', J_string key), (''version'', J_string version)])"
    and key: "key \<noteq> []" "CHR '','' \<notin> set key" "version \<noteq> []"
    and new: "omap_get (cs_entries s) (entry_index key version) = None" "0 \<le> cs_next_upload s" "cs_next_upload s < 2 ^ 63 - 1"
    and D: "int (length D) < 2 ^ 63" and ps: "\<forall>(off, len) \<in> set ps. 0 < len \<and> off + len \<le> length D"
    and cover: "{..<length D} \<subseteq> (\<Union>(off, len) \<in> set ps. {off..<off + len})"
  defines "i \<equiv> nat (cs_next_upload s)" and "b \<equiv> randomBlobName rnd @ ''.bin''"
  defines "e \<equiv> \<lparr>ce_key = key, ce_version = version, ce_blob_name = b, ce_size = int (length D), ce_created = now\<rparr>"
  shows "\<exists>rs s'. serve_all w now rnd (reserve_request net body # map (patch_request net i D) ps @ [commit_request net i cbody]) s = Some (rs, s')
    \<and> map hr_status rs = 200 # replicate (length ps) 204 @ [204]
    \<and> (\<exists>t. json_dump (cw_json w) None (hit_doc (baseUrl s) e) = Inr t
         \<and> serve w now' rnd' (lookup_request key version) [] s' = Some (EOk (Respond (reply 200 t)), s'))
    \<and> serve w now' rnd' (client_request ''GET'' (''/blobs/'' @ b)) [] s' = Some (EOk (Respond (octets D)), s')"
proof -
  have i: "cs_next_upload s = int i" "int i < 2 ^ 63" using new(2,3) by (simp_all add: i_def)
  obtain t s1 where s1: "handleCacheReserve w body s = Some (EOk (reply 200 t), s1)" "uploading s (int i) key version D {} s1"
    using reserve_uploading [OF w req key(1,3) new(1,3), of D] i(1) by auto
  have "route w now rnd (fst (reserve_request net body)) body s = Some (EOk (reply 200 t), s1)"
    using s1(1) by (simp add: reserve_request_def route_reserve client_request_def)
  then have first: "serve w now rnd (fst (reserve_request net body)) (snd (reserve_request net body)) s
      = Some (EOk (Respond (no_content (reply 200 t))), s1)"
    using serve_route [OF net] by (simp add: reserve_request_def client_request_def)
  obtain rs s2 where s2: "serve_all w now rnd (map (patch_request net i D) ps) s1 = Some (rs, s2)"
      "map hr_status rs = replicate (length ps) 204" and
    up: "uploading s (int i) key version D (\<Union>(off, len) \<in> set ps. {off..<off + len}) s2"
    using serve_patches [OF w net i(2) D ps s1(2), of now rnd] by auto
  have "uploading s (int i) key version D {..<length D} s2" using up cover unfolding uploading_def by blast
  from commit_uploading [OF w this, of now rnd] obtain s3 where
    s3: "handleCacheCommit w now rnd (int i) s2 = Some (EOk (reply 204 []), s3)" and
    url: "cs_dir s3 = cs_dir s" "baseUrl s3 = baseUrl s" and entries: "cs_entries s3 = omap_set (entry_index key version) e (cs_entries s)"
    and blob: "cs_files s3 (blob_path (cs_dir s3) b) = Some D"
    by (auto simp: e_def b_def baseUrl_def)
  have "route w now rnd (fst (commit_request net i cbody)) cbody s2 = Some (EOk (untyped (reply 204 [])), s3)"
    using s3 i(2) by (simp add: commit_request_def route_commit [where i = "nat_to_string i"] client_request_def strtoll_nat sbind_def)
  then have last: "serve w now rnd (fst (commit_request net i cbody)) (snd (commit_request net i cbody)) s2
      = Some (EOk (Respond (no_content (untyped (reply 204 [])))), s3)"
    using serve_route [OF net] by (simp add: commit_request_def client_request_def)
  have all: "serve_all w now rnd (reserve_request net body # map (patch_request net i D) ps @ [commit_request net i cbody]) s
      = Some (no_content (reply 200 t) # rs @ [no_content (untyped (reply 204 []))], s3)"
    by (intro serve_all_Cons [OF first] serve_all_append [OF s2(1)] serve_all_Cons [OF last]) simp
  have status: "map hr_status (no_content (reply 200 t) # rs @ [no_content (untyped (reply 204 []))]) = 200 # replicate (length ps) 204 @ [204]"
    using s2(2) by (simp add: no_content_def reply_def untyped_def)
  have "omap_get (cs_entries s3) (entry_index key version) = Some e" by (simp add: entries)
  note hit = lookup_hit [OF w this key(1,2), of now' rnd', unfolded url]
  have get: "serve w now' rnd' (client_request ''GET'' (''/blobs/'' @ b)) [] s3 = Some (EOk (Respond (octets D)), s3)"
    by (rule blob_served [OF blob]) (simp add: b_def blob_name_safe)
  show ?thesis by (rule exI, rule exI, rule conjI [OF all conjI [OF status conjI [OF hit get]]])
qed

definition demo_net :: "string \<Rightarrow> string list" where
  "demo_net body = map (\<lambda>c. [c]) body"

definition demo_json2 :: json_api where
  "demo_json2 = demo_json\<lparr>json_parse := (\<lambda>t. Inr (json_obj [(''key'', J_string t), (''version'', J_string ''v1'')]))\<rparr>"

text \<open>Three bytes in two overlapping pieces, the last one first.\<close>

theorem cache_roundtrip_witness:
  "\<exists>rs s'. serve_all (demo_cache_world\<lparr>cw_json := demo_json2\<rparr>) 5 (1, 2)
       (reserve_request demo_net ''k'' # map (patch_request demo_net 1 ''xyz'') [(1, 2), (0, 2)] @ [commit_request demo_net 1 []]) demo_server
       = Some (rs, s')
     \<and> map hr_status rs = [200, 204, 204, 204]
     \<and> serve (demo_cache_world\<lparr>cw_json := demo_json2\<rparr>) 6 (3, 4) (client_request ''GET'' (''/blobs/'' @ randomBlobName (1, 2) @ ''.bin'')) [] s'
         = Some (EOk (Respond (octets ''xyz'')), s')"
proof -
  have w: "reliable (demo_cache_world\<lparr>cw_json := demo_json2\<rparr>)"
    by (simp add: reliable_def demo_cache_world_def demo_json2_def demo_json_def)
  have net: "splits demo_net" by (auto simp: splits_def demo_net_def)
  have s: "cs_entries demo_server = []" "cs_next_upload demo_server = 1" by (simp_all add: demo_server_def empty_server_def)
  have "{..<length ''xyz''} \<subseteq> (\<Union>(off, len) \<in> set [(1, 2), (0, 2)]. {off..<off + len})" by auto
  from cache_roundtrip [OF w net _ _ _ _ _ _ _ _ _ this, where body = "''k''" and key = "''k''" and version = "''v1''"
      and s = demo_server and now = 5 and rnd = "(1, 2)" and cbody = "[]" and now' = 6 and rnd' = "(3, 4)"]
  show ?thesis by (auto simp: s demo_json2_def numeral_2_eq_2)
qed

section \<open>An uploaded artifact is downloaded\<close>

definition twirp_request :: "(string \<Rightarrow> string list) \<Rightarrow> string \<Rightarrow> string \<Rightarrow> request" where
  "twirp_request net op body = (client_request ''POST'' (twirp_prefix @ op), net body)"

definition artifact_blob_request :: "string \<Rightarrow> string \<Rightarrow> http_conn" where
  "artifact_blob_request m n = client_request m (''/artifacts/'' @ n @ ''/blob'')"

lemma artifact_blob_url_name: "n \<noteq> [] \<Longrightarrow> artifact_blob_url (''/artifacts/'' @ n @ ''/blob'') = Some n"
  by (cases n) (simp_all add: artifact_blob_url_def starts_with_split)

lemma route_artifact:
  "hc_method conn = ''POST'' \<Longrightarrow> hc_url conn = twirp_prefix @ ''CreateArtifact'' \<Longrightarrow> route w now rnd conn body = handleArtifactCreate w now body"
  "hc_method conn = ''POST'' \<Longrightarrow> hc_url conn = twirp_prefix @ ''FinalizeArtifact'' \<Longrightarrow> route w now rnd conn body = handleArtifactFinalize w body"
  "n \<noteq> [] \<Longrightarrow> route w now rnd (artifact_blob_request ''PUT'' n) body = sbind (handleArtifactBlobPut w n body) (\<lambda>r. sret (untyped r))"
  "n \<noteq> [] \<Longrightarrow> route w now rnd (artifact_blob_request ''GET'' n) body = handleArtifactBlobGet n"
  by (simp_all add: route_def artifact_blob_request_def client_request_def twirp_prefix_def cache_prefix_def starts_with_def
      artifact_blob_url_name [simplified])

lemma create_artifact:
  assumes w: "reliable w" and req: "json_parse (cw_json w) body = Inr (json_obj [(''name'', J_string n)])"
    and n: "n \<noteq> []" "\<not> unsafe_name n" and nxt: "cs_next_artifact s < 2 ^ 63 - 1"
  shows "\<exists>t s'. handleArtifactCreate w now body s = Some (EOk (reply 200 t), s') \<and> cs_dir s' = cs_dir s
    \<and> omap_get (cs_artifacts s') n = Some \<lparr>ar_name = n, ar_workflow_run_id = [], ar_job_run_id = [],
        ar_blob_path = artifact_path (cs_dir s) n, ar_size = 0, ar_finalized = False, ar_id = cs_next_artifact s, ar_created = now\<rparr>"
proof -
  let ?a = "\<lparr>ar_name = n, ar_workflow_run_id = [], ar_job_run_id = [],
        ar_blob_path = artifact_path (cs_dir s) n, ar_size = 0, ar_finalized = False, ar_id = cs_next_artifact s, ar_created = now\<rparr>"
  let ?s = "s\<lparr>cs_next_artifact := cs_next_artifact s + 1, cs_artifacts := omap_set n ?a (cs_artifacts s)\<rparr>"
  obtain u where u: "saveArtifactIndexLocked w ?s = Some (EOk (), ?s\<lparr>cs_files := u\<rparr>)"
    using save_doc_ok [OF w, of "artifact_index_path (cs_dir s)" "artifact_index_doc (cs_artifacts ?s)" ?s]
    by (auto simp: saveArtifactIndexLocked_def)
  obtain t where t: "reply_json w (json_obj [(''ok'', J_bool True), (''signed_upload_url'', J_string (artifact_url (?s\<lparr>cs_files := u\<rparr>) n))])
      (?s\<lparr>cs_files := u\<rparr>) = Some (EOk (reply 200 t), ?s\<lparr>cs_files := u\<rparr>)" using reply_json_ok [OF w] by blast
  have "handleArtifactCreate w now body s = Some (EOk (reply 200 t), ?s\<lparr>cs_files := u\<rparr>)"
    using req n nxt u t
    by (simp add: handleArtifactCreate_def with_request_def slift_result_def inc64_def sbind_def [of "saveArtifactIndexLocked w"])
  then show ?thesis by (intro exI conjI) (assumption | simp)+
qed

lemma put_artifact:
  assumes "reliable w" "omap_get (cs_artifacts s) n = Some a"
  shows "handleArtifactBlobPut w n D s = Some (EOk (reply 200 []), s\<lparr>cs_files := (cs_files s)(ar_blob_path a \<mapsto> D)\<rparr>)"
  using assms by (simp add: handleArtifactBlobPut_def reliable_def set_files_def)

lemma finalize_artifact:
  assumes w: "reliable w" and req: "json_parse (cw_json w) body = Inr (json_obj [(''name'', J_string n)])"
    and a: "omap_get (cs_artifacts s) n = Some a" "ar_blob_path a = artifact_path (cs_dir s) n" "cs_files s (ar_blob_path a) = Some D"
  shows "\<exists>t s'. handleArtifactFinalize w body s = Some (EOk (reply 200 t), s')
    \<and> omap_get (cs_artifacts s') n = Some (a\<lparr>ar_size := int (length D), ar_finalized := True\<rparr>)
    \<and> cs_files s' (ar_blob_path a) = Some D"
proof -
  let ?a = "a\<lparr>ar_size := int (length D), ar_finalized := True\<rparr>"
  let ?s = "s\<lparr>cs_artifacts := omap_set n ?a (cs_artifacts s)\<rparr>"
  let ?p = "artifact_index_path (cs_dir s)"
  have apart: "artifact_path (cs_dir s) n \<noteq> ?p" "artifact_path (cs_dir s) n \<noteq> ?p @ ''.tmp''"
    by (simp_all add: artifact_path_def artifact_index_path_def)
  obtain u where u: "saveArtifactIndexLocked w ?s = Some (EOk (), ?s\<lparr>cs_files := (cs_files s)(?p @ ''.tmp'' := None, ?p \<mapsto> u)\<rparr>)"
    using save_doc_ok [OF w, of ?p "artifact_index_doc (cs_artifacts ?s)" ?s] by (auto simp: saveArtifactIndexLocked_def)
  let ?s' = "?s\<lparr>cs_files := (cs_files s)(?p @ ''.tmp'' := None, ?p \<mapsto> u)\<rparr>"
  obtain t where t: "reply_json w (json_obj [(''ok'', J_bool True), (''artifact_id'', J_string (int_to_string (ar_id ?a)))]) ?s'
      = Some (EOk (reply 200 t), ?s')" using reply_json_ok [OF w] by blast
  have size: "(if 0 < file_size (cs_files s) (ar_blob_path a) then file_size (cs_files s) (ar_blob_path a) else 0) = int (length D)"
    using a(3) by (simp add: file_size_def)
  have decl: "declared_size (cw_json w) (json_obj [(''name'', J_string n)]) = Inr 0"
    by (simp add: declared_size_def json_find_obj)
  have "handleArtifactFinalize w body s = Some (EOk (reply 200 t), ?s')"
    using req a(1) u t
    by (simp add: handleArtifactFinalize_def with_request_def slift_result_def decl size Let_def sbind_def [of "saveArtifactIndexLocked w"])
  then show ?thesis using a apart by (intro exI [of _ t] exI [of _ ?s']) simp
qed

text \<open>
  C11. An artifact is created, uploaded and finalized, and from then on a download returns exactly the
  bytes of the upload; before it is finalized a download is refused.
\<close>

theorem artifact_roundtrip:
  assumes w: "reliable w" and net: "splits net" and req: "json_parse (cw_json w) body = Inr (json_obj [(''name'', J_string n)])"
    and n: "n \<noteq> []" "\<not> unsafe_name n" and nxt: "cs_next_artifact s < 2 ^ 63 - 1"
  shows "\<exists>rs s1 r s2. serve_all w now rnd [twirp_request net ''CreateArtifact'' body, (artifact_blob_request ''PUT'' n, net D)] s = Some (rs, s1)
      \<and> serve w now' rnd' (artifact_blob_request ''GET'' n) [] s1 = Some (EOk (Respond (reply 404 (error_body ''artifact not found''))), s1)
      \<and> serve_all w now rnd [twirp_request net ''FinalizeArtifact'' body] s1 = Some ([r], s2) \<and> map hr_status (rs @ [r]) = [200, 200, 200]
      \<and> serve w now' rnd' (artifact_blob_request ''GET'' n) [] s2 = Some (EOk (Respond (octets D)), s2)"
proof -
  let ?a = "\<lparr>ar_name = n, ar_workflow_run_id = [], ar_job_run_id = [], ar_blob_path = artifact_path (cs_dir s) n,
    ar_size = 0, ar_finalized = False, ar_id = cs_next_artifact s, ar_created = now\<rparr>"
  obtain t s0 where s0: "handleArtifactCreate w now body s = Some (EOk (reply 200 t), s0)" "cs_dir s0 = cs_dir s"
    "omap_get (cs_artifacts s0) n = Some ?a" using create_artifact [OF w req n nxt] by blast
  let ?s1 = "s0\<lparr>cs_files := (cs_files s0)(artifact_path (cs_dir s) n \<mapsto> D)\<rparr>"
  have put: "handleArtifactBlobPut w n D s0 = Some (EOk (reply 200 []), ?s1)" using put_artifact [OF w s0(3)] by simp
  obtain t' s2 where s2: "handleArtifactFinalize w body ?s1 = Some (EOk (reply 200 t'), s2)"
    "omap_get (cs_artifacts s2) n = Some (?a\<lparr>ar_size := int (length D), ar_finalized := True\<rparr>)"
    "cs_files s2 (artifact_path (cs_dir s) n) = Some D"
    using finalize_artifact [OF w req, of ?s1 ?a D] s0(2,3) by auto
  have body: "hc_method (fst (twirp_request net op b)) \<in> {''POST'', ''PATCH'', ''PUT''}" "snd (twirp_request net op b) = net b"
    "hc_method (artifact_blob_request ''PUT'' n) \<in> {''POST'', ''PATCH'', ''PUT''}" for op b
    by (simp_all add: twirp_request_def artifact_blob_request_def client_request_def)
  have r1: "route w now rnd (fst (twirp_request net ''CreateArtifact'' body)) body s = Some (EOk (reply 200 t), s0)"
    "route w now rnd (fst (twirp_request net ''FinalizeArtifact'' body)) body ?s1 = Some (EOk (reply 200 t'), s2)"
    "route w now rnd (artifact_blob_request ''PUT'' n) D s0 = Some (EOk (untyped (reply 200 [])), ?s1)"
    using s0(1) s2(1) put by (simp_all add: route_artifact n(1) twirp_request_def client_request_def sbind_def)
  note v1 = serve_route [OF net body(1) r1(1), folded body(2) [of "''CreateArtifact''"]]
  note v2 = serve_route [OF net body(3) r1(3)]
  note v3 = serve_route [OF net body(1) r1(2), folded body(2) [of "''FinalizeArtifact''"]]
  have get: "hc_method (artifact_blob_request ''GET'' n) = ''GET''" by (simp add: artifact_blob_request_def client_request_def)
  have g1: "serve w now' rnd' (artifact_blob_request ''GET'' n) [] ?s1 = Some (EOk (Respond (no_content (reply 404 (error_body ''artifact not found'')))), ?s1)"
    using s0(3) by (intro serve_route_get [OF get]) (simp add: route_artifact(4) [OF n(1)] handleArtifactBlobGet_def)
  have g2: "serve w now' rnd' (artifact_blob_request ''GET'' n) [] s2 = Some (EOk (Respond (no_content (octets D))), s2)"
    using s2(2,3) by (intro serve_route_get [OF get]) (simp add: route_artifact(4) [OF n(1)] handleArtifactBlobGet_def)
  have a1: "serve_all w now rnd [twirp_request net ''CreateArtifact'' body, (artifact_blob_request ''PUT'' n, net D)] s
      = Some ([no_content (reply 200 t), no_content (untyped (reply 200 []))], ?s1)"
    by (rule serve_all_Cons [OF v1], rule serve_all_Cons) (simp_all add: v2)
  have a2: "serve_all w now rnd [twirp_request net ''FinalizeArtifact'' body] ?s1 = Some ([no_content (reply 200 t')], s2)"
    by (rule serve_all_Cons [OF v3]) simp
  have nc: "no_content (octets D) = octets D" "no_content (reply 404 e) = reply 404 e" for e
    by (simp_all add: no_content_def octets_def reply_def)
  have st: "map hr_status ([no_content (reply 200 t), no_content (untyped (reply 200 []))] @ [no_content (reply 200 t')]) = [200, 200, 200]"
    by (simp add: no_content_def reply_def untyped_def)
  show ?thesis
    by (rule exI, rule exI, rule exI, rule exI) (rule conjI [OF a1 conjI [OF g1 [unfolded nc] conjI [OF a2 conjI [OF st g2 [unfolded nc]]]]])
qed

definition demo_json3 :: json_api where
  "demo_json3 = demo_json\<lparr>json_parse := (\<lambda>t. Inr (json_obj [(''name'', J_string t)]))\<rparr>"

theorem artifact_roundtrip_witness:
  "\<exists>rs s1 r s2. serve_all (demo_cache_world\<lparr>cw_json := demo_json3\<rparr>) 5 (1, 2)
       [twirp_request demo_net ''CreateArtifact'' ''n'', (artifact_blob_request ''PUT'' ''n'', demo_net ''xy'')] demo_server = Some (rs, s1)
     \<and> serve_all (demo_cache_world\<lparr>cw_json := demo_json3\<rparr>) 5 (1, 2) [twirp_request demo_net ''FinalizeArtifact'' ''n''] s1 = Some ([r], s2)
     \<and> serve (demo_cache_world\<lparr>cw_json := demo_json3\<rparr>) 6 (3, 4) (artifact_blob_request ''GET'' ''n'') [] s2 = Some (EOk (Respond (octets ''xy'')), s2)"
proof -
  have w: "reliable (demo_cache_world\<lparr>cw_json := demo_json3\<rparr>)"
    by (simp add: reliable_def demo_cache_world_def demo_json3_def demo_json_def)
  have net: "splits demo_net" by (auto simp: splits_def demo_net_def)
  have n: "''n'' \<noteq> []" "\<not> unsafe_name ''n''" by (simp_all add: unsafe_name_def starts_with_def)
  have s: "cs_next_artifact demo_server < 2 ^ 63 - 1" by (simp add: demo_server_def empty_server_def)
  have "json_parse (cw_json (demo_cache_world\<lparr>cw_json := demo_json3\<rparr>)) ''n'' = Inr (json_obj [(''name'', J_string ''n'')])"
    by (simp add: demo_json3_def)
  from artifact_roundtrip [OF w net this n s, where now = 5 and rnd = "(1, 2)" and D = "''xy''" and now' = 6 and rnd' = "(3, 4)"]
  show ?thesis by blast
qed

end
