(* ===== verification/Cache_Restart.thy ===== *)
theory Cache_Restart
  imports Cache_Roundtrip "HOL-Library.Countable"
begin

text \<open>
  The indexes of the cache server on disk: whenever no request is being processed they describe the
  maps in memory, so that a server started again on the directory knows every cache and artifact.
\<close>

section \<open>Loading what was saved\<close>

definition fits_int64 :: "int \<Rightarrow> bool" where
  "fits_int64 i \<longleftrightarrow> - (2 ^ 63) \<le> i \<and> i < 2 ^ 63"

definition entry_int64 :: "cache_entry \<Rightarrow> bool" where
  "entry_int64 e \<longleftrightarrow> fits_int64 (ce_size e) \<and> fits_int64 (ce_created e)"

definition artifact_int64 :: "artifact_entry \<Rightarrow> bool" where
  "artifact_int64 a \<longleftrightarrow> fits_int64 (ar_size a) \<and> fits_int64 (ar_created a) \<and> fits_int64 (ar_id a) \<and> ar_id a < 2 ^ 63 - 1"

lemma load_entry_doc: "entry_int64 e \<Longrightarrow> load_entry api (entry_doc e) = Inr e"
  by (cases e) (simp add: load_entry_def entry_doc_def entry_int64_def fits_int64_def)

lemma load_artifact_doc: "artifact_int64 a \<Longrightarrow> load_artifact api (artifact_doc a) = Inr a"
  by (cases a) (simp add: load_artifact_def artifact_doc_def artifact_int64_def fits_int64_def)

text \<open>Storing the pairs of an ordered map in their order builds the map.\<close>

lemma omap_set_last: "\<forall>k' \<in> fst ` set m. k' < k \<Longrightarrow> omap_set k v m = m @ [(k, v)]"
  by (induction m) auto

lemma omap_build: "omap_ok (m @ kvs) \<Longrightarrow> fold (\<lambda>(k, v). omap_set k v) kvs m = m @ kvs"
proof (induction kvs arbitrary: m)
  case (Cons kv kvs)
  then have "omap_set (fst kv) (snd kv) m = m @ [kv]"
    by (intro omap_set_last [where k = "fst kv" and v = "snd kv", simplified]) (auto simp: omap_ok_def sorted_wrt_append)
  with Cons show ?case by (simp add: case_prod_beta)
qed simp

lemma omap_ok_map: "omap_ok (map (\<lambda>(k, e). (k, f e)) m) \<longleftrightarrow> omap_ok m"
  by (simp add: omap_ok_def comp_def case_prod_beta)

lemma index_docs:
  "omap_ok es \<Longrightarrow> index_doc es = J_object (map (\<lambda>(k, e). (k, entry_doc e)) es)"
  "omap_ok as \<Longrightarrow> artifact_index_doc as = J_object (map (\<lambda>(k, a). (k, artifact_doc a)) as)"
  using omap_build [of "[]" "map (\<lambda>(k, e). (k, entry_doc e)) es"] omap_build [of "[]" "map (\<lambda>(k, a). (k, artifact_doc a)) as"]
  by (simp_all add: index_doc_def artifact_index_doc_def json_obj_def omap_ok_map)

lemma load_entries_docs:
  assumes "\<forall>(k, e) \<in> set es. entry_int64 e"
  shows "load_entries api (map (\<lambda>(k, e). (k, entry_doc e)) es) m = fold (\<lambda>(k, e). omap_set k e) es m"
  using assms by (induction es arbitrary: m) (auto simp: load_entry_doc)

lemma load_artifacts_docs:
  assumes "\<forall>(k, a) \<in> set as. artifact_int64 a"
  shows "\<exists>n \<ge> cs_next_artifact s. load_artifacts api (map (\<lambda>(k, a). (k, artifact_doc a)) as) s =
      Some (EOk (), s\<lparr>cs_artifacts := fold (\<lambda>(k, a). omap_set k a) as (cs_artifacts s), cs_next_artifact := n\<rparr>)
    \<and> (\<forall>(k, a) \<in> set as. ar_id a < n)"
  using assms
proof (induction as arbitrary: s)
  case Nil
  then show ?case by (intro exI [of _ "cs_next_artifact s"]) simp
next
  case (Cons ka as)
  obtain k a where ka: "ka = (k, a)" by fastforce
  with Cons.prems have a: "artifact_int64 a" by simp
  let ?n = "if cs_next_artifact s \<le> ar_id a then ar_id a + 1 else cs_next_artifact s"
  let ?s = "s\<lparr>cs_artifacts := omap_set k a (cs_artifacts s), cs_next_artifact := ?n\<rparr>"
  from Cons.IH [of ?s] Cons.prems ka obtain n where n: "?n \<le> n" "\<forall>(k, a) \<in> set as. ar_id a < n"
    "load_artifacts api (map (\<lambda>(k, a). (k, artifact_doc a)) as) ?s =
      Some (EOk (), ?s\<lparr>cs_artifacts := fold (\<lambda>(k, a). omap_set k a) as (cs_artifacts ?s), cs_next_artifact := n\<rparr>)" by auto
  have "load_artifacts api (map (\<lambda>(k, a). (k, artifact_doc a)) (ka # as)) s =
      load_artifacts api (map (\<lambda>(k, a). (k, artifact_doc a)) as) ?s"
    using a by (auto simp: ka load_artifact_doc inc64_def artifact_int64_def sbind_assoc)
  with n ka show ?case by (intro exI [of _ n]) (auto split: if_splits)
qed

section \<open>The indexes are always up to date\<close>

text \<open>The library reads back the documents it has written for an index.\<close>

definition faithful :: "json_api \<Rightarrow> bool" where
  "faithful api \<longleftrightarrow>
     (\<forall>es t. json_dump api (Some 2) (index_doc es) = Inr t \<longrightarrow> json_read api t = Inr (index_doc es))
     \<and> (\<forall>as t. json_dump api (Some 2) (artifact_index_doc as) = Inr t \<longrightarrow> json_read api t = Inr (artifact_index_doc as))"

definition index_saved :: "json_api \<Rightarrow> cache_server \<Rightarrow> bool" where
  "index_saved api s \<longleftrightarrow>
     (case cs_files s (index_path (cs_dir s)) of None \<Rightarrow> cs_entries s = [] | Some t \<Rightarrow> json_read api t = Inr (index_doc (cs_entries s)))"

definition artifacts_saved :: "json_api \<Rightarrow> cache_server \<Rightarrow> bool" where
  "artifacts_saved api s \<longleftrightarrow>
     (case cs_files s (artifact_index_path (cs_dir s)) of None \<Rightarrow> cs_artifacts s = []
      | Some t \<Rightarrow> json_read api t = Inr (artifact_index_doc (cs_artifacts s)))"

definition saved :: "json_api \<Rightarrow> cache_server \<Rightarrow> bool" where
  "saved api s \<longleftrightarrow> index_saved api s \<and> artifacts_saved api s"

lemmas saved_defs = saved_def index_saved_def artifacts_saved_def

lemma save_doc_text:
  assumes "reliable w"
  obtains t where "json_dump (cw_json w) (Some 2) j = Inr t"
    "save_doc w p j s = Some (EOk (), s\<lparr>cs_files := (cs_files s)(p @ ''.tmp'' := None, p \<mapsto> t)\<rparr>)"
proof -
  obtain t where "json_dump (cw_json w) (Some 2) j = Inr t" using assms unfolding reliable_def by blast
  with assms that [of t] show thesis
    by (simp add: reliable_def save_doc_def set_files_def slift_result_def rename_file_def Let_def)
qed

lemma index_paths_apart:
  "index_path d \<noteq> artifact_index_path d" "index_path d \<noteq> artifact_index_path d @ ''.tmp''"
  "artifact_index_path d \<noteq> index_path d @ ''.tmp''" "upload_dir d i @ ''/data'' \<noteq> index_path d"
  "upload_dir d i @ ''/data'' \<noteq> artifact_index_path d" "artifact_path d n \<noteq> index_path d"
  "artifact_path d n \<noteq> artifact_index_path d" "blob_path d n \<noteq> index_path d" "blob_path d n \<noteq> artifact_index_path d"
  "\<not> inside (upload_dir d i) (index_path d)" "\<not> inside (upload_dir d i) (artifact_index_path d)"
  "upload_dir d i \<noteq> index_path d" "upload_dir d i \<noteq> artifact_index_path d"
  by (simp_all add: index_path_def artifact_index_path_def upload_dir_def artifact_path_def blob_path_def inside_def starts_with_split)

lemmas index_paths_apart' = index_paths_apart index_paths_apart(1-9,12,13) [THEN not_sym]

lemma saved_after:
  assumes w: "reliable w" "faithful (cw_json w)"
  shows "artifacts_saved (cw_json w) s \<Longrightarrow>
      (\<And>s'. cs_dir s' = cs_dir s \<Longrightarrow> saved (cw_json w) s' \<Longrightarrow> keeps_at (saved (cw_json w)) (k ()) s')
      \<Longrightarrow> keeps_at (saved (cw_json w)) (sbind (saveIndexLocked w) k) s"
    and "index_saved (cw_json w) s \<Longrightarrow>
      (\<And>s'. cs_dir s' = cs_dir s \<Longrightarrow> saved (cw_json w) s' \<Longrightarrow> keeps_at (saved (cw_json w)) (k ()) s')
      \<Longrightarrow> keeps_at (saved (cw_json w)) (sbind (saveArtifactIndexLocked w) k) s"
proof -
  assume a: "artifacts_saved (cw_json w) s"
    and k: "\<And>s'. cs_dir s' = cs_dir s \<Longrightarrow> saved (cw_json w) s' \<Longrightarrow> keeps_at (saved (cw_json w)) (k ()) s'"
  let ?p = "index_path (cs_dir s)"
  obtain t where t: "json_dump (cw_json w) (Some 2) (index_doc (cs_entries s)) = Inr t"
    "save_doc w ?p (index_doc (cs_entries s)) s = Some (EOk (), s\<lparr>cs_files := (cs_files s)(?p @ ''.tmp'' := None, ?p \<mapsto> t)\<rparr>)"
    using save_doc_text [OF w(1)] .
  have "saved (cw_json w) (s\<lparr>cs_files := (cs_files s)(?p @ ''.tmp'' := None, ?p \<mapsto> t)\<rparr>)"
    using a t(1) w(2) by (simp add: saved_defs faithful_def index_paths_apart' cong: option.case_cong)
  then show "keeps_at (saved (cw_json w)) (sbind (saveIndexLocked w) k) s"
    using k [of "s\<lparr>cs_files := (cs_files s)(?p @ ''.tmp'' := None, ?p \<mapsto> t)\<rparr>"] t(2)
    by (simp add: keeps_at_def sbind_def saveIndexLocked_def)
next
  assume a: "index_saved (cw_json w) s"
    and k: "\<And>s'. cs_dir s' = cs_dir s \<Longrightarrow> saved (cw_json w) s' \<Longrightarrow> keeps_at (saved (cw_json w)) (k ()) s'"
  let ?p = "artifact_index_path (cs_dir s)"
  obtain t where t: "json_dump (cw_json w) (Some 2) (artifact_index_doc (cs_artifacts s)) = Inr t"
    "save_doc w ?p (artifact_index_doc (cs_artifacts s)) s = Some (EOk (), s\<lparr>cs_files := (cs_files s)(?p @ ''.tmp'' := None, ?p \<mapsto> t)\<rparr>)"
    using save_doc_text [OF w(1)] .
  have "saved (cw_json w) (s\<lparr>cs_files := (cs_files s)(?p @ ''.tmp'' := None, ?p \<mapsto> t)\<rparr>)"
    using a t(1) w(2) by (simp add: saved_defs faithful_def index_paths_apart' cong: option.case_cong)
  then show "keeps_at (saved (cw_json w)) (sbind (saveArtifactIndexLocked w) k) s"
    using k [of "s\<lparr>cs_files := (cs_files s)(?p @ ''.tmp'' := None, ?p \<mapsto> t)\<rparr>"] t(2)
    by (simp add: keeps_at_def sbind_def saveArtifactIndexLocked_def)
qed

text \<open>Changing files other than the indexes, and members other than the two maps.\<close>

lemma saved_cong:
  assumes "saved api s" "cs_dir s' = cs_dir s" "cs_entries s' = cs_entries s" "cs_artifacts s' = cs_artifacts s"
    "cs_files s' (index_path (cs_dir s)) = cs_files s (index_path (cs_dir s))"
    "cs_files s' (artifact_index_path (cs_dir s)) = cs_files s (artifact_index_path (cs_dir s))"
  shows "saved api s'"
  using assms by (simp add: saved_defs cong: option.case_cong)

lemma saved_reserve:
  assumes "reliable w" "saved api s"
  shows "keeps_at (saved api) (handleCacheReserve w body) s"
proof -
  have up: "saved api s1" if s1: "reserve_upload w key version n s = Some (r, s1)" for key version n r s1
    using s1 assms(1) by (intro saved_cong [OF assms(2)])
      (auto simp: reserve_upload_def inc64_def create_dirs_def reliable_def set_files_def index_paths_apart' split: if_splits)
  have "keeps_at (saved api) (sbind (reserve_upload w key version n) (\<lambda>i. reply_json w (j i))) s" for key version n j
    unfolding keeps_at_def
  proof (intro allI impI)
    fix r s' assume "sbind (reserve_upload w key version n) (\<lambda>i. reply_json w (j i)) s = Some (r, s')"
    then show "saved api s'"
    proof (cases rule: sbindE)
      case (1 x s1)
      then show ?thesis using up [OF 1(1)] keeps_reply_json [of "saved api" w "j x"] unfolding keeps_def by blast
    qed (rule up)
  qed
  then show ?thesis
    using assms(2) by (auto simp: handleCacheReserve_def with_request_def split: sum.split)
qed

lemma saved_patch:
  assumes w: "reliable w" and s: "cs_safe d f0 s" "saved api s"
  shows "keeps_at (saved api) (handleCachePatch w i rng data) s"
proof (cases "omap_get (cs_uploads s) i")
  case (Some u)
  have p: "up_path u = upload_dir d i @ ''/data''" "cs_dir s = d" using uploads_ok_get(3) [OF cs_safeD(4) [OF s(1)] Some] cs_safeD(1) [OF s(1)] by simp_all
  have f: "saved api (s\<lparr>cs_files := (cs_files s)(up_path u \<mapsto> c)\<rparr>)" for c
    using p by (intro saved_cong [OF s(2)]) (simp_all add: index_paths_apart')
  have n: "keeps (saved api) (note_received i a b m)" for a b m
    unfolding keeps_iff by (auto simp: note_received_def saved_cong split: option.split eres.split)
  have "keeps (saved api) (sbind (note_received i a b m) (\<lambda>_. sret r))" for a b m and r :: http_reply
    by (simp add: keeps_sbind n)
  with f s(2) Some show ?thesis
    by (simp add: handleCachePatch_def Let_def case_prod_beta set_files_def keeps_iff)
qed (use s in \<open>simp add: handleCachePatch_def case_prod_beta\<close>)

lemma saved_commit:
  assumes w: "reliable w" "faithful (cw_json w)" and s: "cs_safe d f0 s" "saved (cw_json w) s"
  shows "keeps_at (saved (cw_json w)) (handleCacheCommit w now rnd i) s"
proof (cases "omap_get (cs_uploads s) i")
  case (Some u)
  have p: "up_path u = upload_dir d i @ ''/data''" "cs_dir s = d" using uploads_ok_get(3) [OF cs_safeD(4) [OF s(1)] Some] cs_safeD(1) [OF s(1)] by simp_all
  let ?dest = "blob_path d (randomBlobName rnd @ ''.bin'')"
  have tree: "keeps_at (saved (cw_json w)) (sbind (sget (\<lambda>s. upload_dir (cs_dir s) i)) (\<lambda>p. sbind (set_files (remove_tree w p)) (\<lambda>_. sret (reply 204 [])))) s'"
    if "saved (cw_json w) s'" for s'
    using that by (auto simp: set_files_def remove_tree_def index_paths_apart' intro: saved_cong [OF that])
  have tail: "keeps_at (saved (cw_json w)) (commit_tail w e i) s'" if "saved (cw_json w) s'" for e s'
  proof -
    have "artifacts_saved (cw_json w) (s'\<lparr>cs_entries := es, cs_uploads := us\<rparr>)" for es us
      using that by (simp add: saved_defs cong: option.case_cong)
    from saved_after(1) [OF w this tree] show ?thesis unfolding commit_tail_def keeps_at_simps(5) .
  qed
  show ?thesis
  proof (cases "cs_files s (up_path u)")
    case None
    then show ?thesis using Some s(2) by (simp add: handleCacheCommit_tail move_blob_def sbind_assoc)
  next
    case c: (Some c)
    have "saved (cw_json w) (s\<lparr>cs_files := (cs_files s)(up_path u := None, ?dest \<mapsto> c)\<rparr>)"
      using p by (intro saved_cong [OF s(2)]) (simp_all add: index_paths_apart')
    with tail c Some p w(1) show ?thesis
      by (simp add: handleCacheCommit_tail move_blob_def reliable_def set_files_def sbind_assoc del: sbind_state)
  qed
qed (use s in \<open>simp add: handleCacheCommit_def\<close>)

lemma saved_artifact_create:
  assumes w: "reliable w" "faithful (cw_json w)" and s: "saved (cw_json w) s"
  shows "keeps_at (saved (cw_json w)) (handleArtifactCreate w now body) s"
proof -
  have k: "keeps_at (saved (cw_json w)) (sbind (sget f) (\<lambda>url. reply_json w (j url))) s'"
    if "saved (cw_json w) s'" for s' f and j :: "string \<Rightarrow> json"
    using that by (simp add: keeps_reply_json [unfolded keeps_iff, rule_format] del: sbind_state)
  have "keeps_at (saved (cw_json w)) (sbind (saveArtifactIndexLocked w) (\<lambda>_. sbind (sget f) (\<lambda>url. reply_json w (j url))))
      (s\<lparr>cs_next_artifact := n, cs_artifacts := as\<rparr>)" for f n as and j :: "string \<Rightarrow> json"
    by (rule saved_after(2) [OF w _ k]) (use s in \<open>simp_all add: saved_defs cong: option.case_cong\<close>)
  then show ?thesis
    using s by (auto simp: handleArtifactCreate_def with_request_def inc64_def split: sum.split)
qed

lemma saved_artifact_finalize:
  assumes w: "reliable w" "faithful (cw_json w)" and s: "saved (cw_json w) s"
  shows "keeps_at (saved (cw_json w)) (handleArtifactFinalize w body) s"
proof -
  have k: "keeps_at (saved (cw_json w)) (sbind (sget f) (\<lambda>a'. case a' of None \<Rightarrow> sthrow e | Some a' \<Rightarrow> reply_json w (j a'))) s'"
    if "saved (cw_json w) s'" for s' f e and j :: "artifact_entry \<Rightarrow> json"
    using that by (auto simp: keeps_reply_json [unfolded keeps_iff, rule_format] split: option.split)
  have "keeps_at (saved (cw_json w)) (sbind (saveArtifactIndexLocked w) (\<lambda>_. sbind (sget f) (\<lambda>a'. case a' of None \<Rightarrow> sthrow e | Some a' \<Rightarrow> reply_json w (j a'))))
      (s\<lparr>cs_artifacts := as\<rparr>)" for f e as and j :: "artifact_entry \<Rightarrow> json"
    by (rule saved_after(2) [OF w _ k]) (use s in \<open>simp_all add: saved_defs cong: option.case_cong\<close>)
  then show ?thesis
    using s by (auto simp: handleArtifactFinalize_def with_request_def Let_def split: sum.split option.split)
qed

lemma saved_artifact_put:
  assumes "cs_safe d f0 s" "saved api s"
  shows "keeps_at (saved api) (handleArtifactBlobPut w n data) s"
proof -
  have "saved api (s\<lparr>cs_files := (cs_files s)(ar_blob_path a \<mapsto> data)\<rparr>)" if "omap_get (cs_artifacts s) n = Some a" for a
    using artifacts_ok_get(4) [OF cs_safeD(5) [OF assms(1)] that] cs_safeD(1) [OF assms(1)]
    by (intro saved_cong [OF assms(2)]) (simp_all add: index_paths_apart')
  then show ?thesis
    using assms(2) by (auto simp: handleArtifactBlobPut_def set_files_def split: option.split)
qed

lemma keeps_at_if: "keeps_at I m s \<Longrightarrow> keeps_at I m' s \<Longrightarrow> keeps_at I (if b then m else m') s"
  by simp

lemma keeps_at_case: "(\<And>n. keeps_at I (m n) s) \<Longrightarrow> keeps_at I m' s \<Longrightarrow> keeps_at I (case x of Some n \<Rightarrow> m n | None \<Rightarrow> m') s"
  by (cases x) simp_all

lemma keeps_at_then: "keeps_at I m s \<Longrightarrow> (\<And>x. keeps I (k x)) \<Longrightarrow> keeps_at I (sbind m k) s"
  unfolding keeps_at_def keeps_def by (metis sbindE)

lemma keeps_keeps_at: "keeps I m \<Longrightarrow> I s \<Longrightarrow> keeps_at I m s"
  by (simp add: keeps_iff)

lemma saved_route:
  assumes "reliable w" "faithful (cw_json w)" "cs_safe d f0 s" "saved (cw_json w) s"
  shows "keeps_at (saved (cw_json w)) (route w now rnd conn body) s"
  unfolding route_def Let_def
  by (intro keeps_at_if keeps_at_case saved_reserve saved_commit saved_patch saved_artifact_create saved_artifact_finalize
      saved_artifact_put keeps_at_then keeps_return keeps_keeps_at [OF keeps_lookup] keeps_keeps_at [OF keeps_blob_get(1)]
      keeps_keeps_at [OF keeps_blob_get(2)] keeps_keeps_at [OF keeps_artifact_reads(1)] keeps_keeps_at [OF keeps_artifact_reads(2)] assms)
    (use assms in simp_all)

lemma saved_serve:
  assumes "reliable w" "faithful (cw_json w)" "cs_safe d f0 s" "saved (cw_json w) s"
    and r: "serve w now rnd conn chunks s = Some (r, s')"
  shows "saved (cw_json w) s'"
proof -
  obtain body where b: "serve w now rnd conn chunks = answer w now rnd conn body"
    using serve_body_answer unfolding serve_eq by blast
  have "keeps_at (saved (cw_json w)) (scatch (route w now rnd conn body) (\<lambda>e. sret (reply 500 (error_body (what e))))) s"
    using saved_route [OF assms(1-4), of now rnd conn body]
    by (auto simp: keeps_at_def scatch_def split: option.splits eres.splits)
  then have "keeps_at (saved (cw_json w)) (answer w now rnd conn body) s" unfolding answer_def by (intro keeps_at_then) simp_all
  with r b show ?thesis by (simp add: keeps_at_def)
qed

lemma saved_purge:
  assumes w: "reliable w" "faithful (cw_json w)" and s: "cs_safe d f0 s" "saved (cw_json w) s"
  shows "keeps_at (saved (cw_json w)) (purgeOlderThan w now days) s"
proof -
  let ?c = "now - days * 86400 * 1000"
  obtain es n fs where p: "purge_loop w d ?c (cs_entries s) (cs_files s) = (es, n, fs)" by (metis prod_cases3)
  note spec = purge_loop_spec [of w d ?c "cs_entries s" "cs_files s", unfolded p fst_conv snd_conv]
  have dir: "cs_dir s = d" by (rule cs_safeD(1) [OF s(1)])
  have "index_path d \<notin> (\<lambda>(k, e). blob_path d (ce_blob_name e)) ` A" "artifact_index_path d \<notin> (\<lambda>(k, e). blob_path d (ce_blob_name e)) ` A" for A
    by (auto simp: index_paths_apart')
  then have f: "fs (index_path d) = cs_files s (index_path d)" "fs (artifact_index_path d) = cs_files s (artifact_index_path d)"
    using spec by blast+
  let ?s = "s\<lparr>cs_entries := es, cs_files := fs\<rparr>"
  show ?thesis
  proof (cases "0 < n")
    case True
    have "keeps_at (saved (cw_json w)) (sbind (saveIndexLocked w) (\<lambda>_. sret n)) ?s"
      by (rule saved_after(1) [OF w]) (use s(2) f dir in \<open>simp_all add: saved_defs cong: option.case_cong\<close>)
    with True p s(2) show ?thesis by (simp add: purgeOlderThan_def dir keeps_at_def Let_def)
  next
    case False
    then have "filter (\<lambda>(k, e). ce_created e < ?c) (cs_entries s) = []" using spec by simp
    then have "es = cs_entries s" using spec by (auto simp: filter_empty_conv filter_id_conv)
    then have "saved (cw_json w) ?s" using f dir by (intro saved_cong [OF s(2)]) simp_all
    with False p s(2) show ?thesis by (simp add: purgeOlderThan_def dir keeps_at_def Let_def)
  qed
qed

interpretation disk: step_invariant "cs_step w"
  "\<lambda>s. cs_safe d f0 s \<and> (reliable w \<and> faithful (cw_json w) \<longrightarrow> saved (cw_json w) s)" for w d f0
proof
  fix s e s'
  assume st: "cs_step w s e s'" and s: "cs_safe d f0 s \<and> (reliable w \<and> faithful (cw_json w) \<longrightarrow> saved (cw_json w) s)"
  have "cs_safe d f0 s'" using cache.inv_step st s by blast
  moreover have "saved (cw_json w) s'" if w: "reliable w" "faithful (cw_json w)"
    using st
  proof cases
    case (Step_request now rnd conn chunks r)
    with saved_serve [OF w] s w show ?thesis by blast
  next
    case (Step_purge now days r)
    with saved_purge [OF w] s w show ?thesis unfolding keeps_at_def by blast
  qed
  ultimately show "cs_safe d f0 s' \<and> (reliable w \<and> faithful (cw_json w) \<longrightarrow> saved (cw_json w) s')" by blast
qed

section \<open>A restarted server\<close>

lemma load_index_saved:
  assumes "index_saved (cw_json w) s" "entries_ok (cs_entries s)" "\<forall>(k, e) \<in> set (cs_entries s). entry_int64 e"
    and s': "cs_files s' = cs_files s" "cs_dir s' = cs_dir s" "cs_entries s' = []"
  shows "loadIndex w s' = Some (EOk (), s'\<lparr>cs_entries := cs_entries s\<rparr>)"
proof -
  have ok: "omap_ok (cs_entries s)" using assms(2) by (simp add: entries_ok_def)
  have "s'\<lparr>cs_entries := []\<rparr> = s'" by (simp add: s'(3) [symmetric])
  then show ?thesis
    using assms(1) s' omap_build [of "[]" "cs_entries s"] ok
    by (auto simp: loadIndex_def index_saved_def index_docs load_entries_docs [OF assms(3)] split: option.splits)
qed

lemma load_artifacts_saved:
  assumes "artifacts_saved (cw_json w) s" "omap_ok (cs_artifacts s)" "\<forall>(k, a) \<in> set (cs_artifacts s). artifact_int64 a"
    and s': "cs_files s' = cs_files s" "cs_dir s' = cs_dir s" "cs_artifacts s' = []"
  shows "\<exists>n. loadArtifactIndex w s' = Some (EOk (), s'\<lparr>cs_artifacts := cs_artifacts s, cs_next_artifact := n\<rparr>)
    \<and> (\<forall>(k, a) \<in> set (cs_artifacts s). ar_id a < n)"
proof (cases "cs_files s (artifact_index_path (cs_dir s))")
  case None
  then have "cs_artifacts s = []" "s'\<lparr>cs_artifacts := [], cs_next_artifact := cs_next_artifact s'\<rparr> = s'"
    using assms(1) s'(3) by (simp_all add: artifacts_saved_def)
  then show ?thesis using None s' by (intro exI [of _ "cs_next_artifact s'"]) (simp add: loadArtifactIndex_def)
next
  case (Some t)
  then show ?thesis
    using assms(1) s' omap_build [of "[]" "cs_artifacts s"] assms(2) load_artifacts_docs [OF assms(3), of s' "cw_json w"]
    by (auto simp: loadArtifactIndex_def artifacts_saved_def index_docs)
qed


text \<open>Documents can be numbered, and a text can name one by its number.\<close>

instance dbl :: countable by countable_datatype

instance json :: countable by countable_datatype

definition numbering_json :: json_api where
  "numbering_json = \<lparr>json_parse = (\<lambda>t. Inr J_null), json_read = (\<lambda>t. Inr (from_nat (dec_val t))),
     json_dump = (\<lambda>_ j. Inr (nat_to_string (to_nat j))), json_float_int = (\<lambda>_. 0)\<rparr>"

definition demo_entry :: cache_entry where
  "demo_entry = \<lparr>ce_key = ''k'', ce_version = ''v'', ce_blob_name = ''b.bin'', ce_size = 4, ce_created = 1000\<rparr>"

definition stocked_server :: cache_server where
  "stocked_server = (empty_server ''/c'' ''h'' 0
      [index_path ''/c'' \<mapsto> nat_to_string (to_nat (index_doc [(''k|v'', demo_entry)]))])\<lparr>cs_entries := [(''k|v'', demo_entry)]\<rparr>"


end
