(* ===== verification/Action_Cache.thy ===== *)
theory Action_Cache
  imports Step_Runner Workflow_Parser Cxx_Numbers
begin

text \<open>
  \<^verbatim>\<open>src/src/action/ActionRunner.cpp\<close>, first part: action references, the cache of downloaded actions and
  the reader of \<^verbatim>\<open>action.yml\<close>.  A computation works on the state of a step (\<^typ>\<open>exec_state\<close>).
\<close>

section \<open>References\<close>

record action_ref =
  ref_owner :: string
  ref_repo :: string
  ref_ref :: string
  ref_subdir :: string

text \<open>\<^const>\<open>None\<close> is the result \<^verbatim>\<open>false\<close>.\<close>

definition parseActionRef :: "string \<Rightarrow> action_ref option" where
  "parseActionRef ref =
     (case str_find ''@'' ref of
        None \<Rightarrow> None
      | Some pos \<Rightarrow>
          let r = drop (pos + 1) ref; path = take pos ref in
          (case str_find ''/'' path of
             None \<Rightarrow> None
           | Some slash1 \<Rightarrow>
               let owner = take slash1 path; rest = drop (slash1 + 1) path;
                   (repo, subdir) = (case str_find ''/'' rest of None \<Rightarrow> (rest, [])
                     | Some slash2 \<Rightarrow> (take slash2 rest, drop (slash2 + 1) rest))
               in if owner \<noteq> [] \<and> repo \<noteq> [] \<and> r \<noteq> []
                  then Some \<lparr>ref_owner = owner, ref_repo = repo, ref_ref = r, ref_subdir = subdir\<rparr> else None))"

definition actionBaseName :: "string \<Rightarrow> string" where
  "actionBaseName ref = (case str_find ''@'' ref of None \<Rightarrow> ref | Some pos \<Rightarrow> take pos ref)"

text \<open>How a reference is written.\<close>

definition render_ref :: "action_ref \<Rightarrow> string" where
  "render_ref r = ref_owner r @ ''/'' @ ref_repo r @ (if ref_subdir r = [] then [] else ''/'' @ ref_subdir r) @ ''@'' @ ref_ref r"

definition ref_ok :: "action_ref \<Rightarrow> bool" where
  "ref_ok r \<longleftrightarrow> ref_owner r \<noteq> [] \<and> ref_repo r \<noteq> [] \<and> ref_ref r \<noteq> []
     \<and> CHR ''/'' \<notin> set (ref_owner r) \<and> CHR ''/'' \<notin> set (ref_repo r)
     \<and> CHR ''@'' \<notin> set (ref_owner r) \<and> CHR ''@'' \<notin> set (ref_repo r) \<and> CHR ''@'' \<notin> set (ref_subdir r)"

text \<open>
  A reference \<^verbatim>\<open>owner/repo@ref\<close> or \<^verbatim>\<open>owner/repo/subdir@ref\<close> is read back into the parts it was written
  from; the part after the first \<^verbatim>\<open>@\<close> may itself contain \<^verbatim>\<open>@\<close> and \<^verbatim>\<open>/\<close> and the subdirectory may have
  several levels.
\<close>

theorem parseActionRef_render:
  assumes "ref_ok r"
  shows "parseActionRef (render_ref r) = Some r \<and> actionBaseName (render_ref r)
    = ref_owner r @ ''/'' @ ref_repo r @ (if ref_subdir r = [] then [] else ''/'' @ ref_subdir r)"
proof -
  let ?tail = "ref_repo r @ (if ref_subdir r = [] then [] else ''/'' @ ref_subdir r)"
  let ?path = "ref_owner r @ CHR ''/'' # ?tail"
  have at: "CHR ''@'' \<notin> set ?path" using assms by (simp add: ref_ok_def)
  have whole: "render_ref r = ?path @ CHR ''@'' # ref_ref r" by (simp add: render_ref_def)
  have owner: "str_find ''/'' ?path = Some (length (ref_owner r))"
    using assms by (intro str_find_single_append) (simp add: ref_ok_def)
  have repo: "str_find ''/'' ?tail = (if ref_subdir r = [] then None else Some (length (ref_repo r)))"
    using assms by (simp add: ref_ok_def str_find_single_append str_find_single_None)
  have found: "str_find ''@'' (render_ref r) = Some (length ?path)"
    unfolding whole using at by (rule str_find_single_append)
  have path: "take (length ?path) (render_ref r) = ?path" and rest: "drop (length ?path + 1) (render_ref r) = ref_ref r"
    unfolding whole by simp_all
  have "parseActionRef (render_ref r) = Some r"
    unfolding parseActionRef_def found option.case Let_def path rest owner
    using assms repo by (cases r) (auto simp: ref_ok_def)
  moreover have "actionBaseName (render_ref r) = ?path"
    unfolding actionBaseName_def found option.case path ..
  ultimately show ?thesis by simp
qed

theorem parseActionRef_render_witness:
  "parseActionRef ''actions/toolkit/core/v2@v1/x'' = Some \<lparr>ref_owner = ''actions'', ref_repo = ''toolkit'', ref_ref = ''v1/x'', ref_subdir = ''core/v2''\<rparr>"
  using parseActionRef_render [of "\<lparr>ref_owner = ''actions'', ref_repo = ''toolkit'', ref_ref = ''v1/x'', ref_subdir = ''core/v2''\<rparr>"]
  by (simp add: ref_ok_def render_ref_def)

section \<open>The cache\<close>

text \<open>
  \<^verbatim>\<open>system\<close> runs a command: its status and the files it leaves.  \<open>aw_is_dir\<close> is the answer of
  \<^verbatim>\<open>fs::exists\<close> for a directory, \<open>aw_subdirs\<close> are the directories below a directory in the order of a
  \<^verbatim>\<open>directory_iterator\<close>; \<open>aw_survives\<close> the files a failing removal leaves.
\<close>

record action_world =
  aw_yaml :: yaml_api
  aw_system :: "string \<Rightarrow> files \<Rightarrow> int \<times> files"
  aw_is_dir :: "string \<Rightarrow> files \<Rightarrow> bool"
  aw_nonempty :: "string \<Rightarrow> files \<Rightarrow> bool"
  aw_subdirs :: "string \<Rightarrow> files \<Rightarrow> string list"
  aw_survives :: "string \<Rightarrow> string \<Rightarrow> bool"

type_synonym 'a action_op = "(exec_state, 'a) comp"

definition path_exists :: "action_world \<Rightarrow> string \<Rightarrow> bool action_op" where
  "path_exists aw p = sget (\<lambda>s. x_files s p \<noteq> None \<or> aw_is_dir aw p (x_files s))"

definition run_system :: "action_world \<Rightarrow> string \<Rightarrow> int action_op" where
  "run_system aw cmd s = (case aw_system aw cmd (x_files s) of (st, fs) \<Rightarrow> Some (EOk st, s\<lparr>x_files := fs\<rparr>))"

definition set_action_files :: "(files \<Rightarrow> files) \<Rightarrow> unit action_op" where
  "set_action_files f = smod (\<lambda>s. s\<lparr>x_files := f (x_files s)\<rparr>)"

definition remove_all :: "action_world \<Rightarrow> string \<Rightarrow> unit action_op" where
  "remove_all aw d = set_action_files (\<lambda>fs p.
     if (p = d \<or> starts_with p (d @ ''/'')) \<and> \<not> aw_survives aw d p then None else fs p)"

text \<open>\<^verbatim>\<open>path::parent_path\<close>\<close>

definition parent_path :: "string \<Rightarrow> string" where
  "parent_path p = (case str_rfind CHR ''/'' p of None \<Rightarrow> [] | Some i \<Rightarrow> take i p)"

definition action_dest :: "string \<Rightarrow> string \<Rightarrow> string \<Rightarrow> string \<Rightarrow> string" where
  "action_dest croot owner repo ref = path_join (path_join (path_join croot owner) repo) ref"

definition has_action_yml :: "action_world \<Rightarrow> string \<Rightarrow> bool action_op" where
  "has_action_yml aw d =
     sbind (path_exists aw (path_join d ''action.yml'')) (\<lambda>a.
     if a then sret True else path_exists aw (path_join d ''action.yaml''))"

text \<open>The empty path is the result of a miss.\<close>

definition cachedPath :: "action_world \<Rightarrow> string \<Rightarrow> string \<Rightarrow> string \<Rightarrow> string \<Rightarrow> string action_op" where
  "cachedPath aw croot owner repo ref =
     (let p = action_dest croot owner repo ref in
      sbind (has_action_yml aw p) (\<lambda>a. sret (if a then p else [])))"

definition new_action_cache :: "step_world \<Rightarrow> string \<Rightarrow> unit action_op" where
  "new_action_cache w croot = create_directories w croot"

definition downloadViaGit :: "step_world \<Rightarrow> action_world \<Rightarrow> string \<Rightarrow> string \<Rightarrow> bool action_op" where
  "downloadViaGit w aw url dest =
     sbind (run_system aw ''git --version >/dev/null 2>&1'') (\<lambda>st.
     if st \<noteq> 0 then sret False
     else
       sbind (create_directories w dest) (\<lambda>_.
       sbind (run_system aw (''git clone --depth 1 '' @ url @ '' '' @ dest @ '' >/dev/null 2>&1'')) (\<lambda>st. sret (st = 0))))"

text \<open>The contents of the subdirectory \<open>sub\<close> of \<open>d\<close> are moved into \<open>d\<close>.\<close>

definition move_up :: "string \<Rightarrow> string \<Rightarrow> files \<Rightarrow> files" where
  "move_up d sub fs = (\<lambda>p.
     if starts_with p (d @ ''/'' @ sub @ ''/'') then None
     else if starts_with p (d @ ''/'') \<and> fs (d @ ''/'' @ sub @ ''/'' @ drop (length d + 1) p) \<noteq> None
     then fs (d @ ''/'' @ sub @ ''/'' @ drop (length d + 1) p)
     else fs p)"

definition downloadViaZip :: "step_world \<Rightarrow> action_world \<Rightarrow> string \<Rightarrow> string \<Rightarrow> string \<Rightarrow> bool action_op" where
  "downloadViaZip w aw croot url dest =
     sbind (run_system aw ''curl --version >/dev/null 2>&1'') (\<lambda>st.
     if st \<noteq> 0 then sret False
     else
       let zip_path = path_join croot ''tmp_action.zip'' in
       sbind (run_system aw (''curl -sSL '' @ [CHR 0x27] @ url @ [CHR 0x27] @ '' -o '' @ [CHR 0x27] @ zip_path @ [CHR 0x27])) (\<lambda>st.
       if st \<noteq> 0 then sret False
       else
         sbind (create_directories w dest) (\<lambda>_.
         sbind (run_system aw (''unzip -q '' @ [CHR 0x27] @ zip_path @ [CHR 0x27] @ '' -d '' @ [CHR 0x27] @ dest @ [CHR 0x27] @ '' 2>/dev/null'')) (\<lambda>ret.
         sbind (set_action_files (\<lambda>fs. fs(zip_path := None))) (\<lambda>_.
         if ret \<noteq> 0 then sret False
         else
           sbind (sget (\<lambda>s. aw_subdirs aw dest (x_files s))) (\<lambda>subs.
           sbind (case subs of [] \<Rightarrow> sret () | sub # _ \<Rightarrow> set_action_files (move_up dest sub)) (\<lambda>_.
           sret True)))))))"

definition base_urls :: "string \<Rightarrow> string \<Rightarrow> string list" where
  "base_urls gitea_url default_actions_url =
     (let urls = (if default_actions_url \<noteq> [] then [default_actions_url] else [])
            @ (if gitea_url \<noteq> [] \<and> gitea_url \<noteq> default_actions_url then [gitea_url] else [])
      in if urls = [] then [''https://github.com''] else urls)"

definition clone_command :: "string \<Rightarrow> string \<Rightarrow> string \<Rightarrow> string" where
  "clone_command ref url dest =
     ''git clone --depth 1 --branch '' @ [CHR 0x27] @ ref @ [CHR 0x27] @ '' '' @ [CHR 0x27] @ url @ [CHR 0x27]
       @ '' '' @ [CHR 0x27] @ dest @ [CHR 0x27] @ '' 2>&1''"

text \<open>One base URL: a clone, then the two archives; what failed is removed.\<close>

definition fetch_from :: "step_world \<Rightarrow> action_world \<Rightarrow> string \<Rightarrow> action_ref \<Rightarrow> string \<Rightarrow> string \<Rightarrow> bool action_op" where
  "fetch_from w aw croot r dest base =
     (let url = base @ ''/'' @ ref_owner r @ ''/'' @ ref_repo r in
      sbind (run_system aw (clone_command (ref_ref r) url dest)) (\<lambda>st.
      if st = 0 then sret True
      else
        sbind (remove_all aw dest) (\<lambda>_.
        sbind (downloadViaZip w aw croot (url @ ''/archive/refs/tags/'' @ ref_ref r @ ''.zip'') dest) (\<lambda>ok.
        if ok then sret True
        else
          sbind (remove_all aw dest) (\<lambda>_.
          sbind (downloadViaZip w aw croot (url @ ''/archive/'' @ ref_ref r @ ''.zip'') dest) (\<lambda>ok.
          if ok then sret True
          else sbind (remove_all aw dest) (\<lambda>_. sret False)))))))"

fun fetch_loop :: "step_world \<Rightarrow> action_world \<Rightarrow> string \<Rightarrow> action_ref \<Rightarrow> string \<Rightarrow> string list \<Rightarrow> bool action_op" where
  "fetch_loop w aw croot r dest [] = sret False"
| "fetch_loop w aw croot r dest (base # bases) =
     sbind (fetch_from w aw croot r dest base) (\<lambda>ok. if ok then sret True else fetch_loop w aw croot r dest bases)"

definition fetchAction :: "step_world \<Rightarrow> action_world \<Rightarrow> string \<Rightarrow> action_ref \<Rightarrow> string \<Rightarrow> string \<Rightarrow> string action_op" where
  "fetchAction w aw croot r gitea_url default_actions_url =
     (let dest = action_dest croot (ref_owner r) (ref_repo r) (ref_ref r) in
      sbind (cachedPath aw croot (ref_owner r) (ref_repo r) (ref_ref r)) (\<lambda>cached.
      if cached \<noteq> [] then sret cached
      else
        sbind (create_directories w (parent_path dest)) (\<lambda>_.
        let urls = base_urls gitea_url default_actions_url in
        sbind (fetch_loop w aw croot r dest urls) (\<lambda>ok.
        if ok then sret dest
        else sthrow (Runtime_error (''Failed to fetch action '' @ ref_owner r @ ''/'' @ ref_repo r @ ''@'' @ ref_ref r
          @ '' '' @ [CHR 0xE2, CHR 0x80, CHR 0x94] @ '' check that the action exists on '' @ hd urls))))))"

section \<open>Action definitions\<close>

datatype action_type = Composite | JavaScript | DockerAction | Unknown_action

record action_input =
  ai_name :: string
  ai_description :: string
  ai_default :: string
  ai_required :: bool

record action_output =
  ao_name :: string
  ao_description :: string
  ao_value :: string

record action_definition =
  ad_name :: string
  ad_description :: string
  ad_author :: string
  ad_inputs :: "(string \<times> action_input) list"
  ad_outputs :: "(string \<times> action_output) list"
  ad_type :: action_type
  ad_steps :: "step list"
  ad_main_script :: string
  ad_pre_script :: string
  ad_post_script :: string
  ad_using_runtime :: string
  ad_docker_image :: string

definition new_action_definition :: action_definition where
  "new_action_definition = \<lparr>ad_name = [], ad_description = [], ad_author = [], ad_inputs = [], ad_outputs = [],
     ad_type = Unknown_action, ad_steps = [], ad_main_script = [], ad_pre_script = [], ad_post_script = [],
     ad_using_runtime = [], ad_docker_image = []\<rparr>"

definition parse_input :: "yaml_api \<Rightarrow> ynode \<times> ynode \<Rightarrow> (string \<times> action_input) list \<Rightarrow> (string \<times> action_input) list result" where
  "parse_input y kv m =
     rbind (as_string (fst kv)) (\<lambda>name.
     with_field (snd kv) ''description'' (\<lambda>d.
     with_field (snd kv) ''default'' (\<lambda>def.
     with_field (snd kv) ''required'' (\<lambda>req.
     Inr (omap_set name \<lparr>ai_name = name, ai_description = str d, ai_default = str def, ai_required = boolean y req\<rparr> m)))))"

definition parse_output :: "ynode \<times> ynode \<Rightarrow> (string \<times> action_output) list \<Rightarrow> (string \<times> action_output) list result" where
  "parse_output kv m =
     rbind (as_string (fst kv)) (\<lambda>name.
     with_field (snd kv) ''description'' (\<lambda>d.
     with_field (snd kv) ''value'' (\<lambda>v.
     Inr (omap_set name \<lparr>ao_name = name, ao_description = str d, ao_value = str v\<rparr> m))))"

definition parse_action_step :: "yaml_api \<Rightarrow> ynode \<Rightarrow> nat \<Rightarrow> step result" where
  "parse_action_step y sn idx =
     with_field sn ''id'' (\<lambda>nid.
     with_field sn ''name'' (\<lambda>name.
     with_field sn ''uses'' (\<lambda>uses_n.
     with_field sn ''run'' (\<lambda>run.
     with_field sn ''shell'' (\<lambda>shell.
     with_field sn ''working-directory'' (\<lambda>wd.
     with_field sn ''if'' (\<lambda>cond.
     with_field sn ''continue-on-error'' (\<lambda>coe.
     with_field sn ''env'' (\<lambda>env. rbind (parseStringMap env) (\<lambda>env.
     with_field sn ''with'' (\<lambda>wth. rbind (parseStringMap wth) (\<lambda>wth.
     Inr (default_step\<lparr>step_id := (if str nid = [] then ''step_'' @ nat_to_string idx else str nid),
          step_name := str name, step_uses := str uses_n, step_run := str run, step_shell := str shell,
          step_working_dir := str wd, step_if_condition := str cond, step_env := env, step_with := wth,
          step_continue_on_error := boolean y coe\<rparr>)))))))))))))"

fun parse_action_steps :: "yaml_api \<Rightarrow> nat \<Rightarrow> ynode list \<Rightarrow> step list result" where
  "parse_action_steps y idx [] = Inr []"
| "parse_action_steps y idx (n # ns) =
     rbind (parse_action_step y n idx) (\<lambda>s. rbind (parse_action_steps y (Suc idx) ns) (\<lambda>ss. Inr (s # ss)))"

definition parse_runs :: "yaml_api \<Rightarrow> ynode option \<Rightarrow> action_definition \<Rightarrow> action_definition result" where
  "parse_runs y rn def =
     (case rn of
        None \<Rightarrow> Inr def
      | Some rs \<Rightarrow>
          with_field rs ''using'' (\<lambda>u. let rt = str u in
          if rt = ''composite'' then
            with_field rs ''steps'' (\<lambda>steps.
              case steps of
                Some (YSeq ns) \<Rightarrow>
                  rbind (parse_action_steps y 0 ns) (\<lambda>ss. Inr (def\<lparr>ad_type := Composite, ad_steps := ss\<rparr>))
              | _ \<Rightarrow> Inr (def\<lparr>ad_type := Composite\<rparr>))
          else if starts_with rt ''node'' then
            with_field rs ''main'' (\<lambda>m. with_field rs ''pre'' (\<lambda>pre. with_field rs ''post'' (\<lambda>post.
              Inr (def\<lparr>ad_type := JavaScript, ad_using_runtime := rt, ad_main_script := str m,
                ad_pre_script := str pre, ad_post_script := str post\<rparr>))))
          else if rt = ''docker'' then
            with_field rs ''image'' (\<lambda>i. Inr (def\<lparr>ad_type := DockerAction, ad_docker_image := str i\<rparr>))
          else Inr def))"

definition map_pairs :: "ynode option \<Rightarrow> (ynode \<times> ynode) list" where
  "map_pairs n = (case n of Some (YMap kvs) \<Rightarrow> kvs | _ \<Rightarrow> [])"

definition parse_action_node :: "yaml_api \<Rightarrow> ynode \<Rightarrow> action_definition result" where
  "parse_action_node y doc =
     with_field doc ''name'' (\<lambda>name.
     with_field doc ''description'' (\<lambda>desc.
     with_field doc ''author'' (\<lambda>author.
     with_field doc ''inputs'' (\<lambda>ins. rbind (rfold (parse_input y) (map_pairs ins) []) (\<lambda>ins.
     with_field doc ''outputs'' (\<lambda>outs. rbind (rfold parse_output (map_pairs outs) []) (\<lambda>outs.
     with_field doc ''runs'' (\<lambda>runs.
     parse_runs y runs (new_action_definition\<lparr>ad_name := str name, ad_description := str desc, ad_author := str author,
       ad_inputs := ins, ad_outputs := outs\<rparr>)))))))))"

definition parseActionYaml :: "yaml_api \<Rightarrow> string \<Rightarrow> files \<Rightarrow> action_definition result" where
  "parseActionYaml y path fs =
     (let load = (case fs path of None \<Rightarrow> Inl (Runtime_error ''bad file'') | Some text \<Rightarrow> yaml_load y text) in
      case load of
        Inl e \<Rightarrow> Inl (Runtime_error (''Failed to parse action.yml at '' @ [CHR 0x27] @ path @ [CHR 0x27] @ '': '' @ what e))
      | Inr doc \<Rightarrow> parse_action_node y doc)"

end
