(* ===== verification/Action_Runner.thy ===== *)
theory Action_Runner
  imports Action_Cache
begin

text \<open>
  \<^verbatim>\<open>src/src/action/ActionRunner.cpp\<close>, second part: resolving and running a \<^verbatim>\<open>uses:\<close> step.  The state is that
  of a step (\<^typ>\<open>exec_state\<close>); nested composite actions recurse with the code's depth counter.
\<close>

record action_runner =
  ar_workspace :: string
  ar_cache_root :: string
  ar_default_shell :: string
  ar_gitea_url :: string
  ar_actions_url :: string

definition new_action_runner :: "string \<Rightarrow> string \<Rightarrow> string \<Rightarrow> string \<Rightarrow> string \<Rightarrow> action_runner" where
  "new_action_runner workspace croot shell gitea_url actions_url =
     \<lparr>ar_workspace = workspace, ar_cache_root = croot, ar_default_shell = shell, ar_gitea_url = gitea_url,
      ar_actions_url = (if actions_url = [] then ''https://github.com'' else actions_url)\<rparr>"

record action_result =
  act_success :: bool
  act_exit_code :: int
  act_outputs :: "string smap"

text \<open>The results the code returns without outputs: failed, failed unless the step continues on errors, done.\<close>

definition failed_action :: action_result where
  "failed_action = \<lparr>act_success = False, act_exit_code = 1, act_outputs = []\<rparr>"

definition tolerated :: "step \<Rightarrow> action_result" where
  "tolerated st = \<lparr>act_success = step_continue_on_error st,
     act_exit_code = (if step_continue_on_error st then 0 else 1), act_outputs = []\<rparr>"

definition done_action :: action_result where
  "done_action = \<lparr>act_success = True, act_exit_code = 0, act_outputs = []\<rparr>"

definition em_dash :: string where
  "em_dash = [CHR 0xE2, CHR 0x80, CHR 0x94]"

section \<open>Expressions\<close>

text \<open>Text and conditions are evaluated against the files as they are at that moment.\<close>

definition eval_text :: "step_world \<Rightarrow> expr_context \<Rightarrow> string \<Rightarrow> string action_op" where
  "eval_text w ctx t = sbind (sget (\<lambda>s. new_evaluator (sw_eval w (x_files s)) ctx)) (\<lambda>ev. slift (interpolate ev t))"

definition eval_condition :: "step_world \<Rightarrow> expr_context \<Rightarrow> string \<Rightarrow> bool action_op" where
  "eval_condition w ctx t =
     sbind (sget (\<lambda>s. new_evaluator (sw_eval w (x_files s)) ctx)) (\<lambda>ev. slift (evaluateCondition ev t))"

definition eval_pairs :: "step_world \<Rightarrow> expr_context \<Rightarrow> string smap \<Rightarrow> (string \<times> string) list action_op" where
  "eval_pairs w ctx kvs = smap (\<lambda>(k, v). sbind (eval_text w ctx v) (\<lambda>v'. sret (k, v'))) kvs"

text \<open>\<^verbatim>\<open>withVal\<close>; a default that is an expression is evaluated before the call, whether it is used or not.\<close>

definition with_val :: "step_world \<Rightarrow> expr_context \<Rightarrow> step \<Rightarrow> string \<Rightarrow> string \<Rightarrow> string action_op" where
  "with_val w ctx st key def_val =
     (case omap_get (step_with st) key of Some t \<Rightarrow> eval_text w ctx t | None \<Rightarrow> sret def_val)"

definition with_expr :: "step_world \<Rightarrow> expr_context \<Rightarrow> step \<Rightarrow> string \<Rightarrow> string \<Rightarrow> string action_op" where
  "with_expr w ctx st key t = sbind (eval_text w ctx t) (with_val w ctx st key)"

section \<open>Resolving a reference\<close>

definition resolveActionDir :: "step_world \<Rightarrow> action_world \<Rightarrow> action_runner \<Rightarrow> string \<Rightarrow> string action_op" where
  "resolveActionDir w aw ar ref =
     (if starts_with ref ''./'' then
        let dir = path_join (ar_workspace ar) (drop 2 ref) in
        sbind (has_action_yml aw dir) (\<lambda>ok.
        if ok then sret dir else sthrow (Runtime_error (''Local action not found at: '' @ dir)))
      else if starts_with ref ''docker://'' then
        sthrow (Runtime_error (''Docker actions are not supported on Haiku: '' @ ref))
      else case parseActionRef ref of
        None \<Rightarrow> sthrow (Runtime_error (''Invalid action reference: '' @ ref))
      | Some r \<Rightarrow>
          sbind (fetchAction w aw (ar_cache_root ar) r (ar_gitea_url ar) (ar_actions_url ar)) (\<lambda>d.
          let dir = (if ref_subdir r = [] then d else path_join d (ref_subdir r)) in
          sbind (has_action_yml aw dir) (\<lambda>ok.
          if ok then sret dir else sthrow (Runtime_error (''action.yml not found in '' @ dir)))))"

text \<open>\<^verbatim>\<open>action.yml\<close> if it exists, otherwise \<^verbatim>\<open>action.yaml\<close>.\<close>

definition action_file :: "action_world \<Rightarrow> string \<Rightarrow> string action_op" where
  "action_file aw dir =
     sbind (path_exists aw (path_join dir ''action.yml'')) (\<lambda>e.
     sret (if e then path_join dir ''action.yml'' else path_join dir ''action.yaml''))"

definition read_action :: "action_world \<Rightarrow> string \<Rightarrow> action_definition action_op" where
  "read_action aw path = sbind (sget (\<lambda>s. parseActionYaml (aw_yaml aw) path (x_files s))) (\<lambda>r. slift (Some (of_result r)))"

text \<open>The inputs of an action become \<^verbatim>\<open>inputs.*\<close> of its context; a missing one is reported and stays empty.\<close>

fun set_inputs :: "step_world \<Rightarrow> expr_context \<Rightarrow> step \<Rightarrow> string \<Rightarrow> (string \<times> action_input) list \<Rightarrow> expr_context
    \<Rightarrow> expr_context action_op" where
  "set_inputs w ctx st msg [] actx = sret actx"
| "set_inputs w ctx st msg ((iname, idef) # ins) actx =
     sbind (case omap_get (step_with st) iname of
         Some t \<Rightarrow> eval_text w ctx t
       | None \<Rightarrow>
           sbind (if ai_required idef \<and> ai_default idef = []
                  then log_append (''##[error]Required input '' @ quoted iname @ msg @ step_uses st) else sret ())
             (\<lambda>_. sret (ai_default idef))) (\<lambda>v.
     set_inputs w ctx st msg ins (setString (''inputs.'' @ iname) v actx))"

section \<open>Checkout\<close>

record checkout_plan =
  co_repo :: string
  co_dest :: string
  co_clone_url :: string
  co_ref :: string
  co_depth :: int
  co_submodules :: string

definition checkout_server :: "action_runner \<Rightarrow> string \<Rightarrow> string" where
  "checkout_server ar url =
     strip_slashes (if url \<noteq> [] then url else if ar_gitea_url ar \<noteq> [] then ar_gitea_url ar else ''https://github.com'')"

definition checkout_url :: "string \<Rightarrow> string \<Rightarrow> string \<Rightarrow> string" where
  "checkout_url server_url token repo =
     (let (scheme, host_path) = (case str_find ''://'' server_url of
            Some i \<Rightarrow> (take i server_url, drop (i + 3) server_url) | None \<Rightarrow> (''https'', server_url))
      in if token \<noteq> [] \<and> token \<noteq> ''false'' \<and> token \<noteq> ''0''
         then scheme @ ''://oauth2:'' @ token @ ''@'' @ host_path @ ''/'' @ repo @ ''.git''
         else server_url @ ''/'' @ repo @ ''.git'')"

definition checkout_ref :: "string \<Rightarrow> string" where
  "checkout_ref r =
     (if starts_with r ''refs/heads/'' then drop 11 r else if starts_with r ''refs/tags/'' then drop 10 r else r)"

definition checkout_depth :: "string \<Rightarrow> int" where
  "checkout_depth s = (case stoi s of Inr n \<Rightarrow> n | Inl _ \<Rightarrow> 1)"

definition plan_checkout :: "step_world \<Rightarrow> action_runner \<Rightarrow> step \<Rightarrow> expr_context \<Rightarrow> checkout_plan action_op" where
  "plan_checkout w ar st ctx =
     sbind (with_expr w ctx st ''repository'' ''${{ github.repository }}'') (\<lambda>repo.
     sbind (with_expr w ctx st ''ref'' ''${{ github.ref }}'') (\<lambda>ref.
     sbind (with_val w ctx st ''path'' []) (\<lambda>path.
     sbind (with_expr w ctx st ''token'' ''${{ github.token }}'') (\<lambda>token.
     sbind (with_val w ctx st ''fetch-depth'' ''1'') (\<lambda>depth_str.
     sbind (with_val w ctx st ''submodules'' ''false'') (\<lambda>submodules.
     sbind (eval_text w ctx ''${{ github.server_url }}'') (\<lambda>server.
     sret \<lparr>co_repo = repo, co_dest = (if path = [] then ar_workspace ar else path_join (ar_workspace ar) path),
       co_clone_url = checkout_url (checkout_server ar server) token repo, co_ref = checkout_ref ref,
       co_depth = checkout_depth depth_str, co_submodules = submodules\<rparr>)))))))"

definition depth_option :: "checkout_plan \<Rightarrow> string" where
  "depth_option co = (if 0 < co_depth co then '' --depth='' @ int_to_string (co_depth co) else [])"

definition git_clone_cmd :: "checkout_plan \<Rightarrow> string" where
  "git_clone_cmd co = ''git clone'' @ depth_option co
     @ (if co_ref co = [] then [] else '' --branch='' @ co_ref co) @ '' -- '' @ co_clone_url co @ '' '' @ co_dest co"

definition git_fetch_script :: "checkout_plan \<Rightarrow> string" where
  "git_fetch_script co =
     ''cd '' @ co_dest co @ '' && git init -q && git remote add origin '' @ co_clone_url co
       @ '' 2>/dev/null || git remote set-url origin '' @ co_clone_url co @ '' && git fetch --quiet''
       @ depth_option co @ '' origin '' @ co_ref co @ '' && git checkout -q FETCH_HEAD''"

text \<open>The callback of the git processes, and the null callback.\<close>

definition debug_stderr :: "string \<times> bool \<Rightarrow> string list" where
  "debug_stderr l = [if snd l then ''##[debug]'' @ fst l else fst l]"

definition no_lines :: "string \<times> bool \<Rightarrow> string list" where
  "no_lines l = []"

definition git_env :: "step_world \<Rightarrow> string list" where
  "git_env w = buildEnv (sw_environ w) [(''GIT_TERMINAL_PROMPT'', ''0''), (''GCM_INTERACTIVE'', ''never'')] []"

definition with_submodules :: "checkout_plan \<Rightarrow> bool" where
  "with_submodules co \<longleftrightarrow> co_submodules co = ''true'' \<or> co_submodules co = ''recursive''"

text \<open>The clone or the fetch into a directory that has files, and the submodules.\<close>

definition checkout_clone :: "step_world \<Rightarrow> action_world \<Rightarrow> checkout_plan \<Rightarrow> bool action_op" where
  "checkout_clone w aw co =
     sbind (sget (\<lambda>s. aw_nonempty aw (co_dest co) (x_files s))) (\<lambda>dest_exists.
     sbind (spawn_with w debug_stderr ''/bin/sh'' (if dest_exists then git_fetch_script co else git_clone_cmd co)
              (co_dest co) (git_env w) 300) (\<lambda>proc.
     let clone_ok = (exit_code proc = 0) in
     sbind (if clone_ok \<and> with_submodules co then
              sbind (spawn_with w debug_stderr ''/bin/sh''
                  (''git submodule update --init'' @ (if co_submodules co = ''recursive'' then '' --recursive'' else []))
                  (co_dest co) (git_env w) 300) (\<lambda>_. sret ())
            else sret ()) (\<lambda>_.
     sret clone_ok)))"

definition checkout :: "step_world \<Rightarrow> action_world \<Rightarrow> action_runner \<Rightarrow> step \<Rightarrow> expr_context \<Rightarrow> action_result action_op" where
  "checkout w aw ar st ctx =
     sbind (plan_checkout w ar st ctx) (\<lambda>co.
     sbind (log_append (''##[group]Checkout '' @ co_repo co @ (if co_ref co = [] then [] else '' @ '' @ co_ref co))) (\<lambda>_.
     sbind (log_append (''Cloning '' @ co_repo co @ '' into '' @ co_dest co)) (\<lambda>_.
     sbind (spawn_with w no_lines ''/bin/sh'' ''git --version'' (co_dest co) (git_env w) 5) (\<lambda>check.
     if exit_code check \<noteq> 0 then
       sbind (log_append (''##[warning]'' @ quoted ''git'' @ '' not found in PATH '' @ em_dash
         @ '' skipping checkout. Install git with: pkgman install git'')) (\<lambda>_.
       sbind (log_append ''##[endgroup]'') (\<lambda>_. sret done_action))
     else
       sbind (scatch (create_directories w (co_dest co)) (\<lambda>_. sret ())) (\<lambda>_.
       sbind (checkout_clone w aw co) (\<lambda>clone_ok.
       sbind (log_append ''##[endgroup]'') (\<lambda>_.
       if clone_ok then sret done_action
       else sbind (log_append (''##[error]git clone failed for '' @ co_repo co)) (\<lambda>_. sret (tolerated st)))))))))"

section \<open>JavaScript actions\<close>

definition node_candidates :: "string list" where
  "node_candidates = [''/bin/node'', ''/usr/bin/node'', ''/boot/home/config/bin/node'']"

fun first_existing :: "action_world \<Rightarrow> string list \<Rightarrow> string action_op" where
  "first_existing aw [] = sret []"
| "first_existing aw (p # ps) = sbind (path_exists aw p) (\<lambda>e. if e then sret p else first_existing aw ps)"

text \<open>The node executable; empty when there is none.\<close>

definition find_node :: "action_world \<Rightarrow> string action_op" where
  "find_node aw =
     sbind (first_existing aw node_candidates) (\<lambda>p.
     if p \<noteq> [] then sret p
     else sbind (run_system aw ''node --version >/dev/null 2>&1'') (\<lambda>st. sret (if st = 0 then ''node'' else [])))"

text \<open>\<open>queue\<close>: the caller passed a queue for deferred scripts.\<close>

definition enqueue_post :: "action_world \<Rightarrow> action_runner \<Rightarrow> bool \<Rightarrow> action_definition \<Rightarrow> string \<Rightarrow> string \<Rightarrow> string list
    \<Rightarrow> unit action_op" where
  "enqueue_post aw ar queue def dir node env =
     (if queue \<and> ad_post_script def \<noteq> [] then
        let path = path_join dir (ad_post_script def) in
        sbind (path_exists aw path) (\<lambda>e.
        if e then smod (\<lambda>s. s\<lparr>x_posts := x_posts s @ [\<lparr>ps_node_bin = node, ps_script_path = path,
                                ps_working_dir = ar_workspace ar, ps_env = env\<rparr>]\<rparr>)
        else sret ())
      else sret ())"

definition js_inputs :: "step_world \<Rightarrow> expr_context \<Rightarrow> step \<Rightarrow> (string \<times> action_input) list \<Rightarrow> (string \<times> string) list action_op" where
  "js_inputs w ctx st ins = smap (\<lambda>(iname, idef). sbind (with_val w ctx st iname (ai_default idef))
     (\<lambda>v. sret (''INPUT_'' @ to_upper iname, v))) ins"

definition apply_changes :: "unit action_op" where
  "apply_changes = smod (\<lambda>s. s\<lparr>x_em := applyPathChanges (x_files s) (applyEnvChanges (x_files s) (x_em s))\<rparr>)"

definition read_outputs :: "string smap action_op" where
  "read_outputs = sget (\<lambda>s. parseOutputs (x_em s) (x_files s))"

definition run_node :: "step_world \<Rightarrow> action_world \<Rightarrow> action_runner \<Rightarrow> bool \<Rightarrow> action_definition \<Rightarrow> step \<Rightarrow> expr_context
    \<Rightarrow> (string \<times> string) list \<Rightarrow> string \<Rightarrow> string \<Rightarrow> string \<Rightarrow> action_result action_op" where
  "run_node w aw ar queue def st ctx base_env dir node_bin main_path =
     sbind (js_inputs w ctx st (ad_inputs def)) (\<lambda>ins.
     sbind (sget (\<lambda>s. buildEnv (sw_environ w) (base_env @ ins @ currentEnv (sw_getenv_path w) (x_em s)) [])) (\<lambda>flat_env.
     sbind (slift (Some (mul_int (step_timeout_minutes st) 60))) (\<lambda>timeout_s.
     sbind (spawn w node_bin main_path (ar_workspace ar) flat_env timeout_s) (\<lambda>proc.
     sbind apply_changes (\<lambda>_.
     sbind read_outputs (\<lambda>outs.
     sbind (smod (\<lambda>s. s\<lparr>x_files := resetBetweenSteps (x_em s) (x_files s)\<rparr>)) (\<lambda>_.
     sbind (enqueue_post aw ar queue def dir node_bin flat_env) (\<lambda>_.
     sret \<lparr>act_success = (exit_code proc = 0), act_exit_code = exit_code proc, act_outputs = outs\<rparr>))))))))"

definition runJavaScript :: "step_world \<Rightarrow> action_world \<Rightarrow> action_runner \<Rightarrow> bool \<Rightarrow> action_definition \<Rightarrow> step \<Rightarrow> expr_context
    \<Rightarrow> (string \<times> string) list \<Rightarrow> string \<Rightarrow> action_result action_op" where
  "runJavaScript w aw ar queue def st ctx base_env dir =
     sbind (find_node aw) (\<lambda>node_bin.
     if node_bin = [] then
       sbind (log_append ''##[error]JavaScript actions require Node.js, which is not installed. Install with: pkgman install nodejs'') (\<lambda>_.
       sbind (log_append (''##[error]Action: '' @ step_uses st)) (\<lambda>_.
       sbind (enqueue_post aw ar queue def dir ''node'' []) (\<lambda>_. sret (tolerated st))))
     else
       let main_path = path_join dir (ad_main_script def) in
       sbind (path_exists aw main_path) (\<lambda>e.
       if \<not> e then sbind (log_append (''##[error]Action main script not found: '' @ main_path)) (\<lambda>_. sret failed_action)
       else run_node w aw ar queue def st ctx base_env dir node_bin main_path))"

section \<open>Composite actions\<close>

text \<open>\<^verbatim>\<open>map::insert\<close> of a range: keys already present keep their value.\<close>

definition insert_new :: "string smap \<Rightarrow> string smap \<Rightarrow> string smap" where
  "insert_new kvs m = fold (\<lambda>(k, v) m. if omap_has m k then m else omap_set k v m) kvs m"

definition add_outputs :: "string smap \<Rightarrow> action_result \<Rightarrow> action_result" where
  "add_outputs kvs r = r\<lparr>act_outputs := insert_new kvs (act_outputs r)\<rparr>"

definition with_failure :: "int \<Rightarrow> action_result \<Rightarrow> action_result" where
  "with_failure code r = r\<lparr>act_success := False, act_exit_code := code\<rparr>"

text \<open>One step: the accumulated result, and whether the loop ends here.\<close>

definition composite_run :: "step_world \<Rightarrow> action_runner \<Rightarrow> step \<Rightarrow> expr_context \<Rightarrow> (string \<times> string) list \<Rightarrow> action_result
    \<Rightarrow> (action_result \<times> bool) action_op" where
  "composite_run w ar st ctx base_env overall =
     sbind (eval_text w ctx (step_run st)) (\<lambda>script.
     let shell = (if step_shell st = [] then ar_default_shell ar else step_shell st) in
     sbind (eval_pairs w ctx (step_env st)) (\<lambda>senv.
     sbind (sget (\<lambda>s. buildEnv (sw_environ w) (base_env @ senv @ currentEnv (sw_getenv_path w) (x_em s)) [])) (\<lambda>flat_env.
     let work_dir = (if step_working_dir st = [] then ar_workspace ar else step_working_dir st) in
     sbind (slift (Some (mul_int (step_timeout_minutes st) 60))) (\<lambda>timeout_s.
     sbind (spawn w shell script work_dir flat_env timeout_s) (\<lambda>proc.
     if exit_code proc \<noteq> 0 \<and> \<not> step_continue_on_error st then
       sbind read_outputs (\<lambda>outs.
       sbind apply_changes (\<lambda>_.
       sret (add_outputs outs (with_failure (exit_code proc) overall), True)))
     else
       sbind apply_changes (\<lambda>_.
       sbind read_outputs (\<lambda>outs.
       sret (add_outputs outs overall, False))))))))"

definition composite_uses :: "(step \<Rightarrow> expr_context \<Rightarrow> (string \<times> string) list \<Rightarrow> action_result action_op) \<Rightarrow> step_world
    \<Rightarrow> step \<Rightarrow> expr_context \<Rightarrow> (string \<times> string) list \<Rightarrow> action_result \<Rightarrow> (action_result \<times> bool) action_op" where
  "composite_uses nested w st ctx base_env overall =
     sbind (eval_pairs w ctx (step_with st)) (\<lambda>wth.
     sbind (sget (\<lambda>s. currentEnv (sw_getenv_path w) (x_em s))) (\<lambda>mgr_env.
     sbind (eval_pairs w ctx (step_env st)) (\<lambda>senv.
     sbind (nested (st\<lparr>step_with := wth\<rparr>) ctx (base_env @ mgr_env @ senv)) (\<lambda>r.
     let overall = add_outputs (act_outputs r) overall in
     if \<not> act_success r \<and> \<not> step_continue_on_error st
     then sret (with_failure (act_exit_code r) overall, True)
     else sret (overall, False)))))"

definition composite_step :: "(step \<Rightarrow> expr_context \<Rightarrow> (string \<times> string) list \<Rightarrow> action_result action_op) \<Rightarrow> step_world
    \<Rightarrow> action_runner \<Rightarrow> expr_context \<Rightarrow> (string \<times> string) list \<Rightarrow> step \<Rightarrow> action_result \<Rightarrow> (action_result \<times> bool) action_op" where
  "composite_step nested w ar ctx base_env st overall =
     sbind (if step_if_condition st \<noteq> [] then eval_condition w ctx (step_if_condition st) else sret True) (\<lambda>cond.
     if \<not> cond then
       sbind (log_append (''##[debug]Composite step '' @ quoted (step_id st) @ '' skipped'')) (\<lambda>_. sret (overall, False))
     else if step_run st \<noteq> [] then composite_run w ar st ctx base_env overall
     else if step_uses st \<noteq> [] then composite_uses nested w st ctx base_env overall
     else sret (overall, False))"

fun composite_loop :: "(step \<Rightarrow> action_result \<Rightarrow> (action_result \<times> bool) action_op) \<Rightarrow> step list \<Rightarrow> action_result
    \<Rightarrow> action_result action_op" where
  "composite_loop body [] overall = sret overall"
| "composite_loop body (st # sts) overall =
     sbind (body st overall) (\<lambda>(overall', stop). if stop then sret overall' else composite_loop body sts overall')"

text \<open>A failure is reported to the log and has no value.\<close>

definition attempt :: "string \<Rightarrow> 'a action_op \<Rightarrow> 'a option action_op" where
  "attempt msg m = scatch (sbind m (\<lambda>x. sret (Some x))) (\<lambda>e. sbind (log_append (msg @ what e)) (\<lambda>_. sret None))"

text \<open>\<open>composite\<close> is \<^verbatim>\<open>runComposite\<close> at the depth handed down.\<close>

definition runRecursive :: "(action_definition \<Rightarrow> expr_context \<Rightarrow> (string \<times> string) list \<Rightarrow> action_result action_op) \<Rightarrow> step_world
    \<Rightarrow> action_world \<Rightarrow> action_runner \<Rightarrow> step \<Rightarrow> expr_context \<Rightarrow> (string \<times> string) list \<Rightarrow> action_result action_op" where
  "runRecursive composite w aw ar st ctx base_env =
     (sbind (attempt (''##[error]Cannot resolve nested action '' @ quoted (step_uses st) @ '': '')
               (resolveActionDir w aw ar (step_uses st))) (\<lambda>dir.
      case dir of None \<Rightarrow> sret failed_action | Some dir \<Rightarrow>
      sbind (action_file aw dir) (\<lambda>path.
      sbind (path_exists aw path) (\<lambda>e.
      if \<not> e then
        sbind (log_append (''##[error]Nested action '' @ quoted (step_uses st) @ '' has no action.yml in '' @ dir))
          (\<lambda>_. sret failed_action)
      else
      sbind (attempt (''##[error]Cannot parse nested action '' @ quoted (step_uses st) @ '': '') (read_action aw path)) (\<lambda>def.
      case def of None \<Rightarrow> sret failed_action | Some def \<Rightarrow>
      sbind (set_inputs w ctx st '' not provided for nested action '' (ad_inputs def) ctx) (\<lambda>actx.
      case ad_type def of
        Composite \<Rightarrow> composite def actx base_env
      | JavaScript \<Rightarrow> runJavaScript w aw ar False def st actx base_env dir
      | DockerAction \<Rightarrow> sbind (log_append (''##[error]Docker actions not supported on Haiku: '' @ step_uses st)) (\<lambda>_. sret (tolerated st))
      | Unknown_action \<Rightarrow> sbind (log_append (''##[error]Unknown nested action type: '' @ step_uses st)) (\<lambda>_. sret failed_action)))))))"

definition max_depth :: int where
  "max_depth = 10"

definition depth_message :: string where
  "depth_message = ''##[error]Composite action recursion depth exceeded ('' @ int_to_string max_depth @ '') '' @ em_dash @ '' aborting''"

text \<open>The depth is the code's \<^verbatim>\<open>recursion_depth\<close>; the calls nest at most \<^const>\<open>max_depth\<close> levels deep.\<close>

function runComposite :: "step_world \<Rightarrow> action_world \<Rightarrow> action_runner \<Rightarrow> int
    \<Rightarrow> action_definition \<Rightarrow> expr_context \<Rightarrow> (string \<times> string) list \<Rightarrow> action_result action_op" where
  "runComposite w aw ar depth =
     (if max_depth < depth then
        (\<lambda>def ctx base_env.
          sbind (log_append depth_message) (\<lambda>_. sret failed_action))
      else
        (\<lambda>def ctx base_env.
          composite_loop
            (composite_step (runRecursive (runComposite w aw ar (depth + 1)) w aw ar) w ar ctx base_env)
            (ad_steps def) done_action))"
  by pat_completeness auto
termination
  by (relation "measure (\<lambda>(w, aw, ar, depth). nat (max_depth + 1 - depth))") auto

declare runComposite.simps [simp del]

section \<open>An action\<close>

definition node_present :: "step_world \<Rightarrow> action_runner \<Rightarrow> bool action_op" where
  "node_present w ar =
     sbind (spawn_with w no_lines ''/bin/sh'' ''command -v node || command -v node.js'' (ar_workspace ar) [] 0)
       (\<lambda>check. sret (exit_code check = 0))"

text \<open>The rest of \<^verbatim>\<open>run\<close>: everything but the actions it knows by name.\<close>

definition run_definition :: "step_world \<Rightarrow> action_world \<Rightarrow> action_runner \<Rightarrow> step \<Rightarrow> expr_context
    \<Rightarrow> (string \<times> string) list \<Rightarrow> action_result action_op" where
  "run_definition w aw ar st ctx base_env =
     sbind (attempt ''##[error]'' (resolveActionDir w aw ar (step_uses st))) (\<lambda>dir.
     case dir of None \<Rightarrow> sret failed_action | Some dir \<Rightarrow>
     sbind (action_file aw dir) (\<lambda>path.
     sbind (attempt ''##[error]Failed to parse action definition: '' (read_action aw path)) (\<lambda>def.
     case def of None \<Rightarrow> sret failed_action | Some def \<Rightarrow>
     sbind (set_inputs w ctx st '' not provided for action '' (ad_inputs def) ctx) (\<lambda>actx.
     case ad_type def of
       Composite \<Rightarrow> runComposite w aw ar 0 def actx base_env
     | JavaScript \<Rightarrow> runJavaScript w aw ar True def st actx base_env dir
     | DockerAction \<Rightarrow> sbind (log_append (''##[error]Docker actions are not supported on Haiku: '' @ step_uses st)) (\<lambda>_. sret (tolerated st))
     | Unknown_action \<Rightarrow> sbind (log_append (''##[error]Unknown action type in '' @ path)) (\<lambda>_. sret failed_action)))))"

definition run_action :: "step_world \<Rightarrow> action_world \<Rightarrow> action_runner \<Rightarrow> step \<Rightarrow> expr_context
    \<Rightarrow> (string \<times> string) list \<Rightarrow> action_result action_op" where
  "run_action w aw ar st ctx base_env =
     (let base = actionBaseName (step_uses st) in
      if base = ''actions/checkout'' then checkout w aw ar st ctx
      else if base = ''actions/cache'' then
        sbind (node_present w ar) (\<lambda>ok.
        if \<not> ok then
          sbind (log_append (''##[warning]'' @ quoted ''node'' @ '' not found '' @ em_dash
            @ '' actions/cache requires Node.js. Install with: pkgman install nodejs20'')) (\<lambda>_.
          sbind (log_append ''##[warning]Cache step skipped (cache will be a miss).'') (\<lambda>_. sret done_action))
        else run_definition w aw ar st ctx base_env)
      else if base = ''actions/upload-artifact'' \<or> base = ''actions/download-artifact'' then
        sbind (node_present w ar) (\<lambda>ok.
        if \<not> ok then
          sbind (log_append (''##[warning]'' @ quoted ''node'' @ '' not found '' @ em_dash @ '' '' @ base
            @ '' requires Node.js. Install with: pkgman install nodejs20'')) (\<lambda>_.
          sbind (log_append ''##[warning]Artifact step skipped.'') (\<lambda>_. sret done_action))
        else run_definition w aw ar st ctx base_env)
      else run_definition w aw ar st ctx base_env)"

text \<open>
  The action runner as a step runner uses it: \<^verbatim>\<open>StepRunner::runAction\<close> builds one from its own fields and
  copies the result.
\<close>

definition step_action :: "action_world \<Rightarrow> step_runner \<Rightarrow> step_world \<Rightarrow> step \<Rightarrow> expr_context \<Rightarrow> (string \<times> string) list
    \<Rightarrow> (exec_state, step_run_result) comp" where
  "step_action aw sr w st ctx base_env =
     (let ar = new_action_runner (sr_workspace sr) (sr_cache_dir sr) (sr_default_shell sr) (sr_gitea_url sr) (sr_actions_url sr) in
      sbind (run_action w aw ar st ctx base_env) (\<lambda>r.
      sret \<lparr>st_ok = act_success r, st_exit_code = act_exit_code r, st_outputs = act_outputs r\<rparr>))"

definition with_actions :: "action_world \<Rightarrow> step_runner \<Rightarrow> step_world \<Rightarrow> step_world" where
  "with_actions aw sr w = w\<lparr>sw_action := step_action aw sr w\<rparr>"

section \<open>A world whose only action uses itself\<close>

definition cyclic_document :: ynode where
  "cyclic_document = YMap [(YScalar ''runs'', YMap [(YScalar ''using'', YScalar ''composite''),
     (YScalar ''steps'', YSeq [YMap [(YScalar ''uses'', YScalar ''./a'')]])])]"

definition demo_action_world :: action_world where
  "demo_action_world = \<lparr>aw_yaml = \<lparr>yaml_load = (\<lambda>_. Inr cyclic_document), scalar_int = (\<lambda>_. None), scalar_bool = (\<lambda>_. None)\<rparr>,
     aw_system = (\<lambda>_ fs. (0, fs)), aw_is_dir = (\<lambda>_ _. False), aw_nonempty = (\<lambda>_ _. False), aw_subdirs = (\<lambda>_ _. []),
     aw_survives = (\<lambda>_ _. False)\<rparr>"

definition demo_action_runner :: action_runner where
  "demo_action_runner = new_action_runner ''/w'' ''/c'' ''/bin/sh'' [] []"

definition cyclic_step :: step where
  "cyclic_step = default_step\<lparr>step_id := ''step_0'', step_uses := ''./a''\<rparr>"

definition cyclic_state :: exec_state where
  "cyclic_state = demo_exec_state\<lparr>x_files := [''/w/a/action.yml'' \<mapsto> ''...'']\<rparr>"

lemma cyclic_document_parsed:
  "parse_action_node y cyclic_document = Inr (new_action_definition\<lparr>ad_type := Composite, ad_steps := [cyclic_step]\<rparr>)"
  by (simp add: parse_action_node_def cyclic_document_def with_field_def map_pairs_def parse_runs_def Let_def
      parse_action_step_def parseStringMap_def default_step_def cyclic_step_def boolean_def new_action_definition_def nat_to_string.simps digit_char_def char_of_def bit_0)

lemma demo_action_parsed:
  "parseActionYaml (aw_yaml demo_action_world) path fs = Inr def \<Longrightarrow>
     def = new_action_definition\<lparr>ad_type := Composite, ad_steps := [cyclic_step]\<rparr>"
  by (auto simp: parseActionYaml_def demo_action_world_def cyclic_document_parsed split: option.splits)

end
