(* ===== verification/Action_Nesting.thy ===== *)
theory Action_Nesting
  imports Action_Runner
begin

text \<open>
  Properties of nested actions: they end, cycles are cut off, and only the outermost action defers a script.
\<close>

section \<open>Deferred scripts\<close>

abbreviation posts_are :: "post_script list \<Rightarrow> exec_state \<Rightarrow> bool" where
  "posts_are ps s \<equiv> x_posts s = ps"

abbreviation no_posts :: "'a action_op \<Rightarrow> bool" where
  "no_posts m \<equiv> \<forall>ps. keeps (posts_are ps) m"

named_theorems no_posts_intros "operations that leave the queue of deferred scripts alone"

lemma no_posts_sbind [no_posts_intros]: "no_posts m \<Longrightarrow> (\<And>x. no_posts (k x)) \<Longrightarrow> no_posts (sbind m k)"
  by (simp add: keeps_sbind)

lemma no_posts_smod [no_posts_intros]: "(\<And>s. x_posts (f s) = x_posts s) \<Longrightarrow> no_posts (smod f)"
  by (simp add: keeps_smod)

lemma no_posts_basic [no_posts_intros]:
  "no_posts (sret x)" "no_posts (sget f)" "no_posts (sthrow e)" "no_posts (slift m)"
  by simp_all

lemma no_posts_scatch [no_posts_intros]: "no_posts m \<Longrightarrow> (\<And>e. no_posts (h e)) \<Longrightarrow> no_posts (scatch m h)"
  by (simp add: keeps_scatch)

lemma no_posts_smap [no_posts_intros]: "(\<And>x. no_posts (f x)) \<Longrightarrow> no_posts (smap f xs)"
  by (simp add: keeps_smap)

lemma no_posts_cases [no_posts_intros]:
  "(b \<Longrightarrow> no_posts m) \<Longrightarrow> (\<not> b \<Longrightarrow> no_posts m') \<Longrightarrow> no_posts (if b then m else m')"
  "no_posts n \<Longrightarrow> (\<And>x. no_posts (k x)) \<Longrightarrow> no_posts (case opt of None \<Rightarrow> n | Some x \<Rightarrow> k x)"
  "no_posts l \<Longrightarrow> (\<And>x xs. no_posts (j x xs)) \<Longrightarrow> no_posts (case list of [] \<Rightarrow> l | x # xs \<Rightarrow> j x xs)"
  "(\<And>x y. no_posts (g x y)) \<Longrightarrow> no_posts (case p of (x, y) \<Rightarrow> g x y)"
  "no_posts a1 \<Longrightarrow> no_posts a2 \<Longrightarrow> no_posts a3 \<Longrightarrow> no_posts a4 \<Longrightarrow>
     no_posts (case ty of Composite \<Rightarrow> a1 | JavaScript \<Rightarrow> a2 | DockerAction \<Rightarrow> a3 | Unknown_action \<Rightarrow> a4)"
  by (simp_all split: option.split list.split prod.split action_type.split)

lemma no_posts_spawn_with [no_posts_intros]: "no_posts (spawn_with w cb shell script d env t)"
  by (auto simp: keeps_def spawn_with_def Let_def split: prod.splits)

lemma no_posts_spawn [no_posts_intros]: "no_posts (spawn w shell script d env t)"
  unfolding spawn_def by (rule no_posts_spawn_with)

lemma no_posts_system [no_posts_intros]: "no_posts (run_system aw cmd)"
  by (auto simp: keeps_def run_system_def split: prod.splits)

lemma no_posts_log [no_posts_intros]: "no_posts (log_append l)"
  unfolding log_append_def by (intro no_posts_intros) simp

lemma no_posts_mkdirs [no_posts_intros]: "no_posts (create_directories w d)"
  unfolding create_directories_def by (intro no_posts_intros)

lemma no_posts_files [no_posts_intros]:
  "no_posts (set_action_files f)" "no_posts (remove_all aw d)" "no_posts (path_exists aw p)" "no_posts (has_action_yml aw d)"
  unfolding set_action_files_def remove_all_def path_exists_def has_action_yml_def
  by (intro no_posts_intros; simp)+

lemma no_posts_zip [no_posts_intros]: "no_posts (downloadViaZip w aw croot url dest)"
  unfolding downloadViaZip_def Let_def by (intro no_posts_intros)

lemma no_posts_fetch_loop [no_posts_intros]: "no_posts (fetch_loop w aw croot r dest bases)"
  unfolding fetch_from_def Let_def
  by (induction bases) (unfold fetch_loop.simps fetch_from_def Let_def, (intro no_posts_intros; assumption)+)

lemma no_posts_resolve [no_posts_intros]: "no_posts (resolveActionDir w aw ar ref)"
  unfolding resolveActionDir_def fetchAction_def cachedPath_def Let_def by (intro no_posts_intros)

lemma no_posts_eval [no_posts_intros]:
  "no_posts (eval_text w ctx t)" "no_posts (eval_condition w ctx t)" "no_posts (eval_pairs w ctx kvs)"
  unfolding eval_text_def eval_condition_def eval_pairs_def by (intro no_posts_intros)+

lemma no_posts_set_inputs [no_posts_intros]: "no_posts (set_inputs w ctx st msg ins actx)"
  by (induction ins arbitrary: actx) (unfold set_inputs.simps split_paired_all, (intro no_posts_intros; assumption)+)

lemma no_posts_attempt [no_posts_intros]: "no_posts m \<Longrightarrow> no_posts (attempt msg m)"
  unfolding attempt_def by (intro no_posts_intros)

lemma no_posts_read [no_posts_intros]: "no_posts (action_file aw d)" "no_posts (read_action aw p)"
  unfolding action_file_def read_action_def by (intro no_posts_intros)+

lemma no_posts_changes [no_posts_intros]: "no_posts apply_changes" "no_posts read_outputs"
  unfolding apply_changes_def read_outputs_def by (intro no_posts_intros; simp)+

lemma no_posts_find_node [no_posts_intros]: "no_posts (find_node aw)"
proof -
  have "no_posts (first_existing aw ps)" for ps
    by (induction ps) (unfold first_existing.simps, (intro no_posts_intros; assumption)+)
  then show ?thesis unfolding find_node_def by (intro no_posts_intros)
qed

lemma no_posts_js_inputs [no_posts_intros]: "no_posts (js_inputs w ctx st ins)"
  unfolding js_inputs_def with_val_def by (intro no_posts_intros)

lemma no_posts_no_queue [no_posts_intros]: "no_posts (enqueue_post aw ar False def dir node env)"
  unfolding enqueue_post_def by (simp add: no_posts_intros)

lemma no_posts_nested_js [no_posts_intros]: "no_posts (runJavaScript w aw ar False def st ctx base_env dir)"
  unfolding runJavaScript_def run_node_def Let_def by (intro no_posts_intros; simp)

lemma no_posts_composite_run [no_posts_intros]: "no_posts (composite_run w ar st ctx base_env overall)"
  unfolding composite_run_def Let_def by (intro no_posts_intros)

lemma no_posts_composite_uses:
  "(\<And>st c b. no_posts (nested st c b)) \<Longrightarrow> no_posts (composite_uses nested w st ctx base_env overall)"
  unfolding composite_uses_def Let_def by (intro no_posts_intros)

lemma no_posts_composite_step:
  "(\<And>st c b. no_posts (nested st c b)) \<Longrightarrow> no_posts (composite_step nested w ar ctx base_env st overall)"
  unfolding composite_step_def by (intro no_posts_intros no_posts_composite_uses)

lemma no_posts_loop: "(\<And>st r. no_posts (body st r)) \<Longrightarrow> no_posts (composite_loop body sts overall)"
proof (induction sts arbitrary: overall)
  case (Cons st sts)
  from Cons(1) [OF Cons(2)] show ?case unfolding composite_loop.simps by (intro no_posts_intros Cons(2))
qed (simp add: no_posts_intros)

lemma no_posts_recursive:
  "(\<And>def c b. no_posts (composite def c b)) \<Longrightarrow> no_posts (runRecursive composite w aw ar st ctx base_env)"
  unfolding runRecursive_def by (intro no_posts_intros)

lemma no_posts_composite [no_posts_intros]: "no_posts (runComposite w aw ar depth def ctx base_env)"
proof (induction w aw ar depth arbitrary: def ctx base_env rule: runComposite.induct)
  case (1 w aw ar depth)
  show ?case
  proof (cases "max_depth < depth")
    case True
    then show ?thesis by (subst runComposite.simps) (simp add: no_posts_intros)
  next
    case False
    with 1 have "no_posts (runComposite w aw ar (depth + 1) d c b)" for d c b by blast
    then have "no_posts (runRecursive (runComposite w aw ar (depth + 1)) w aw ar st c b)" for st c b
      by (rule no_posts_recursive)
    with False show ?thesis
      by (subst runComposite.simps) (simp add: no_posts_loop no_posts_composite_step)
  qed
qed

text \<open>The scripts a composite action's own actions declare are not deferred: nothing is.\<close>

lemma composite_defers_nothing:
  "runComposite w aw ar depth def ctx base_env s = Some (r, s') \<Longrightarrow> x_posts s' = x_posts s"
  using no_posts_composite unfolding keeps_def by blast

definition one_post :: "string \<Rightarrow> 'a action_op \<Rightarrow> bool" where
  "one_post dir m \<longleftrightarrow> (\<forall>s r s'. m s = Some (r, s') \<longrightarrow>
     x_posts s' = x_posts s \<or> (\<exists>p. x_posts s' = x_posts s @ [p] \<and> ps_working_dir p = dir))"

named_theorems one_post_intros "operations that defer at most one script"

lemma one_post_none: "no_posts m \<Longrightarrow> one_post dir m"
  unfolding one_post_def keeps_def by blast

lemma one_post_after [one_post_intros]:
  assumes "no_posts m" "\<And>x. one_post dir (k x)"
  shows "one_post dir (sbind m k)"
  unfolding one_post_def
proof (intro allI impI)
  fix s r s'
  assume "sbind m k s = Some (r, s')"
  then show "x_posts s' = x_posts s \<or> (\<exists>p. x_posts s' = x_posts s @ [p] \<and> ps_working_dir p = dir)"
  proof (cases rule: sbindE)
    case (1 x s1)
    with assms(1) have "x_posts s1 = x_posts s" unfolding keeps_def by blast
    with 1(2) assms(2) show ?thesis unfolding one_post_def by metis
  next
    case 2
    with assms(1) show ?thesis unfolding keeps_def by blast
  qed
qed

lemma one_post_before:
  assumes "one_post dir m" "\<And>x. no_posts (k x)"
  shows "one_post dir (sbind m k)"
  unfolding one_post_def
proof (intro allI impI)
  fix s r s'
  assume "sbind m k s = Some (r, s')"
  then show "x_posts s' = x_posts s \<or> (\<exists>p. x_posts s' = x_posts s @ [p] \<and> ps_working_dir p = dir)"
  proof (cases rule: sbindE)
    case (1 x s1)
    with assms(2) have "x_posts s' = x_posts s1" unfolding keeps_def by blast
    with 1(1) assms(1) show ?thesis unfolding one_post_def by metis
  next
    case 2
    with assms(1) show ?thesis unfolding one_post_def by blast
  qed
qed

lemma one_post_cases [one_post_intros]:
  "(b \<Longrightarrow> one_post d m) \<Longrightarrow> (\<not> b \<Longrightarrow> one_post d m') \<Longrightarrow> one_post d (if b then m else m')"
  "one_post d n \<Longrightarrow> (\<And>x. one_post d (k x)) \<Longrightarrow> one_post d (case opt of None \<Rightarrow> n | Some x \<Rightarrow> k x)"
  "one_post d a1 \<Longrightarrow> one_post d a2 \<Longrightarrow> one_post d a3 \<Longrightarrow> one_post d a4 \<Longrightarrow>
     one_post d (case ty of Composite \<Rightarrow> a1 | JavaScript \<Rightarrow> a2 | DockerAction \<Rightarrow> a3 | Unknown_action \<Rightarrow> a4)"
  by (simp_all split: option.split action_type.split)

lemma one_post_enqueue: "one_post (ar_workspace ar) (enqueue_post aw ar q def dir node env)"
  unfolding one_post_def enqueue_post_def path_exists_def by (auto simp: Let_def)

lemma one_post_javascript: "one_post (ar_workspace ar) (runJavaScript w aw ar q def st ctx base_env dir)"
  unfolding runJavaScript_def run_node_def Let_def
  by (intro one_post_intros one_post_before [OF one_post_enqueue] no_posts_intros)
    (intro one_post_none no_posts_intros, simp?)+

text \<open>
  A \<^verbatim>\<open>uses:\<close> step defers at most one script, to be run in the workspace, and leaves the scripts already
  deferred as they are, however it ends.
\<close>

theorem one_deferred_script:
  assumes "run_action w aw ar st ctx base_env s = Some (r, s')"
  shows "x_posts s' = x_posts s \<or> (\<exists>p. x_posts s' = x_posts s @ [p] \<and> ps_working_dir p = ar_workspace ar)"
proof -
  have checkout: "no_posts (checkout w aw ar st ctx)" "no_posts (node_present w ar)"
    unfolding checkout_def plan_checkout_def checkout_clone_def with_expr_def with_val_def node_present_def Let_def
    by (intro no_posts_intros)+
  have "one_post (ar_workspace ar) (run_definition w aw ar st ctx base_env)"
    unfolding run_definition_def
    by (intro one_post_intros one_post_javascript no_posts_intros) (intro one_post_none no_posts_intros)+
  then have "one_post (ar_workspace ar) (run_action w aw ar st ctx base_env)"
    unfolding run_action_def Let_def
    by (intro one_post_intros checkout one_post_none [OF checkout(1)]; (assumption | intro one_post_none no_posts_intros))
  with assms show ?thesis unfolding one_post_def by blast
qed

theorem one_deferred_script_witness:
  "\<exists>s'. run_action demo_step_world demo_action_world demo_action_runner (default_step\<lparr>step_uses := ''docker://x''\<rparr>) [] [] demo_exec_state
       = Some (EOk failed_action, s') \<and> length (x_posts s') \<le> 1"
proof -
  let ?st = "default_step\<lparr>step_uses := ''docker://x''\<rparr>"
  have "\<exists>s'. attempt ''##[error]'' (resolveActionDir demo_step_world demo_action_world demo_action_runner ''docker://x'') demo_exec_state
      = Some (EOk None, s')"
    by (simp add: attempt_def scatch_def resolveActionDir_def starts_with_def log_append_def sbind_def)
  then obtain s' where "attempt ''##[error]'' (resolveActionDir demo_step_world demo_action_world demo_action_runner (step_uses ?st))
      demo_exec_state = Some (EOk None, s')" by auto
  then have "run_definition demo_step_world demo_action_world demo_action_runner ?st [] [] demo_exec_state = Some (EOk failed_action, s')"
    unfolding run_definition_def by (simp add: sbind_value)
  then have run: "run_action demo_step_world demo_action_world demo_action_runner ?st [] [] demo_exec_state = Some (EOk failed_action, s')"
    by (simp add: run_action_def actionBaseName_def starts_with_def)
  from one_deferred_script [OF run] have "length (x_posts s') \<le> 1" by (auto simp: demo_exec_state_def)
  with run show ?thesis by blast
qed

end
