(* ===== verification/Action_Termination.thy ===== *)
theory Action_Termination
  imports Action_Runner
begin

text \<open>
  An action ends, however its composite parts are nested, when the texts it evaluates do.
\<close>

section \<open>Operations that end\<close>

abbreviation ends :: "'a action_op \<Rightarrow> bool" where
  "ends \<equiv> Exec_Monad.returns"

named_theorems ends_intros "operations that always end"

lemmas [ends_intros] = returns_sbind returns_scatch returns_basic

lemma ends_cases [ends_intros]:
  "(b \<Longrightarrow> ends m) \<Longrightarrow> (\<not> b \<Longrightarrow> ends m') \<Longrightarrow> ends (if b then m else m')"
  "ends n \<Longrightarrow> (\<And>x. ends (k x)) \<Longrightarrow> ends (case opt of None \<Rightarrow> n | Some x \<Rightarrow> k x)"
  "ends l \<Longrightarrow> (\<And>x xs. ends (j x xs)) \<Longrightarrow> ends (case list of [] \<Rightarrow> l | x # xs \<Rightarrow> j x xs)"
  "(\<And>x y. ends (g x y)) \<Longrightarrow> ends (case p of (x, y) \<Rightarrow> g x y)"
  by (simp_all split: option.split list.split prod.split)

lemma ends_smap: "(\<And>x. x \<in> set xs \<Longrightarrow> ends (f x)) \<Longrightarrow> ends (smap f xs)"
  by (induction xs) (auto intro!: ends_intros)

lemma ends_spawn [ends_intros]: "ends (spawn_with w cb shell script d env t)" "ends (spawn w shell script d env t)"
  by (auto simp: Exec_Monad.returns_def spawn_def spawn_with_def Let_def split: prod.splits)

lemma ends_system [ends_intros]: "ends (run_system aw cmd)"
  by (auto simp: Exec_Monad.returns_def run_system_def split: prod.splits)

lemma ends_log [ends_intros]: "ends (log_append l)" "ends (create_directories w d)"
  unfolding log_append_def create_directories_def by (intro ends_intros)+

lemma ends_files [ends_intros]:
  "ends (set_action_files f)" "ends (remove_all aw d)" "ends (path_exists aw p)" "ends (has_action_yml aw d)"
  unfolding set_action_files_def remove_all_def path_exists_def has_action_yml_def by (intro ends_intros)+

lemma ends_zip [ends_intros]: "ends (downloadViaZip w aw croot url dest)"
  unfolding downloadViaZip_def Let_def by (intro ends_intros)

lemma ends_fetch_loop [ends_intros]: "ends (fetch_loop w aw croot r dest bases)"
  by (induction bases) (unfold fetch_loop.simps fetch_from_def Let_def, (intro ends_intros; assumption)+)

lemma ends_resolve [ends_intros]: "ends (resolveActionDir w aw ar ref)"
  unfolding resolveActionDir_def fetchAction_def cachedPath_def Let_def by (intro ends_intros)

lemma ends_read [ends_intros]: "ends (action_file aw d)" "ends (read_action aw p)" "ends apply_changes" "ends read_outputs"
  unfolding action_file_def read_action_def apply_changes_def read_outputs_def by (intro ends_intros)+

lemma ends_attempt [ends_intros]: "ends m \<Longrightarrow> ends (attempt msg m)"
  unfolding attempt_def by (intro ends_intros)

lemma ends_find_node [ends_intros]: "ends (find_node aw)"
proof -
  have "ends (first_existing aw ps)" for ps
    by (induction ps) (unfold first_existing.simps, (intro ends_intros; assumption)+)
  then show ?thesis unfolding find_node_def by (intro ends_intros)
qed

lemma ends_enqueue [ends_intros]: "ends (enqueue_post aw ar q def dir node env)"
  unfolding enqueue_post_def Let_def by (intro ends_intros)

section \<open>Texts whose evaluation ends\<close>

definition text_ends :: "string \<Rightarrow> bool" where
  "text_ends t \<longleftrightarrow> (\<forall>ev. interpolate ev t \<noteq> None)"

definition plain_text :: "string \<Rightarrow> bool" where
  "plain_text t \<longleftrightarrow> \<not> sublist ''${{'' t"

lemma text_ends_plain: "plain_text t \<Longrightarrow> text_ends t"
  by (simp add: text_ends_def plain_text_def interpolate_plain)

lemma ends_lift: "(\<And>ev. m ev \<noteq> None) \<Longrightarrow> ends (slift (m ev))"
  by (auto simp: Exec_Monad.returns_def slift_def)

lemma ends_eval_text: "text_ends t \<Longrightarrow> ends (eval_text w ctx t)"
  unfolding eval_text_def text_ends_def by (intro ends_intros ends_lift) blast

text \<open>
  A step of a composite action.  The values given to a nested action are evaluated twice; they have to be
  texts without expressions.
\<close>

definition step_ends :: "step \<Rightarrow> bool" where
  "step_ends st \<longleftrightarrow> text_ends (step_run st) \<and> (\<forall>ev. evaluateCondition ev (step_if_condition st) \<noteq> None)
     \<and> (\<forall>(k, v) \<in> set (step_env st). text_ends v) \<and> (\<forall>(k, v) \<in> set (step_with st). plain_text v)"

definition action_ends :: "action_definition \<Rightarrow> bool" where
  "action_ends def \<longleftrightarrow> (\<forall>st \<in> set (ad_steps def). step_ends st)"

definition inputs_end :: "step \<Rightarrow> bool" where
  "inputs_end st \<longleftrightarrow> (\<forall>(k, v) \<in> set (step_with st). text_ends v)"

lemma inputs_end_get: "inputs_end st \<Longrightarrow> omap_get (step_with st) k = Some t \<Longrightarrow> text_ends t"
  unfolding inputs_end_def by (auto dest: omap_get_Some_in)

lemma ends_with_val: "inputs_end st \<Longrightarrow> ends (with_val w ctx st key d)"
  unfolding with_val_def by (auto intro!: ends_intros ends_eval_text dest: inputs_end_get split: option.split)

lemma ends_set_inputs: "inputs_end st \<Longrightarrow> ends (set_inputs w ctx st msg ins actx)"
proof (induction ins arbitrary: actx)
  case (Cons i ins)
  obtain n d where i: "i = (n, d)" by fastforce
  have "ends (case omap_get (step_with st) n of Some t \<Rightarrow> eval_text w ctx t | None \<Rightarrow> m)" if "ends m" for m
    using Cons.prems that by (auto intro!: ends_eval_text dest: inputs_end_get split: option.split)
  note given = this
  show ?case unfolding i set_inputs.simps by (intro returns_sbind given Cons ends_intros)
qed (simp add: ends_intros)

lemma ends_javascript: "inputs_end st \<Longrightarrow> ends (runJavaScript w aw ar q def st ctx base_env dir)"
  unfolding runJavaScript_def run_node_def js_inputs_def Let_def
  by (intro ends_intros ends_smap ends_with_val)

section \<open>Composite actions\<close>

lemma ends_eval_pairs: "(\<forall>(k, v) \<in> set kvs. text_ends v) \<Longrightarrow> ends (eval_pairs w ctx kvs)"
  unfolding eval_pairs_def by (auto intro!: ends_smap ends_intros ends_eval_text)

lemma ends_composite_run: "step_ends st \<Longrightarrow> ends (composite_run w ar st ctx base_env overall)"
  unfolding composite_run_def Let_def
  by (intro ends_intros ends_eval_text ends_eval_pairs) (simp_all add: step_ends_def)

text \<open>Texts without expressions are left as they are by the first evaluation.\<close>

lemma eval_plain_pairs:
  "(\<forall>(k, v) \<in> set kvs. plain_text v) \<Longrightarrow> eval_pairs w ctx kvs = sret kvs"
proof (induction kvs)
  case (Cons kv kvs)
  obtain k v where kv: "kv = (k, v)" by fastforce
  with Cons have "sbind (eval_text w ctx v) (\<lambda>v'. sret (k, v')) = sret (k, v)"
    by (intro ext) (simp add: eval_text_def sbind_def interpolate_plain plain_text_def)
  moreover have "smap (\<lambda>(k, v). sbind (eval_text w ctx v) (\<lambda>v'. sret (k, v'))) kvs = sret kvs"
  proof -
    have "\<forall>(k, v) \<in> set kvs. plain_text v" using Cons.prems by simp
    from Cons.IH [OF this] show ?thesis unfolding eval_pairs_def .
  qed
  ultimately show ?case unfolding kv eval_pairs_def smap.simps prod.case by (simp only: sbind_return)
next
  case Nil
  show ?case unfolding eval_pairs_def smap.simps ..
qed

lemma ends_sbind_value: "m s \<noteq> None \<Longrightarrow> (\<And>x s'. m s = Some (EOk x, s') \<Longrightarrow> k x s' \<noteq> None) \<Longrightarrow> sbind m k s \<noteq> None"
  by (auto simp: sbind_def split: option.splits prod.splits eres.splits)

lemma ends_composite_uses:
  assumes "step_ends st" "\<And>st c b. inputs_end st \<Longrightarrow> ends (nested st c b)"
  shows "ends (composite_uses nested w st ctx base_env overall)"
proof -
  have plain: "\<forall>(k, v) \<in> set (step_with st). plain_text v" and env: "\<forall>(k, v) \<in> set (step_env st). text_ends v"
    using assms(1) by (simp_all add: step_ends_def)
  from plain have "inputs_end (st\<lparr>step_with := step_with st\<rparr>)" by (auto simp: inputs_end_def text_ends_plain)
  with env show ?thesis
    unfolding composite_uses_def eval_plain_pairs [OF plain] sbind_return Let_def
    by (intro ends_intros ends_eval_pairs assms(2)) simp_all
qed

lemma ends_composite_step:
  assumes "step_ends st" "\<And>st c b. inputs_end st \<Longrightarrow> ends (nested st c b)"
  shows "ends (composite_step nested w ar ctx base_env st overall)"
proof -
  have "ends (eval_condition w ctx (step_if_condition st))"
    unfolding eval_condition_def using assms(1) by (intro ends_intros ends_lift) (simp add: step_ends_def)
  then show ?thesis
    unfolding composite_step_def
    by (intro ends_intros ends_composite_uses ends_composite_run assms)
qed

lemma ends_loop: "(\<And>st r. st \<in> set sts \<Longrightarrow> ends (body st r)) \<Longrightarrow> ends (composite_loop body sts overall)"
proof (induction sts arbitrary: overall)
  case (Cons st sts)
  have "ends (composite_loop body sts r)" for r by (rule Cons.IH) (simp add: Cons.prems)
  then show ?case unfolding composite_loop.simps by (intro ends_intros) (simp_all add: Cons.prems)
qed (simp add: ends_intros)

text \<open>The actions a reader can find are those whose texts end.\<close>

definition readable_actions_end :: "action_world \<Rightarrow> bool" where
  "readable_actions_end aw \<longleftrightarrow> (\<forall>path fs def. parseActionYaml (aw_yaml aw) path fs = Inr def \<longrightarrow> action_ends def)"

lemma read_action_ends:
  assumes "readable_actions_end aw" "\<And>def. action_ends def \<Longrightarrow> ends (k def)" "ends n"
  shows "ends (sbind (attempt msg (read_action aw path)) (\<lambda>def. case def of None \<Rightarrow> n | Some def \<Rightarrow> k def))"
  unfolding Exec_Monad.returns_def
proof (rule allI, rule ends_sbind_value)
  fix s
  show "attempt msg (read_action aw path) s \<noteq> None"
    using ends_attempt [OF ends_read(2)] unfolding Exec_Monad.returns_def by blast
next
  fix s x s'
  assume a: "attempt msg (read_action aw path) s = Some (EOk x, s')"
  show "(case x of None \<Rightarrow> n | Some def \<Rightarrow> k def) s' \<noteq> None"
  proof (cases x)
    case None
    with assms(3) show ?thesis by (simp add: Exec_Monad.returns_def)
  next
    case (Some def)
    with a have "parseActionYaml (aw_yaml aw) path (x_files s) = Inr def"
      by (cases "parseActionYaml (aw_yaml aw) path (x_files s)")
        (auto simp: attempt_def scatch_def sbind_def read_action_def log_append_def)
    with assms(1) have "action_ends def" unfolding readable_actions_end_def by blast
    from assms(2) [OF this] Some show ?thesis by (simp add: Exec_Monad.returns_def)
  qed
qed

lemma ends_action_type [ends_intros]:
  "ends a1 \<Longrightarrow> ends a2 \<Longrightarrow> ends a3 \<Longrightarrow> ends a4 \<Longrightarrow>
     ends (case ty of Composite \<Rightarrow> a1 | JavaScript \<Rightarrow> a2 | DockerAction \<Rightarrow> a3 | Unknown_action \<Rightarrow> a4)"
  by (simp split: action_type.split)

lemma ends_recursive:
  assumes "readable_actions_end aw" "inputs_end st" "\<And>def c b. action_ends def \<Longrightarrow> ends (composite def c b)"
  shows "ends (runRecursive composite w aw ar st ctx base_env)"
  unfolding runRecursive_def
  by (intro ends_intros read_action_ends assms(1) ends_set_inputs ends_javascript assms(2,3); assumption)

lemma ends_composite:
  assumes "readable_actions_end aw"
  shows "action_ends def \<Longrightarrow> ends (runComposite w aw ar depth def ctx base_env)"
  using assms
proof (induction w aw ar depth arbitrary: def ctx base_env rule: runComposite.induct)
  case (1 w aw ar depth)
  show ?case
  proof (cases "max_depth < depth")
    case True
    then show ?thesis by (subst runComposite.simps) (simp add: ends_intros)
  next
    case False
    with 1 have "ends (runComposite w aw ar (depth + 1) d c b)" if "action_ends d" for d c b using that by blast
    then have nested: "ends (runRecursive (runComposite w aw ar (depth + 1)) w aw ar st c b)" if "inputs_end st" for st c b
      using 1(3) that by (intro ends_recursive)
    have "ends (composite_step (runRecursive (runComposite w aw ar (depth + 1)) w aw ar) w ar ctx base_env st r)"
      if "st \<in> set (ad_steps def)" for st r
      using 1(2) that nested unfolding action_ends_def by (intro ends_composite_step) auto
    with False show ?thesis by (subst runComposite.simps) (simp add: ends_loop)
  qed
qed

section \<open>Checkout\<close>

lemma github_path:
  assumes "f \<in> {''repository'', ''ref'', ''token'', ''server_url''}"
  shows "interpolate ev (''${{ github.'' @ f @ '' }}'') = Some (EOk (toString (ctx_get (ev_ctx ev) (''github.'' @ f))))"
proof -
  have t: "tokenize (''github.'' @ f) = EOk [Identifier ''github'', Dot, Identifier f, Eof]"
    using assms by (auto simp: tokenize.simps is_space_def is_quote_def starts_number_def is_digit_def two_char_op_def
      one_char_op_def isIdentStart_def isIdentChar_def is_alnum_def is_alpha_def ascii_def keyword_def)
  have trim: "trim ('' '' @ ''github.'' @ f @ '' '') = ''github.'' @ f"
    using assms by (auto simp: trim_def is_space_def ascii_def)
  have "split_close ('' github.'' @ f @ '' }}'') = ('' github.'' @ f @ '' '', [])"
    using assms by (auto simp: split_close_def starts_with_def)
  moreover have "evaluateExpr ev ('' github.'' @ f @ '' '') = Some (EOk (ctx_get (ev_ctx ev) (''github.'' @ f)))"
    using t trim assms by (auto simp: evaluateExpr_def parse.simps)
  ultimately show ?thesis by simp
qed

lemma github_paths:
  "interpolate ev ''${{ github.repository }}'' = Some (EOk (toString (ctx_get (ev_ctx ev) ''github.repository'')))"
  "interpolate ev ''${{ github.ref }}'' = Some (EOk (toString (ctx_get (ev_ctx ev) ''github.ref'')))"
  "interpolate ev ''${{ github.token }}'' = Some (EOk (toString (ctx_get (ev_ctx ev) ''github.token'')))"
  "interpolate ev ''${{ github.server_url }}'' = Some (EOk (toString (ctx_get (ev_ctx ev) ''github.server_url'')))"
  using github_path [of "''repository''" ev] github_path [of "''ref''" ev] github_path [of "''token''" ev]
    github_path [of "''server_url''" ev]
  by (simp_all del: interpolate.simps)

lemma github_path_ends:
  "text_ends ''${{ github.repository }}''" "text_ends ''${{ github.ref }}''" "text_ends ''${{ github.token }}''"
  "text_ends ''${{ github.server_url }}''"
  by (simp_all add: text_ends_def github_paths del: interpolate.simps)

lemma ends_checkout: "inputs_end st \<Longrightarrow> ends (checkout w aw ar st ctx)"
  unfolding checkout_def plan_checkout_def checkout_clone_def with_expr_def Let_def
  by (intro ends_intros ends_with_val ends_eval_text github_path_ends)

lemma ends_run_definition:
  "readable_actions_end aw \<Longrightarrow> inputs_end st \<Longrightarrow> ends (run_definition w aw ar st ctx base_env)"
  unfolding run_definition_def
  by (intro ends_intros read_action_ends ends_set_inputs ends_javascript ends_composite)

section \<open>Every action ends\<close>



lemma attempt_value: "m s = Some (EOk x, s') \<Longrightarrow> attempt msg m s = Some (EOk (Some x), s')"
  by (simp add: attempt_def scatch_def sbind_value)

lemma local_action:
  assumes "starts_with ref ''./''" "dir = path_join (ar_workspace ar) (drop 2 ref)"
    "x_files s (path_join dir ''action.yml'') = Some text"
    "parseActionYaml (aw_yaml aw) (path_join dir ''action.yml'') (x_files s) = Inr def"
  shows "attempt msg (resolveActionDir w aw ar ref) s = Some (EOk (Some dir), s)"
    "action_file aw dir s = Some (EOk (path_join dir ''action.yml''), s)"
    "path_exists aw (path_join dir ''action.yml'') s = Some (EOk True, s)"
    "attempt msg (read_action aw (path_join dir ''action.yml'')) s = Some (EOk (Some def), s)"
proof -
  have "has_action_yml aw dir s = Some (EOk True, s)"
    using assms(3) by (simp add: has_action_yml_def path_exists_def)
  then show "attempt msg (resolveActionDir w aw ar ref) s = Some (EOk (Some dir), s)"
    using assms(1,2) by (intro attempt_value) (simp add: resolveActionDir_def Let_def sbind_value)
  show "attempt msg (read_action aw (path_join dir ''action.yml'')) s = Some (EOk (Some def), s)"
    using assms(4) by (intro attempt_value) (simp add: read_action_def)
qed (use assms(3) in \<open>simp_all add: action_file_def path_exists_def\<close>)

lemma self_reference_depth:
  assumes "starts_with ref ''./''" "dir = path_join (ar_workspace ar) (drop 2 ref)"
    "x_files s (path_join dir ''action.yml'') = Some text"
    "parseActionYaml (aw_yaml aw) (path_join dir ''action.yml'') (x_files s) = Inr def"
    "ad_type def = Composite" "ad_inputs def = []" "ad_steps def = [default_step\<lparr>step_id := i, step_uses := ref\<rparr>]"
    "depth \<le> max_depth + 1"
  shows "runComposite w aw ar depth def ctx base_env s = Some (EOk failed_action, s\<lparr>x_log := x_log s @ [depth_message]\<rparr>)"
  using assms(8)
proof (induction "nat (max_depth + 1 - depth)" arbitrary: depth ctx base_env)
  case 0
  then show ?case by (subst runComposite.simps) (simp add: log_append_def)
next
  case (Suc n)
  let ?st = "default_step\<lparr>step_id := i, step_uses := ref\<rparr>"
  have "ref \<noteq> []" using assms(1) by (auto simp: starts_with_def)
  have uses: "step_uses ?st = ref" "?st\<lparr>step_with := []\<rparr> = ?st" by (simp_all add: default_step_def)
  have rec: "runRecursive (runComposite w aw ar (depth + 1)) w aw ar ?st c b s = runComposite w aw ar (depth + 1) def c b s" for c b
    unfolding runRecursive_def uses by (simp add: local_action [OF assms(1-4)] sbind_value assms(5,6))
  have "n = nat (max_depth + 1 - (depth + 1))" "depth + 1 \<le> max_depth + 1" using Suc(2,3) by linarith+
  from Suc(1) [OF this] have l: "runRecursive (runComposite w aw ar (depth + 1)) w aw ar ?st ctx
      (base_env @ currentEnv (sw_getenv_path w) (x_em s)) s = Some (EOk failed_action, s\<lparr>x_log := x_log s @ [depth_message]\<rparr>)"
    unfolding rec .
  have "composite_step (runRecursive (runComposite w aw ar (depth + 1)) w aw ar) w ar ctx base_env ?st done_action s
      = Some (EOk (failed_action, True), s\<lparr>x_log := x_log s @ [depth_message]\<rparr>)"
    using l \<open>ref \<noteq> []\<close>
    by (simp add: composite_step_def composite_uses_def default_step_def eval_pairs_def sbind_def failed_action_def done_action_def
        add_outputs_def insert_new_def with_failure_def)
  moreover have "\<not> max_depth < depth" using Suc(2) by linarith
  ultimately show ?case by (subst runComposite.simps) (simp add: assms(7) sbind_def)
qed



end
