(* ===== verification/Action_Javascript.thy ===== *)
theory Action_Javascript
  imports Action_Termination
begin

text \<open>
  A JavaScript action: the process it runs, the inputs that process sees and the script it defers.
\<close>

lemma node_found:
  "x_files s ''/bin/node'' \<noteq> None \<Longrightarrow> find_node aw s = Some (EOk ''/bin/node'', s)"
  by (simp add: find_node_def node_candidates_def path_exists_def sbind_def)

text \<open>Values without expressions reach the process as they are written.\<close>

definition input_value :: "step \<Rightarrow> string \<times> action_input \<Rightarrow> string" where
  "input_value st i = (case omap_get (step_with st) (fst i) of Some t \<Rightarrow> t | None \<Rightarrow> ai_default (snd i))"

definition input_name :: "string \<times> action_input \<Rightarrow> string" where
  "input_name i = ''INPUT_'' @ to_upper (fst i)"

lemma js_inputs_plain:
  assumes "\<forall>(k, v) \<in> set (step_with st). plain_text v"
  shows "js_inputs w ctx st ins s = Some (EOk (map (\<lambda>i. (input_name i, input_value st i)) ins), s)"
proof (induction ins)
  case (Cons i ins)
  obtain n d where i: "i = (n, d)" by fastforce
  have "with_val w ctx st n (ai_default d) s = Some (EOk (input_value st i), s)"
  proof (cases "omap_get (step_with st) n")
    case (Some t)
    then have "plain_text t" using assms by (auto dest: omap_get_Some_in)
    with Some show ?thesis
      by (simp add: with_val_def eval_text_def interpolate_plain plain_text_def input_value_def i)
  qed (simp add: with_val_def input_value_def i)
  with Cons i show ?case by (simp add: js_inputs_def sbind_value input_name_def)
qed (simp add: js_inputs_def)

text \<open>What running the main script does, after its inputs are known.\<close>

lemma run_node_result:
  assumes "run_node w aw ar True def st ctx base_env dir node_bin main_path s = Some (EOk r, s')"
    "js_inputs w ctx st (ad_inputs def) s = Some (EOk ins, s)"
  obtains req where "x_procs s' = x_procs s @ [req]"
    "sp_argv req = build_argv (sw_platform w) node_bin main_path (ar_workspace ar)"
    "sp_env req = buildEnv (sw_environ w) (base_env @ ins @ currentEnv (sw_getenv_path w) (x_em s)) []"
    "act_success r \<longleftrightarrow> act_exit_code r = 0"
    "x_posts s' = x_posts s @ (if ad_post_script def \<noteq> [] \<and> (x_files s' (path_join dir (ad_post_script def)) \<noteq> None
         \<or> aw_is_dir aw (path_join dir (ad_post_script def)) (x_files s'))
       then [\<lparr>ps_node_bin = node_bin, ps_script_path = path_join dir (ad_post_script def),
              ps_working_dir = ar_workspace ar, ps_env = sp_env req\<rparr>] else [])"
proof -
  let ?env = "buildEnv (sw_environ w) (base_env @ ins @ currentEnv (sw_getenv_path w) (x_em s)) []"
  obtain t proc s1 where t: "mul_int (step_timeout_minutes st) 60 = EOk t"
    and proc: "spawn w node_bin main_path (ar_workspace ar) ?env t s = Some (EOk proc, s1)"
    and rest: "sbind apply_changes (\<lambda>_. sbind read_outputs (\<lambda>outs.
       sbind (smod (\<lambda>s. s\<lparr>x_files := resetBetweenSteps (x_em s) (x_files s)\<rparr>)) (\<lambda>_.
       sbind (enqueue_post aw ar True def dir node_bin ?env) (\<lambda>_.
       sret \<lparr>act_success = (exit_code proc = 0), act_exit_code = exit_code proc, act_outputs = outs\<rparr>)))) s1 = Some (EOk r, s')"
    using assms(1) unfolding run_node_def sbind_value [of "js_inputs w ctx st (ad_inputs def)" s, OF assms(2)] by (auto simp: sbind_EOk slift_def)
  have s1: "x_procs s1 = x_procs s @ [\<lparr>sp_argv = build_argv (sw_platform w) node_bin main_path (ar_workspace ar),
      sp_env = ?env, sp_timeout = t\<rparr>]" "x_posts s1 = x_posts s"
    using proc by (auto simp: spawn_def spawn_with_def Let_def split: prod.splits)
  show ?thesis
  proof (rule that)
    show "x_procs s' = x_procs s @ [\<lparr>sp_argv = build_argv (sw_platform w) node_bin main_path (ar_workspace ar),
        sp_env = ?env, sp_timeout = t\<rparr>]"
      using rest s1(1) by (auto simp: apply_changes_def read_outputs_def enqueue_post_def path_exists_def sbind_EOk
          smod_def sget_def Let_def split: if_splits)
  qed (use rest s1(2) in \<open>auto simp: apply_changes_def read_outputs_def enqueue_post_def path_exists_def sbind_EOk
          smod_def sget_def Let_def split: if_splits\<close>)
qed

section \<open>What the process sees\<close>

lemma to_upper_no_equals: "CHR ''='' \<notin> set k \<Longrightarrow> CHR ''='' \<notin> set (to_upper k)"
proof -
  have "c = CHR ''=''" if u: "to_upper_char c = CHR ''=''" for c
  proof (rule ccontr)
    assume "c \<noteq> CHR ''=''"
    with u have r: "97 \<le> ascii c" "ascii c \<le> 122" "char_of (ascii c - 32) = CHR ''=''"
      by (auto simp: to_upper_char_def split: if_splits)
    then have "ascii c - 32 = ascii (CHR ''='')" by (metis ascii_char_of ascii_less less_imp_diff_less)
    with r(1) show False by (simp add: ascii_def)
  qed
  then have "to_upper_char c \<noteq> CHR ''=''" if "CHR ''='' \<notin> set k" "c \<in> set k" for c using that by metis
  moreover assume "CHR ''='' \<notin> set k"
  ultimately have "\<forall>c \<in> set k. CHR ''='' \<noteq> to_upper_char c" by metis
  then show ?thesis unfolding to_upper_def set_map by blast
qed

lemma input_name_no_equals: "CHR ''='' \<notin> set (fst i) \<Longrightarrow> CHR ''='' \<notin> set (input_name i)"
  using to_upper_no_equals [of "fst i"] by (simp add: input_name_def)

text \<open>An input is in the environment of the process unless the environment manager sets the same name.\<close>

lemma input_in_environment:
  assumes "\<forall>(k, v) \<in> set (base_env @ env_overrides em). CHR ''='' \<notin> set k" "\<forall>i \<in> set ins. CHR ''='' \<notin> set (fst i)"
    "distinct (map input_name ins)" "i \<in> set ins" "input_name i \<notin> fst ` set (currentEnv getenv_path em)"
  shows "env_lookup (buildEnv environ (base_env @ map (\<lambda>i. (input_name i, input_value st i)) ins @ currentEnv getenv_path em) [])
    (input_name i) = Some (input_value st i)"
proof -
  let ?ins = "map (\<lambda>i. (input_name i, input_value st i)) ins"
  have cur: "map_of (rev (currentEnv getenv_path em)) (input_name i) = None"
    using assms(5) by (simp add: map_of_eq_None_iff)
  have "distinct (map fst (rev ?ins))" using assms(3) by (simp add: comp_def rev_map [symmetric])
  moreover have "(input_name i, input_value st i) \<in> set (rev ?ins)" using assms(4) by auto
  ultimately have ins: "map_of (rev ?ins) (input_name i) = Some (input_value st i)" by (rule map_of_is_SomeI)
  have "\<forall>(k, v) \<in> set (currentEnv getenv_path em). CHR ''='' \<notin> set k" using assms(1) by (intro currentEnv_names) auto
  moreover have "\<forall>(k, v) \<in> set ?ins. CHR ''='' \<notin> set k" using assms(2) by (auto simp: input_name_no_equals)
  ultimately have "\<forall>(k, v) \<in> set (base_env @ ?ins @ currentEnv getenv_path em). CHR ''='' \<notin> set k" using assms(1) by auto
  moreover have "CHR ''='' \<notin> set (input_name i)" using assms(2,4) by (simp add: input_name_no_equals)
  ultimately show ?thesis
    using buildEnv_lookup [of "base_env @ ?ins @ currentEnv getenv_path em" "[]" "input_name i" environ] cur ins
    by (simp add: map_add_def)
qed


lemma enqueue_post_ends:
  "\<exists>s'. enqueue_post aw ar q def dir node env s = Some (EOk (), s') \<and> x_files s' = x_files s"
  by (cases "x_files s (path_join dir (ad_post_script def)) \<noteq> None \<or> aw_is_dir aw (path_join dir (ad_post_script def)) (x_files s)")
    (auto simp: enqueue_post_def path_exists_def Let_def sbind_def)

lemma run_node_ends:
  assumes "js_inputs w ctx st (ad_inputs def) s = Some (EOk ins, s)" "mul_int (step_timeout_minutes st) 60 = EOk t"
    "\<And>env. \<exists>proc s1. spawn w node_bin main_path (ar_workspace ar) env t s = Some (EOk proc, s1)
       \<and> x_files s1 = x_files s \<and> workspace_dir (x_em s1) = workspace_dir (x_em s)"
  shows "\<exists>r s'. run_node w aw ar q def st ctx base_env dir node_bin main_path s = Some (EOk r, s')
    \<and> x_files s' = resetBetweenSteps (x_em s) (x_files s)"
proof -
  let ?env = "buildEnv (sw_environ w) (base_env @ ins @ currentEnv (sw_getenv_path w) (x_em s)) []"
  obtain proc s1 where spawn: "spawn w node_bin main_path (ar_workspace ar) ?env t s = Some (EOk proc, s1)"
    and s1: "x_files s1 = x_files s" "workspace_dir (x_em s1) = workspace_dir (x_em s)" using assms(3) by blast
  have "resetBetweenSteps (applyPathChanges fs (applyEnvChanges fs (x_em s1))) (x_files s1) = resetBetweenSteps (x_em s) (x_files s)" for fs
    by (simp add: resetBetweenSteps_def githubSummaryPath_def githubOutputPath_def applyPathChanges_def applyEnvChanges_def s1)
  note reset = this
  define s2 where "s2 = s1\<lparr>x_em := applyPathChanges (x_files s1) (applyEnvChanges (x_files s1) (x_em s1)),
    x_files := resetBetweenSteps (x_em s) (x_files s)\<rparr>"
  obtain s3 where "enqueue_post aw ar q def dir node_bin ?env s2 = Some (EOk (), s3)" "x_files s3 = x_files s2"
    using enqueue_post_ends by blast
  then show ?thesis
    by (simp add: run_node_def sbind_value [of "js_inputs w ctx st (ad_inputs def)" s, OF assms(1)] assms(2)
        sbind_value [of "spawn w node_bin main_path (ar_workspace ar) ?env t" s, OF spawn] apply_changes_def read_outputs_def
        reset s2_def sbind_value)
qed

definition js_files :: files where
  "js_files = [''/bin/node'' \<mapsto> [], ''/a/m.js'' \<mapsto> [], ''/a/p.js'' \<mapsto> []]"

definition js_definition :: action_definition where
  "js_definition = new_action_definition\<lparr>ad_type := JavaScript, ad_main_script := ''m.js'', ad_post_script := ''p.js'',
     ad_inputs := [(''who'', \<lparr>ai_name = ''who'', ai_description = [], ai_default = ''you'', ai_required = False\<rparr>)]\<rparr>"


end
