(* ===== verification/Action_Checkout.thy ===== *)
theory Action_Checkout
  imports Action_Termination
begin

text \<open>
  What a failing \<^verbatim>\<open>git\<close> leaves: a checkout whose availability check fails, and a fetch of an action that finds
  nothing.
\<close>

section \<open>Checkout\<close>

lemma eval_text_reads: "eval_text w ctx t s = Some (r, s') \<Longrightarrow> s' = s"
  by (auto simp: eval_text_def slift_def)

lemma with_val_reads: "with_val w ctx st key d s = Some (r, s') \<Longrightarrow> s' = s"
  by (auto simp: with_val_def dest: eval_text_reads split: option.splits)

lemma reads_sbind:
  assumes "sbind m k s = Some (r, s')" "\<And>r s'. m s = Some (r, s') \<Longrightarrow> s' = s" "\<And>x r s'. k x s = Some (r, s') \<Longrightarrow> s' = s"
  shows "s' = s"
  using assms(1) by (cases rule: sbindE) (use assms(2,3) in blast)+

lemma plan_checkout_reads: "plan_checkout w ar st ctx s = Some (r, s') \<Longrightarrow> s' = s"
  unfolding plan_checkout_def with_expr_def
  by (erule reads_sbind, (erule reads_sbind | erule eval_text_reads | erule with_val_reads | assumption)+)+ simp

definition git_check :: "step_world \<Rightarrow> checkout_plan \<Rightarrow> spawn_request" where
  "git_check w co = \<lparr>sp_argv = build_argv (sw_platform w) ''/bin/sh'' ''git --version'' (co_dest co), sp_env = git_env w,
     sp_timeout = 5\<rparr>"

lemma git_check_argv:
  "co_dest co \<noteq> [] \<Longrightarrow> sp_argv (git_check w co) = [''/bin/sh'', ''-c'', ''cd '' @ co_dest co @ '' && git --version'']"
  by (simp add: git_check_def build_argv_def is_file_def)

lemma failed_check:
  assumes "check (s\<lparr>x_log := x_log s @ [a, b]\<rparr>)
      = Some (EOk proc, s\<lparr>x_log := x_log s @ [a, b], x_procs := x_procs s @ [req], x_files := fs\<rparr>)" "exit_code proc \<noteq> 0"
  shows "\<exists>lines. sbind (log_append a) (\<lambda>_. sbind (log_append b) (\<lambda>_. sbind check (\<lambda>p.
      if exit_code p \<noteq> 0 then sbind (log_append c) (\<lambda>_. sbind (log_append d) (\<lambda>_. sret r)) else k))) s
    = Some (EOk r, s\<lparr>x_log := x_log s @ lines, x_procs := x_procs s @ [req], x_files := fs\<rparr>)"
  using assms(2) by (intro exI [of _ "[a, b, c, d]"]) (simp add: log_append_def sbind_value [of check "s\<lparr>x_log := x_log s @ [a, b]\<rparr>", OF assms(1)])

text \<open>
  A checkout whose check for \<^verbatim>\<open>git\<close> ends with a status other than zero succeeds without running anything
  else.  The check changes to the destination first, which is created only after it: where the destination
  directory is missing the shell fails before \<^verbatim>\<open>git\<close> is tried, and the sources are not checked out.
\<close>

theorem checkout_skipped:
  assumes "plan_checkout w ar st ctx s = Some (EOk co, s1)" "co_dest co \<noteq> []" "0 < n"
    "sw_os w (x_procs s) (git_check w co) (x_files s) = (Child_ended (Exited n) out err sched, fs)"
  shows "\<exists>req lines. checkout w aw ar st ctx s =
      Some (EOk done_action, s\<lparr>x_log := x_log s @ lines, x_procs := x_procs s @ [req], x_files := fs\<rparr>)
    \<and> sp_argv req = [''/bin/sh'', ''-c'', ''cd '' @ co_dest co @ '' && git --version'']"
proof -
  have s1: "s1 = s" by (rule plan_checkout_reads [OF assms(1)])
  let ?a = "''##[group]Checkout '' @ co_repo co @ (if co_ref co = [] then [] else '' @ '' @ co_ref co)"
  let ?b = "''Cloning '' @ co_repo co @ '' into '' @ co_dest co"
  have "concat (map no_lines xs) = []" for xs by (induction xs) (simp_all add: no_lines_def)
  then have check: "spawn_with w no_lines ''/bin/sh'' ''git --version'' (co_dest co) (git_env w) 5 (s\<lparr>x_log := x_log s @ [?a, ?b]\<rparr>)
      = Some (EOk (decode_status (Exited n)), s\<lparr>x_log := x_log s @ [?a, ?b], x_procs := x_procs s @ [git_check w co], x_files := fs\<rparr>)"
    using assms(4) by (simp add: spawn_with_def git_check_def spawn_run_def)
  have "exit_code (decode_status (Exited n)) \<noteq> 0" using assms(3) by (simp add: new_process_result_def)
  from failed_check [of "spawn_with w no_lines ''/bin/sh'' ''git --version'' (co_dest co) (git_env w) 5" s ?a ?b, OF check this]
  have "\<exists>lines. checkout w aw ar st ctx s =
      Some (EOk done_action, s\<lparr>x_log := x_log s @ lines, x_procs := x_procs s @ [git_check w co], x_files := fs\<rparr>)"
    unfolding checkout_def sbind_value [of "plan_checkout w ar st ctx" s, OF assms(1)] s1 .
  with git_check_argv [OF assms(2), of w] show ?thesis by blast
qed

text \<open>A shell that cannot change into a missing directory.\<close>

definition no_directory_world :: step_world where
  "no_directory_world = demo_step_world\<lparr>sw_os := (\<lambda>_ _ fs. (Child_ended (Exited 2) [] [''cd: no such directory''] [], fs))\<rparr>"

definition checkout_step :: step where
  "checkout_step = default_step\<lparr>step_uses := ''actions/checkout@v4'', step_with := [(''path'', ''sub''), (''repository'', ''o/r'')]\<rparr>"

lemma plan_checkout_demo:
  "\<exists>co. plan_checkout no_directory_world demo_action_runner checkout_step [] s = Some (EOk co, s) \<and> co_dest co = ''/w/sub''"
proof -
  have "interpolate ev ''o/r'' = Some (EOk ''o/r'')" for ev by (rule interpolate_plain) (simp add: sublist_Cons_right)
  moreover have "interpolate ev ''sub'' = Some (EOk ''sub'')" for ev by (rule interpolate_plain) (simp add: sublist_Cons_right)
  ultimately show ?thesis
    by (simp add: plan_checkout_def with_expr_def with_val_def eval_text_def github_paths sbind_def checkout_step_def default_step_def
        omap_get_def demo_action_runner_def new_action_runner_def path_join_def starts_with_def del: interpolate.simps)
qed

theorem checkout_skipped_witness:
  "\<exists>s'. checkout no_directory_world (demo_action_world) demo_action_runner checkout_step [] demo_exec_state = Some (EOk done_action, s')
     \<and> map sp_argv (x_procs s') = [[''/bin/sh'', ''-c'', ''cd /w/sub && git --version'']]"
proof -
  obtain co where co: "plan_checkout no_directory_world demo_action_runner checkout_step [] demo_exec_state = Some (EOk co, demo_exec_state)"
    and dest: "co_dest co = ''/w/sub''" using plan_checkout_demo by blast
  have "co_dest co \<noteq> []" "(0::nat) < 2" using dest by simp_all
  moreover have "sw_os no_directory_world (x_procs demo_exec_state) (git_check no_directory_world co) (x_files demo_exec_state)
      = (Child_ended (Exited 2) [] [''cd: no such directory''] [], x_files demo_exec_state)"
    by (simp add: no_directory_world_def)
  ultimately obtain req lines where "checkout no_directory_world demo_action_world demo_action_runner checkout_step [] demo_exec_state =
      Some (EOk done_action, demo_exec_state\<lparr>x_log := x_log demo_exec_state @ lines,
        x_procs := x_procs demo_exec_state @ [req], x_files := x_files demo_exec_state\<rparr>)"
    "sp_argv req = [''/bin/sh'', ''-c'', ''cd '' @ co_dest co @ '' && git --version'']"
    using checkout_skipped [OF co] by blast
  then show ?thesis by (simp add: dest demo_exec_state_def)
qed

section \<open>A fetch that fails\<close>

definition clean :: "string \<Rightarrow> files \<Rightarrow> bool" where
  "clean d fs \<longleftrightarrow> (\<forall>p. p = d \<or> starts_with p (d @ ''/'') \<longrightarrow> fs p = None)"

lemma remove_all_cleans:
  assumes "remove_all aw d s = Some (r, s')" "\<And>p. \<not> aw_survives aw d p"
  shows "clean d (x_files s')"
  using assms by (auto simp: remove_all_def set_action_files_def clean_def)

lemma fetch_from_cleans:
  assumes "fetch_from w aw croot r dest base s = Some (EOk False, s')" "\<And>p. \<not> aw_survives aw dest p"
  shows "clean dest (x_files s')"
proof -
  from assms(1) obtain s1 where "remove_all aw dest s1 = Some (EOk (), s')"
    unfolding fetch_from_def Let_def by (auto simp: sbind_EOk split: if_splits)
  then show ?thesis using assms(2) by (rule remove_all_cleans)
qed

lemma fetch_loop_cleans:
  assumes "fetch_loop w aw croot r dest bases s = Some (EOk False, s')" "bases \<noteq> []" "\<And>p. \<not> aw_survives aw dest p"
  shows "clean dest (x_files s')"
  using assms(1,2)
proof (induction bases arbitrary: s)
  case (Cons base bases)
  then obtain s1 where base: "fetch_from w aw croot r dest base s = Some (EOk False, s1)"
    and rest: "fetch_loop w aw croot r dest bases s1 = Some (EOk False, s')"
    by (auto simp: sbind_EOk split: if_splits)
  show ?case
  proof (cases "bases = []")
    case True
    with rest have "s' = s1" by simp
    with fetch_from_cleans [OF base assms(3)] show ?thesis by simp
  qed (rule Cons.IH [OF rest])
qed simp


text \<open>A world in which every command fails.\<close>

definition offline_world :: action_world where
  "offline_world = demo_action_world\<lparr>aw_system := (\<lambda>_ fs. (1, fs))\<rparr>"

lemma offline_fetch:
  "\<exists>s'. fetch_from w offline_world croot r dest base s = Some (EOk False, s')"
proof -
  have run: "run_system offline_world cmd s = Some (EOk 1, s)" for cmd s
    by (simp add: run_system_def offline_world_def demo_action_world_def)
  have zip: "downloadViaZip w offline_world croot url dest s = Some (EOk False, s)" for url dest s
    by (simp add: downloadViaZip_def sbind_def run)
  define gone :: "exec_state \<Rightarrow> exec_state" where "gone = (\<lambda>s. s\<lparr>x_files := (\<lambda>p. if (p = dest \<or> starts_with p (dest @ ''/'')) \<and> \<not> aw_survives offline_world dest p
    then None else x_files s p)\<rparr>)"
  have "remove_all offline_world dest s = Some (EOk (), gone s)" for s
    by (simp add: remove_all_def set_action_files_def gone_def)
  then show ?thesis unfolding fetch_from_def Let_def by (simp add: sbind_def run zip)
qed


end
