(* ===== verification/Logger.thy ===== *)
theory Logger
  imports Prelude "HOL-Library.Word"
begin

text \<open>
  \<^verbatim>\<open>src/src/util/Logger.cpp\<close>: levels, the line of a message and the filter in front of it.  The logger is a
  state with the lines written to the error stream; each call is one step under the mutex.
\<close>

section \<open>Levels\<close>

datatype log_level = Debug | Info | Warn | Error | Fatal

fun level_number :: "log_level \<Rightarrow> nat" where
  "level_number Debug = 0"
| "level_number Info = 1"
| "level_number Warn = 2"
| "level_number Error = 3"
| "level_number Fatal = 4"

lemma level_number_inject: "level_number a = level_number b \<Longrightarrow> a = b"
  by (cases a; cases b) simp_all

instantiation log_level :: linorder
begin

definition less_eq_log_level :: "log_level \<Rightarrow> log_level \<Rightarrow> bool" where
  "less_eq_log_level a b \<longleftrightarrow> level_number a \<le> level_number b"

definition less_log_level :: "log_level \<Rightarrow> log_level \<Rightarrow> bool" where
  "less_log_level a b \<longleftrightarrow> level_number a < level_number b"

instance
  by standard (auto simp: less_eq_log_level_def less_log_level_def intro: level_number_inject)

end

definition levelStr :: "log_level \<Rightarrow> string" where
  "levelStr l = (case l of Debug \<Rightarrow> ''DBG'' | Info \<Rightarrow> ''INF'' | Warn \<Rightarrow> ''WRN'' | Error \<Rightarrow> ''ERR'' | Fatal \<Rightarrow> ''FTL'')"

definition ansi :: "string \<Rightarrow> string" where
  "ansi code = CHR 0x1B # ''['' @ code @ ''m''"

definition levelColour :: "log_level \<Rightarrow> string" where
  "levelColour l =
     ansi (case l of Debug \<Rightarrow> ''36'' | Info \<Rightarrow> ''32'' | Warn \<Rightarrow> ''33'' | Error \<Rightarrow> ''31'' | Fatal \<Rightarrow> ''35'')"

section \<open>The line of a message\<close>

text \<open>The broken-down time of \<^verbatim>\<open>gmtime_r\<close>, in the numbers \<^verbatim>\<open>strftime\<close> prints, and the nanoseconds.\<close>

record wall_time =
  wt_year :: nat
  wt_month :: nat
  wt_day :: nat
  wt_hour :: nat
  wt_min :: nat
  wt_sec :: nat
  wt_nsec :: nat

definition pad_left :: "nat \<Rightarrow> char \<Rightarrow> string \<Rightarrow> string" where
  "pad_left n c s = replicate (n - length s) c @ s"

definition pad_right :: "nat \<Rightarrow> char \<Rightarrow> string \<Rightarrow> string" where
  "pad_right n c s = s @ replicate (n - length s) c"

definition digits :: "nat \<Rightarrow> nat \<Rightarrow> string" where
  "digits n i = pad_left n CHR ''0'' (nat_to_string i)"

definition timestamp :: "wall_time \<Rightarrow> string" where
  "timestamp t =
     nat_to_string (wt_year t) @ ''-'' @ digits 2 (wt_month t) @ ''-'' @ digits 2 (wt_day t) @ ''T''
       @ digits 2 (wt_hour t) @ '':'' @ digits 2 (wt_min t) @ '':'' @ digits 2 (wt_sec t)
       @ ''.'' @ digits 3 (wt_nsec t div 1000000 mod 1000) @ ''Z''"

record logger =
  lg_min :: log_level
  lg_colour :: bool
  lg_lines :: "string list"
  lg_aborted :: bool

definition new_logger :: "bool \<Rightarrow> logger" where
  "new_logger stderr_is_tty = \<lparr>lg_min = Info, lg_colour = stderr_is_tty, lg_lines = [], lg_aborted = False\<rparr>"

definition setLevel :: "log_level \<Rightarrow> logger \<Rightarrow> logger" where
  "setLevel l lg = lg\<lparr>lg_min := l\<rparr>"

definition level_of_string :: "string \<Rightarrow> log_level option" where
  "level_of_string s =
     (let l = to_lower s in
      if l = ''debug'' then Some Debug
      else if l = ''info'' then Some Info
      else if l = ''warn'' \<or> l = ''warning'' then Some Warn
      else if l = ''error'' then Some Error
      else if l = ''fatal'' then Some Fatal
      else None)"

text \<open>The other \<^verbatim>\<open>setLevel\<close>: an unknown name keeps the level.\<close>

definition setLevelName :: "string \<Rightarrow> logger \<Rightarrow> logger" where
  "setLevelName s lg = (case level_of_string s of Some l \<Rightarrow> setLevel l lg | None \<Rightarrow> lg)"

definition setColour :: "bool \<Rightarrow> logger \<Rightarrow> logger" where
  "setColour b lg = lg\<lparr>lg_colour := b\<rparr>"

definition isEnabled :: "log_level \<Rightarrow> logger \<Rightarrow> bool" where
  "isEnabled l lg \<longleftrightarrow> lg_min lg \<le> l"

definition log_line :: "bool \<Rightarrow> wall_time \<Rightarrow> log_level \<Rightarrow> string \<Rightarrow> string \<Rightarrow> string" where
  "log_line colour t l component message =
     (let ts = timestamp t; lvl = pad_right 3 CHR '' '' (levelStr l); comp = pad_right 14 CHR '' '' component;
          reset = ansi ''0''; dim = ansi ''2'' in
      (if colour then dim @ ts @ reset @ '' '' @ levelColour l @ lvl @ reset @ '' '' @ dim @ comp @ reset @ '' '' @ message
       else ts @ '' '' @ lvl @ '' '' @ comp @ '' '' @ message) @ [CHR 0x0A])"

definition log :: "wall_time \<Rightarrow> log_level \<Rightarrow> string \<Rightarrow> string \<Rightarrow> logger \<Rightarrow> logger" where
  "log t l component message lg =
     lg\<lparr>lg_lines := lg_lines lg @ [log_line (lg_colour lg) t l component message],
        lg_aborted := (lg_aborted lg \<or> l = Fatal)\<rparr>"

text \<open>The macro \<^verbatim>\<open>LOG_AT\<close>.\<close>

definition log_at :: "wall_time \<Rightarrow> log_level \<Rightarrow> string \<Rightarrow> string \<Rightarrow> logger \<Rightarrow> logger" where
  "log_at t l component message lg = (if isEnabled l lg then log t l component message lg else lg)"

section \<open>What is written\<close>

fun log_all :: "(wall_time \<times> log_level \<times> string \<times> string) list \<Rightarrow> logger \<Rightarrow> logger" where
  "log_all [] lg = lg"
| "log_all ((t, l, c, m) # ms) lg = log_all ms (log_at t l c m lg)"

lemma log_all_settings: "lg_min (log_all ms lg) = lg_min lg \<and> lg_colour (log_all ms lg) = lg_colour lg"
  by (induction ms lg rule: log_all.induct) (simp_all add: log_at_def log_def)

text \<open>
  Whatever sequence of messages is logged, the error stream gets exactly one line for each message at or
  above the level, in the order of the calls, and the process is aborted exactly when one of them is fatal;
  a fatal message passes every level.
\<close>

theorem log_all_lines:
  "lg_lines (log_all ms lg) = lg_lines lg @ map (\<lambda>(t, l, c, m). log_line (lg_colour lg) t l c m) (filter (\<lambda>(t, l, c, m). lg_min lg \<le> l) ms)
   \<and> (lg_aborted (log_all ms lg) \<longleftrightarrow> lg_aborted lg \<or> Fatal \<in> fst ` snd ` set ms)"
proof (induction ms lg rule: log_all.induct)
  case (2 t l c m ms lg)
  have "lg_min lg \<le> Fatal" by (cases "lg_min lg") (simp_all add: less_eq_log_level_def)
  with 2 show ?case by (auto simp: log_at_def isEnabled_def log_def)
qed simp

lemma digits_length: "i < 10 ^ n \<Longrightarrow> 0 < n \<Longrightarrow> length (digits n i) = n"
proof -
  have "i < 10 ^ n \<Longrightarrow> length (nat_to_string i) \<le> max 1 n" for i n
  proof (induction i arbitrary: n rule: nat_to_string.induct)
    case (1 i)
    show ?case
    proof (cases "i < 10")
      case True
      then show ?thesis by (subst nat_to_string.simps) simp
    next
      case False
      then obtain k where k: "n = Suc k" using 1(2) by (cases n) auto
      with 1(2) have "i div 10 < 10 ^ k" by (simp add: less_mult_imp_div_less mult.commute)
      with 1(1) False have "length (nat_to_string (i div 10)) \<le> max 1 k" by simp
      moreover have "k \<noteq> 0" using False 1(2) k by (cases k) auto
      ultimately show ?thesis using False k by (subst nat_to_string.simps) simp
    qed
  qed
  then show "i < 10 ^ n \<Longrightarrow> 0 < n \<Longrightarrow> length (digits n i) = n"
    by (fastforce simp: digits_def pad_left_def max_def split: if_splits)
qed

text \<open>Between the years 1000 and 9999 every timestamp has 24 characters, so the columns line up.\<close>

lemma timestamp_length:
  assumes "1000 \<le> wt_year t" "wt_year t < 10000" "wt_month t < 100" "wt_day t < 100" "wt_hour t < 100" "wt_min t < 100" "wt_sec t < 100"
  shows "length (timestamp t) = 24"
proof -
  have "length (nat_to_string (wt_year t)) = 4"
  proof -
    have "wt_year t div 10 div 10 div 10 < 10" "\<not> wt_year t div 10 div 10 < 10" "\<not> wt_year t div 10 < 10" "\<not> wt_year t < 10"
      using assms(1,2) by auto
    then show ?thesis by (simp add: nat_to_string.simps)
  qed
  moreover have "wt_nsec t div 1000000 mod 1000 < 10 ^ 3" by simp
  ultimately show ?thesis using assms(3-) by (simp add: timestamp_def digits_length)
qed

end
