(* ===== verification/Gitea_Client.thy ===== *)
theory Gitea_Client
  imports Json_Nodes Runner_Client
begin

text \<open>
  \<^verbatim>\<open>src/src/client/GiteaClient.cpp\<close>: the REST client for registration tokens.  What libcurl does with a
  request is a parameter (\<open>http\<close>), as for the runner client.
\<close>

record gitea_client =
  gc_base_url :: string
  gc_admin_token :: string
  gc_insecure :: bool

text \<open>The constructor throws when libcurl gives no handle.\<close>

definition new_gitea_client :: "bool \<Rightarrow> string \<Rightarrow> string \<Rightarrow> bool \<Rightarrow> gitea_client result" where
  "new_gitea_client curl_ok url token ins =
     (if curl_ok then Inr \<lparr>gc_base_url = url, gc_admin_token = token, gc_insecure = ins\<rparr>
      else Inl (Runtime_error ''curl_easy_init() failed''))"

text \<open>A request; \<^const>\<open>None\<close> as the body is a GET.\<close>

record rest_request =
  rr_url :: string
  rr_headers :: "string list"
  rr_body :: "string option"
  rr_timeout :: int
  rr_verify_tls :: bool

datatype rest_outcome = Rest_failed string | Rest_response int string

definition auth_headers :: "gitea_client \<Rightarrow> string smap \<Rightarrow> string list" where
  "auth_headers gc headers =
     (if gc_admin_token gc \<noteq> [] then [''Authorization: token '' @ gc_admin_token gc] else [])
       @ map (\<lambda>(k, v). k @ '': '' @ v) headers"

definition post_request :: "gitea_client \<Rightarrow> string \<Rightarrow> string \<Rightarrow> string smap \<Rightarrow> rest_request" where
  "post_request gc path body headers =
     \<lparr>rr_url = gc_base_url gc @ path,
      rr_headers = [''Content-Type: application/json'', ''Accept: application/json''] @ auth_headers gc headers,
      rr_body = Some body, rr_timeout = 30, rr_verify_tls = (\<not> gc_insecure gc)\<rparr>"

definition get_request :: "gitea_client \<Rightarrow> string \<Rightarrow> string smap \<Rightarrow> rest_request" where
  "get_request gc path headers =
     \<lparr>rr_url = gc_base_url gc @ path, rr_headers = [''Accept: application/json''] @ auth_headers gc headers,
      rr_body = None, rr_timeout = 10, rr_verify_tls = (\<not> gc_insecure gc)\<rparr>"

text \<open>The end of both methods: transport errors and statuses outside 200..299 throw.\<close>

definition rest_response :: "string \<Rightarrow> string \<Rightarrow> rest_outcome \<Rightarrow> string result" where
  "rest_response meth url out =
     (case out of
        Rest_failed e \<Rightarrow> Inl (Runtime_error (''HTTP '' @ meth @ '' failed: '' @ e))
      | Rest_response code body \<Rightarrow>
          if code < 200 \<or> 300 \<le> code
          then Inl (Runtime_error (''HTTP '' @ meth @ '' '' @ url @ '' returned '' @ int_to_string code @ '': '' @ body))
          else Inr body)"

definition doPost :: "(rest_request \<Rightarrow> rest_outcome) \<Rightarrow> gitea_client \<Rightarrow> string \<Rightarrow> string \<Rightarrow> string smap \<Rightarrow> string result" where
  "doPost http gc path body headers =
     rest_response ''POST'' (gc_base_url gc @ path) (http (post_request gc path body headers))"

definition doGet :: "(rest_request \<Rightarrow> rest_outcome) \<Rightarrow> gitea_client \<Rightarrow> string \<Rightarrow> string smap \<Rightarrow> string result" where
  "doGet http gc path headers = rest_response ''GET'' (gc_base_url gc @ path) (http (get_request gc path headers))"

definition getRegistrationToken :: "json_api \<Rightarrow> (rest_request \<Rightarrow> rest_outcome) \<Rightarrow> gitea_client \<Rightarrow> string result" where
  "getRegistrationToken api http gc =
     rbind (doPost http gc ''/api/v1/runners/registration-token'' ''{}'' []) (\<lambda>resp.
     case json_parse api resp of
       Inl e \<Rightarrow> Inl (Runtime_error (''Failed to parse registration token response: '' @ what e))
     | Inr j \<Rightarrow>
         rbind (value_or get_string j ''token'' []) (\<lambda>token.
         if token = []
         then Inl (Runtime_error (''Registration token response missing '' @ quoted ''token'' @ '' field: '' @ resp))
         else Inr token))"

definition gitea_ping :: "(rest_request \<Rightarrow> rest_outcome) \<Rightarrow> gitea_client \<Rightarrow> bool" where
  "gitea_ping http gc = (case doGet http gc ''/api/swagger'' [] of Inr _ \<Rightarrow> True | Inl _ \<Rightarrow> False)"

lemma gitea_ping_iff:
  "gitea_ping http gc \<longleftrightarrow>
     (\<exists>code body. http (get_request gc ''/api/swagger'' []) = Rest_response code body \<and> 200 \<le> code \<and> code < 300)"
  by (auto simp: gitea_ping_def doGet_def rest_response_def split: rest_outcome.split)

text \<open>
  A registration token is what the server's answer with a success status says, and never empty.
\<close>

lemma registration_token:
  "getRegistrationToken api http gc = Inr token \<longleftrightarrow> token \<noteq> [] \<and>
    (\<exists>code body j. http (post_request gc ''/api/v1/runners/registration-token'' ''{}'' []) = Rest_response code body
       \<and> 200 \<le> code \<and> code < 300 \<and> json_parse api body = Inr j \<and> value_or get_string j ''token'' [] = Inr token)"
  by (auto simp: getRegistrationToken_def doPost_def rest_response_def rbind_Inr_iff split: rest_outcome.splits sum.splits if_splits)

end
