(* ===== verification/Command_Line.thy ===== *)
theory Command_Line
  imports Cxx_Numbers
begin

text \<open>
  \<^verbatim>\<open>src/src/main.cpp\<close>, argument parsing: from the argument vector to the struct \<^verbatim>\<open>Args\<close>.
\<close>

record args =
  command :: string
  implicit_help :: bool
  config_path :: string
  arg_url :: string
  reg_token :: string
  arg_name :: string
  arg_labels :: "string list"
  arg_insecure :: bool
  arg_log_level :: string
  watchdog_child :: bool
  workflow_file :: string
  event_name :: string
  event_payload :: string
  job_filter :: string
  retry_count :: int

definition new_args :: args where
  "new_args = \<lparr>command = [], implicit_help = False, config_path = [], arg_url = [], reg_token = [], arg_name = [],
     arg_labels = [], arg_insecure = False, arg_log_level = [], watchdog_child = False, workflow_file = [],
     event_name = [], event_payload = [], job_filter = [], retry_count = 0\<rparr>"

text \<open>The loop of \<^verbatim>\<open>--labels\<close>: the pieces between commas, empty ones included.\<close>

function split_commas :: "string \<Rightarrow> string list" where
  "split_commas raw =
     (case str_find '','' raw of
        None \<Rightarrow> [raw]
      | Some found \<Rightarrow> take found raw # split_commas (drop (found + 1) raw))"
  by pat_completeness auto

termination
  by (relation "measure length") (auto dest: str_find_Some_le)

declare split_commas.simps [simp del]

definition value_flags :: "string list" where
  "value_flags = [''--config'', ''--url'', ''--token'', ''--name'', ''--log-level'', ''--event'', ''--payload'', ''--job'',
     ''--retry'', ''--labels'']"

definition switches :: "string list" where
  "switches = [''--insecure'', ''--watchdog-child'']"

text \<open>An option with the value \<open>v\<close>; only \<^verbatim>\<open>--retry\<close> can refuse it.\<close>

definition set_value :: "string \<Rightarrow> string \<Rightarrow> args \<Rightarrow> args result" where
  "set_value f v a =
     (if f = ''--config'' then Inr (a\<lparr>config_path := v\<rparr>)
      else if f = ''--url'' then Inr (a\<lparr>arg_url := v\<rparr>)
      else if f = ''--token'' then Inr (a\<lparr>reg_token := v\<rparr>)
      else if f = ''--name'' then Inr (a\<lparr>arg_name := v\<rparr>)
      else if f = ''--log-level'' then Inr (a\<lparr>arg_log_level := v\<rparr>)
      else if f = ''--event'' then Inr (a\<lparr>event_name := v\<rparr>)
      else if f = ''--payload'' then Inr (a\<lparr>event_payload := v\<rparr>)
      else if f = ''--job'' then Inr (a\<lparr>job_filter := v\<rparr>)
      else if f = ''--retry'' then
        (case stoi v of
           Inr n \<Rightarrow> Inr (a\<lparr>retry_count := (if n < 0 then 0 else n)\<rparr>)
         | Inl _ \<Rightarrow> Inl (Runtime_error (''--retry requires an integer, got: '' @ v)))
      else Inr (a\<lparr>arg_labels := arg_labels a @ split_commas v\<rparr>))"

definition set_switch :: "string \<Rightarrow> args \<Rightarrow> args" where
  "set_switch f a = (if f = ''--insecure'' then a\<lparr>arg_insecure := True\<rparr> else a\<lparr>watchdog_child := True\<rparr>)"

definition is_help :: "string \<Rightarrow> bool" where
  "is_help a \<longleftrightarrow> a = ''--help'' \<or> a = ''-h''"

text \<open>\<open>fp\<close> is \<^verbatim>\<open>first_positional\<close>; the first character of an empty string is the terminator, no dash.\<close>

definition positional :: "string \<Rightarrow> bool" where
  "positional a \<longleftrightarrow> a = [] \<or> hd a \<noteq> CHR ''-''"

fun parse_loop :: "bool \<Rightarrow> args \<Rightarrow> string list \<Rightarrow> args result" where
  "parse_loop fp args [] = Inr args"
| "parse_loop fp args (a # as) =
     (if is_help a then Inr (args\<lparr>command := ''help'', implicit_help := False\<rparr>)
      else if fp \<and> positional a then parse_loop False (args\<lparr>workflow_file := a\<rparr>) as
      else if a \<in> set value_flags then
        (case as of
           [] \<Rightarrow> Inl (Runtime_error (''Expected argument after '' @ a))
         | v # as' \<Rightarrow> rbind (set_value a v args) (\<lambda>args. parse_loop fp args as'))
      else if a \<in> set switches then parse_loop fp (set_switch a args) as
      else Inl (Runtime_error (''Unknown option: '' @ a)))"

definition parseArgs :: "string list \<Rightarrow> args result" where
  "parseArgs argv =
     (case argv of
        _ # first # rest \<Rightarrow>
          if is_help first then Inr (new_args\<lparr>command := ''help''\<rparr>)
          else parse_loop (first = ''run'') (new_args\<lparr>command := first\<rparr>) rest
      | _ \<Rightarrow> Inr (new_args\<lparr>command := ''help'', implicit_help := True\<rparr>))"

text \<open>\<^verbatim>\<open>cleanVersion\<close>\<close>

definition cleanVersion :: "string \<Rightarrow> string" where
  "cleanVersion v =
     (let s = (if v \<noteq> [] \<and> hd v = CHR 0x22 then tl v else v)
      in if s \<noteq> [] \<and> last s = CHR 0x22 then butlast s else s)"

section \<open>What a command line means\<close>

text \<open>An option as it is meant, the words it is written as, and its effect.\<close>

datatype cli_option = Value string string | Switch string

fun option_words :: "cli_option \<Rightarrow> string list" where
  "option_words (Value f v) = [f, v]"
| "option_words (Switch f) = [f]"

fun option_ok :: "cli_option \<Rightarrow> bool" where
  "option_ok (Value f v) \<longleftrightarrow> f \<in> set value_flags \<and> (f = ''--retry'' \<longrightarrow> (case stoi v of Inr _ \<Rightarrow> True | Inl _ \<Rightarrow> False))"
| "option_ok (Switch f) \<longleftrightarrow> f \<in> set switches"

fun apply_option :: "cli_option \<Rightarrow> args \<Rightarrow> args" where
  "apply_option (Value f v) a = (case set_value f v a of Inr a' \<Rightarrow> a' | Inl _ \<Rightarrow> a)"
| "apply_option (Switch f) a = set_switch f a"

definition line_words :: "cli_option list \<Rightarrow> string list" where
  "line_words os = concat (map option_words os)"

lemma flag_word: "f \<in> set value_flags \<union> set switches \<Longrightarrow> \<not> is_help f \<and> \<not> positional f"
  by (auto simp: value_flags_def switches_def is_help_def positional_def)

lemma set_value_ok: "option_ok (Value f v) \<Longrightarrow> set_value f v a = Inr (apply_option (Value f v) a)"
  by (auto simp: set_value_def split: sum.splits)

lemma parse_loop_options:
  "list_all option_ok os \<Longrightarrow> parse_loop fp a (line_words os @ rest) = parse_loop fp (fold apply_option os a) rest"
proof (induction os arbitrary: a)
  case (Cons opt os)
  show ?case
  proof (cases opt)
    case (Value f v)
    then have "f \<in> set value_flags" "option_ok (Value f v)" using Cons.prems by simp_all
    then show ?thesis
      using Cons flag_word [of f] by (simp add: Value line_words_def set_value_ok del: apply_option.simps)
  next
    case (Switch f)
    then have "f \<in> set switches" using Cons.prems by simp
    then show ?thesis
      using Cons flag_word [of f] by (auto simp: Switch line_words_def value_flags_def switches_def)
  qed
qed (simp add: line_words_def)



section \<open>What every parsed command line satisfies\<close>

definition args_typed :: "args \<Rightarrow> bool" where
  "args_typed a \<longleftrightarrow> 0 \<le> retry_count a \<and> retry_count a < 2 ^ 31 \<and> (implicit_help a \<longrightarrow> command a = ''help'')"

lemma stoi_range: "stoi s = Inr n \<Longrightarrow> - (2 ^ 31) \<le> n \<and> n < 2 ^ 31"
  by (auto simp: stoi_def split: option.splits prod.splits if_splits)

lemma set_value_typed: "set_value f v a = Inr a' \<Longrightarrow> args_typed a \<Longrightarrow> args_typed a'"
  by (auto simp: set_value_def args_typed_def split: if_splits sum.splits dest: stoi_range)

text \<open>What every step of the loop keeps holds of its result.\<close>

lemma parse_loop_invariant:
  assumes "\<And>f v a b. P a \<Longrightarrow> set_value f v a = Inr b \<Longrightarrow> P b" "\<And>f a. P a \<Longrightarrow> P (set_switch f a)"
    "\<And>file a. P a \<Longrightarrow> P (a\<lparr>workflow_file := file\<rparr>)" "\<And>a. P a \<Longrightarrow> P (a\<lparr>command := ''help'', implicit_help := False\<rparr>)"
  shows "parse_loop fp a ws = Inr a' \<Longrightarrow> P a \<Longrightarrow> P a'"
proof (induction fp a ws rule: parse_loop.induct)
  case (2 fp args a as)
  consider "is_help a" | "\<not> is_help a" "fp \<and> positional a" | "\<not> is_help a" "\<not> (fp \<and> positional a)" "a \<in> set value_flags"
    | "\<not> is_help a" "\<not> (fp \<and> positional a)" "a \<notin> set value_flags" by blast
  then show ?case
  proof cases
    case 1
    with 2 assms(4) show ?thesis by auto
  next
    case 2
    with "2.prems" "2.IH"(1) assms(3) show ?thesis by simp
  next
    case 3
    with "2.prems"(1) obtain v vs b where "as = v # vs" "set_value a v args = Inr b" "parse_loop fp b vs = Inr a'"
      by (cases as) (auto simp: rbind_Inr_iff)
    with 3 "2.prems"(2) "2.IH"(2) assms(1) show ?thesis by blast
  next
    case 4
    with "2.prems" "2.IH"(3) assms(2) show ?thesis by (simp split: if_splits)
  qed
qed simp

lemma parse_loop_typed: "parse_loop fp a ws = Inr a' \<Longrightarrow> args_typed a \<Longrightarrow> args_typed a'"
  by (rule parse_loop_invariant [of args_typed]) (simp_all add: set_value_typed, simp_all add: args_typed_def set_switch_def)

lemma set_value_command: "set_value f v a = Inr b \<Longrightarrow> command b = command a \<and> implicit_help b = implicit_help a"
  by (auto simp: set_value_def split: if_splits sum.splits)

lemma parse_loop_command: "parse_loop fp a ws = Inr a' \<Longrightarrow> command a' = ''help'' \<or> command a' = command a"
  by (rule parse_loop_invariant [of "\<lambda>b. command b = ''help'' \<or> command b = command a"])
    (auto simp: set_switch_def dest: set_value_command)

lemma parse_loop_explicit: "parse_loop fp a ws = Inr a' \<Longrightarrow> \<not> implicit_help a \<Longrightarrow> \<not> implicit_help a'"
  by (rule parse_loop_invariant [of "\<lambda>b. \<not> implicit_help b"]) (auto simp: set_switch_def dest: set_value_command)

text \<open>
  C38. Whatever the argument vector is, a parsed command line has a retry count that is an \<^verbatim>\<open>int\<close> and not
  negative, and only \<^verbatim>\<open>help\<close> can be implicit, which it is exactly when no command was given.
\<close>

theorem parseArgs_typed:
  assumes "parseArgs argv = Inr a"
  shows "args_typed a \<and> (implicit_help a \<longleftrightarrow> length argv < 2)"
proof -
  have new: "args_typed (new_args\<lparr>command := c\<rparr>)" "\<not> implicit_help (new_args\<lparr>command := c\<rparr>)" for c
    by (simp_all add: args_typed_def new_args_def)
  show ?thesis
  proof (cases argv)
    case Nil
    then show ?thesis using assms by (auto simp: parseArgs_def args_typed_def new_args_def)
  next
    case (Cons p ws)
    then show ?thesis
      using assms new parse_loop_explicit by (cases ws) (auto simp: parseArgs_def args_typed_def new_args_def split: if_splits dest: parse_loop_typed)
  qed
qed

theorem parseArgs_typed_witness:
  "parseArgs [''act_runner''] = Inr (new_args\<lparr>command := ''help'', implicit_help := True\<rparr>)
   \<and> args_typed (new_args\<lparr>command := ''help'', implicit_help := True\<rparr>)"
proof -
  have "parseArgs [''act_runner''] = Inr (new_args\<lparr>command := ''help'', implicit_help := True\<rparr>)" by (simp add: parseArgs_def)
  with parseArgs_typed [OF this] show ?thesis by blast
qed

end
