(* ===== verification/Local_Run.thy ===== *)
theory Local_Run
  imports Command_Line Orchestrator Workflow_Parser Cache_Server
begin

text \<open>
  \<^verbatim>\<open>src/src/main.cpp\<close>, \<^verbatim>\<open>cmdRun\<close>: a workflow file executed locally.  The choice of the jobs, the payload, the
  cache server of the run, the attempts and the exit code are the code's; files, the host name, the clock of
  the shutdown signal and what the job executors return are fields of the world.  Log lines are left out.
\<close>

section \<open>The choice of the jobs\<close>

text \<open>The jobs not taken over yet; their number decreases.\<close>

definition unfiltered :: "job smap \<Rightarrow> job smap \<Rightarrow> string set" where
  "unfiltered jobs filtered = fst ` set jobs - fst ` set filtered"

lemma unfiltered_set:
  "omap_get jobs k = Some j \<Longrightarrow> \<not> omap_has filtered k \<Longrightarrow>
     card (unfiltered jobs (omap_set k j filtered)) < card (unfiltered jobs filtered)"
proof -
  assume a: "omap_get jobs k = Some j" "\<not> omap_has filtered k"
  then have "k \<in> fst ` set jobs" using omap_get_None_iff [of jobs k] by simp
  with a(2) show ?thesis
    unfolding unfiltered_def keys_omap_set omap_has_iff by (intro psubset_card_mono) blast+
qed

text \<open>
  The loop over \<^verbatim>\<open>queue\<close>, a stack whose top is the head of the list here and the back of the vector there.
\<close>

function filter_loop :: "job smap \<Rightarrow> string list \<Rightarrow> job smap \<Rightarrow> job smap" where
  "filter_loop jobs [] filtered = filtered"
| "filter_loop jobs (jid # queue) filtered =
     (if omap_has filtered jid then filter_loop jobs queue filtered
      else case omap_get jobs jid of
        None \<Rightarrow> filter_loop jobs queue filtered
      | Some j \<Rightarrow> filter_loop jobs (rev (job_needs j) @ queue) (omap_set jid j filtered))"
  by pat_completeness auto

termination
  by (relation "measures [\<lambda>(jobs, q, f). card (unfiltered jobs f), \<lambda>(jobs, q, f). length q]")
    (auto dest: unfiltered_set)

definition prune :: "job smap \<Rightarrow> string \<Rightarrow> job smap" where
  "prune jobs target = filter_loop jobs [target] []"

definition job_ids :: "job smap \<Rightarrow> string" where
  "job_ids jobs = concat (map (\<lambda>(k, _). '' '' @ k) jobs)"

definition select_jobs :: "string \<Rightarrow> job smap \<Rightarrow> string + job smap" where
  "select_jobs target jobs =
     (if target = [] then Inr jobs
      else if \<not> omap_has jobs target then
        Inl (''Job '' @ quoted target @ '' not found in workflow. Available jobs:'' @ job_ids jobs @ [CHR 0x0A])
      else Inr (prune jobs target))"

section \<open>The world of a local run\<close>

record local_world =
  lw_yaml :: yaml_api
  lw_files :: "string \<rightharpoonup> string"
  lw_readable :: "string \<Rightarrow> bool"
  lw_hostname :: "string option"
  lw_cache :: cache_world
  lw_cache_dir :: string
  lw_umap_order :: "string list \<Rightarrow> string list"
  lw_shutdown :: "nat \<Rightarrow> bool"
  lw_cancelled :: "nat \<Rightarrow> nat \<Rightarrow> bool"
  lw_execute :: "nat \<Rightarrow> task_dto \<Rightarrow> (bool \<times> (string \<times> string) list) result"

definition getHostname :: "string option \<Rightarrow> string" where
  "getHostname h = (case h of Some n \<Rightarrow> n | None \<Rightarrow> ''haiku-runner'')"

definition open_file :: "local_world \<Rightarrow> string \<Rightarrow> string option" where
  "open_file w path = (if lw_readable w path then lw_files w path else None)"

definition resolve_payload :: "local_world \<Rightarrow> string \<Rightarrow> string + string" where
  "resolve_payload w p =
     (if p = [] then Inr []
      else if hd p = CHR ''@'' then
        (case open_file w (tl p) of
           None \<Rightarrow> Inl (''Cannot open payload file: '' @ tl p @ [CHR 0x0A])
         | Some text \<Rightarrow> Inr text)
      else Inr p)"

text \<open>What is run: the pruned workflow, the whole text, the event and its payload.\<close>

record local_plan =
  lp_workflow :: workflow
  lp_yaml :: string
  lp_event :: string
  lp_payload :: string

text \<open>Everything before the cache server; \<^const>\<open>Inl\<close> is a text on the error stream and the exit code 1.\<close>

definition usage_run :: string where
  "usage_run = ''Usage: act_runner run <workflow.yml> [--event push] [--job <id>]'' @ [CHR 0x0A]
     @ ''       act_runner run --help'' @ [CHR 0x0A]"

definition plan_run :: "local_world \<Rightarrow> args \<Rightarrow> string + local_plan" where
  "plan_run w a =
     (let path = workflow_file a in
      if path = [] then Inl usage_run
      else if lw_files w path = None then Inl (''Workflow file not found: '' @ path @ [CHR 0x0A])
      else case open_file w path of
        None \<Rightarrow> Inl (''Cannot open workflow file: '' @ path @ [CHR 0x0A])
      | Some text \<Rightarrow>
          (case parseWorkflow (lw_yaml w) text of
             Inl e \<Rightarrow> Inl (''Workflow parse error: '' @ what e @ [CHR 0x0A])
           | Inr w0 \<Rightarrow>
               (case select_jobs (job_filter a) (wf_jobs w0) of
                  Inl msg \<Rightarrow> Inl msg
                | Inr jobs \<Rightarrow>
                    (case resolve_payload w (event_payload a) of
                       Inl msg \<Rightarrow> Inl msg
                     | Inr payload \<Rightarrow>
                         Inr \<lparr>lp_workflow = w0\<lparr>wf_jobs := jobs\<rparr>, lp_yaml = text,
                              lp_event = (if event_name a = [] then ''push'' else event_name a), lp_payload = payload\<rparr>))))"

text \<open>
  The cache server of the run: its base URL, or none when the constructor or \<^verbatim>\<open>start\<close> throws.  Undefined
  behaviour while an index is read, and a computation that does not return, are those of the constructor.
\<close>

definition local_cache :: "cache_world \<Rightarrow> string \<Rightarrow> (string \<rightharpoonup> string) \<Rightarrow> string option eres option" where
  "local_cache w dir fs =
     (case sbind (\<lambda>_. new_cache_server w dir ''127.0.0.1'' 0 fs) (\<lambda>_. sbind (cs_start w) (\<lambda>_. sget baseUrl)) (empty_server dir ''127.0.0.1'' 0 fs) of
        None \<Rightarrow> None
      | Some (EOk url, _) \<Rightarrow> Some (EOk (Some url))
      | Some (EThrow e, _) \<Rightarrow> Some (EOk None)
      | Some (EUndef u, _) \<Rightarrow> Some (EUndef u))"

definition local_config :: "string option \<Rightarrow> string option \<Rightarrow> config" where
  "local_config host url =
     (let cfg = default_config\<lparr>cfg_name := getHostname host, gitea_url := ''http://localhost'', capacity := 4\<rparr>
      in case url of Some u \<Rightarrow> cfg\<lparr>cache_url_runtime := u\<rparr> | None \<Rightarrow> cfg)"

definition attempt_params :: "local_world \<Rightarrow> local_plan \<Rightarrow> string option \<Rightarrow> nat \<Rightarrow> run_params" where
  "attempt_params w p url attempt =
     \<lparr>rp_cfg = local_config (lw_hostname w) url, rp_jobs = wf_jobs (lp_workflow p), rp_yaml = lp_yaml p,
      rp_event_name = lp_event p, rp_event_payload = lp_payload p,
      rp_execute = lw_execute w attempt, rp_cancelled = lw_cancelled w attempt\<rparr>"

section \<open>The attempts\<close>

text \<open>\<^verbatim>\<open>task_id_seq\<close> is static: the next attempt goes on after the tasks of this one.\<close>

definition next_seq :: "int \<Rightarrow> orchestrator_result \<Rightarrow> int" where
  "next_seq sq r = sq + int (length (filter (\<lambda>j. \<not> lr_skipped j) (or_job_results r)))"

text \<open>
  \<open>n\<close> is the number of attempts left, \<open>max_attempts - attempt + 1\<close>; the result is the last one and those
  of all attempts, and an exception leaves the function (and ends the process).  The increment after the
  attempt \<open>2 ^ 31 - 1\<close> overflows.
\<close>

fun retry_loop :: "local_world \<Rightarrow> (nat \<Rightarrow> run_params) \<Rightarrow> nat \<Rightarrow> nat \<Rightarrow> int \<Rightarrow> orchestrator_result
    \<Rightarrow> (orchestrator_result \<times> orchestrator_result list) eres" where
  "retry_loop w rp attempt 0 sq r = (if attempt = 2 ^ 31 then EUndef Signed_overflow else EOk (r, []))"
| "retry_loop w rp attempt (Suc n) sq r =
     (if lw_shutdown w attempt then EOk (r, [])
      else case orch_run (lw_umap_order w) (rp attempt) sq of
        Inl e \<Rightarrow> EThrow e
      | Inr (r', _) \<Rightarrow>
          if or_success r' then EOk (r', [r'])
          else ebind (retry_loop w rp (Suc attempt) n (next_seq sq r') r') (\<lambda>(last, rs). EOk (last, r' # rs)))"

definition attempts :: "local_world \<Rightarrow> args \<Rightarrow> (nat \<Rightarrow> run_params) \<Rightarrow> (orchestrator_result \<times> orchestrator_result list) eres" where
  "attempts w a rp =
     (if retry_count a = 2 ^ 31 - 1 then EUndef Signed_overflow
      else retry_loop w rp 1 (nat (1 + retry_count a)) 1 \<lparr>or_success = True, or_job_results = []\<rparr>)"

section \<open>The report\<close>

definition dashes :: "nat \<Rightarrow> string" where
  "dashes n = concat (replicate n [CHR 0xE2, CHR 0x94, CHR 0x80])"

definition job_status :: "local_job_result \<Rightarrow> string" where
  "job_status r = (if lr_skipped r then ''SKIPPED'' else if lr_success r then ''success'' else ''FAILED'')"

definition summary :: "args \<Rightarrow> orchestrator_result \<Rightarrow> string" where
  "summary a r =
     [CHR 0x0A] @ dashes 2 @ '' Workflow Run Summary '' @ dashes 18 @ [CHR 0x0A]
     @ concat (map (\<lambda>jr. ''  '' @ lr_job_id jr @ '': '' @ job_status jr @ [CHR 0x0A]) (or_job_results r))
     @ dashes 41 @ [CHR 0x0A] @ ''Overall: '' @ (if or_success r then ''SUCCESS'' else ''FAILURE'') @ [CHR 0x0A]
     @ (if \<not> or_success r \<and> retry_count a = 0
        then [CHR 0x0A] @ ''Tip: on Haiku, step failures caused by SIGKILLTHR (signal 7)'' @ [CHR 0x0A]
          @ ''     are transient. Re-run with --retry 3 to auto-recover.'' @ [CHR 0x0A]
        else [])"

definition trigger_warning :: "local_plan \<Rightarrow> string" where
  "trigger_warning p =
     (let w0 = lp_workflow p in
      if wf_triggers w0 \<noteq> [] \<and> \<not> triggeredBy w0 (lp_event p)
      then ''[WARNING] Workflow '' @ quoted (wf_name w0) @ '' does not declare '' @ quoted (lp_event p)
        @ '' in its '' @ quoted ''on:'' @ '' triggers.'' @ [CHR 0x0A] @ ''         Declared events:''
        @ concat (map (\<lambda>(ev, _). '' '' @ ev) (wf_triggers w0))
        @ [CHR 0x0A] @ ''         Proceeding anyway (use --event to match a declared event).'' @ [CHR 0x0A]
      else [])"

record run_outcome =
  ro_exit :: int
  ro_out :: string
  ro_err :: string
  ro_attempts :: "orchestrator_result list"

definition cmdRun :: "local_world \<Rightarrow> args \<Rightarrow> run_outcome eres option" where
  "cmdRun w a =
     (case plan_run w a of
        Inl msg \<Rightarrow> Some (EOk \<lparr>ro_exit = 1, ro_out = [], ro_err = msg, ro_attempts = []\<rparr>)
      | Inr p \<Rightarrow>
          map_option (\<lambda>c. ebind c (\<lambda>url.
            ebind (attempts w a (attempt_params w p url)) (\<lambda>(r, rs).
            EOk \<lparr>ro_exit = (if or_success r then 0 else 1), ro_out = summary a r, ro_err = trigger_warning p,
                 ro_attempts = rs\<rparr>)))
            (local_cache (lw_cache w) (lw_cache_dir w) (lw_files w)))"

section \<open>What the filter selects\<close>

lemma needs_of_get: "omap_get jobs k = Some j \<Longrightarrow> needs_of jobs k = job_needs j"
  by (simp add: needs_of_def)

text \<open>\<open>Q\<close> is what is still on the stack, \<open>K\<close> what has been taken over.\<close>

definition closing :: "job smap \<Rightarrow> string \<Rightarrow> string set \<Rightarrow> string set \<Rightarrow> bool" where
  "closing jobs target Q K \<longleftrightarrow> Q \<union> K \<subseteq> {k. (k, target) \<in> (needs_rel jobs)\<^sup>*}
     \<and> (target \<in> fst ` set jobs \<longrightarrow> target \<in> Q \<union> K)
     \<and> (\<forall>n k. (n, k) \<in> needs_rel jobs \<longrightarrow> k \<in> K \<longrightarrow> n \<in> fst ` set jobs \<longrightarrow> n \<in> Q \<union> K)"

lemma closing_skip: "closing jobs target (insert k Q) K \<Longrightarrow> k \<in> K \<or> k \<notin> fst ` set jobs \<Longrightarrow> closing jobs target Q K"
  unfolding closing_def by blast

lemma closing_take:
  assumes "closing jobs target (insert k Q) K" "k \<in> fst ` set jobs"
  shows "closing jobs target (set (needs_of jobs k) \<union> Q) (insert k K)"
proof -
  have "(n, k) \<in> needs_rel jobs" if "n \<in> set (needs_of jobs k)" for n using that assms(2) by (simp add: needs_rel_def)
  moreover have "n \<in> set (needs_of jobs k)" if "(n, k) \<in> needs_rel jobs" for n using that by (simp add: needs_rel_def)
  ultimately show ?thesis
    using assms unfolding closing_def by (blast intro: converse_rtrancl_into_rtrancl)
qed

lemma closing_closed: "(k, target) \<in> (needs_rel jobs)\<^sup>* \<Longrightarrow> closing jobs target {} K \<Longrightarrow> k \<in> fst ` set jobs \<Longrightarrow> k \<in> K"
proof (induction rule: converse_rtrancl_induct)
  case (step n k)
  from step.hyps(1) have "k \<in> fst ` set jobs" by (simp add: needs_rel_def)
  with step show ?case unfolding closing_def by blast
qed (simp add: closing_def)

definition filter_inv :: "job smap \<Rightarrow> string \<Rightarrow> string list \<Rightarrow> job smap \<Rightarrow> bool" where
  "filter_inv jobs target q f \<longleftrightarrow> omap_ok f \<and> (\<forall>k j. omap_get f k = Some j \<longrightarrow> omap_get jobs k = Some j)
     \<and> closing jobs target (set q) (fst ` set f)"

lemma filter_loop_inv: "filter_inv jobs target q f \<Longrightarrow> filter_inv jobs target [] (filter_loop jobs q f)"
proof (induction jobs q f rule: filter_loop.induct)
  case (2 jobs jid q f)
  consider "omap_has f jid" | "\<not> omap_has f jid" "omap_get jobs jid = None"
    | j where "\<not> omap_has f jid" "omap_get jobs jid = Some j" by (cases "omap_get jobs jid") auto
  then show ?case
  proof cases
    case 1
    with "2.prems" have "filter_inv jobs target q f"
      by (simp add: filter_inv_def closing_skip [of _ _ jid] omap_has_iff del: image_iff)
    with 1 "2.IH"(1) show ?thesis by simp
  next
    case 2
    with "2.prems" have "filter_inv jobs target q f"
      by (simp add: filter_inv_def closing_skip [of _ _ jid] omap_get_None_iff del: image_iff)
    with 2 "2.IH"(2) show ?thesis by simp
  next
    case 3
    have "jid \<in> fst ` set jobs" using 3(2) omap_get_None_iff [of jobs jid] by simp
    with 3 "2.prems" have "filter_inv jobs target (rev (job_needs j) @ q) (omap_set jid j f)"
      using closing_take [of jobs target jid "set q" "fst ` set f"]
      by (simp add: filter_inv_def keys_omap_set needs_of_get del: image_iff)
    with 3 "2.IH"(3) show ?thesis by simp
  qed
qed simp

lemma prune_get:
  assumes "omap_has jobs target"
  shows "omap_ok (prune jobs target)"
    "omap_get (prune jobs target) k = (if (k, target) \<in> (needs_rel jobs)\<^sup>* then omap_get jobs k else None)"
proof -
  define f where "f = prune jobs target"
  have inv: "filter_inv jobs target [] f"
    unfolding f_def prune_def by (rule filter_loop_inv) (simp add: filter_inv_def closing_def)
  then show "omap_ok (prune jobs target)" by (simp add: filter_inv_def f_def)
  show "omap_get (prune jobs target) k = (if (k, target) \<in> (needs_rel jobs)\<^sup>* then omap_get jobs k else None)"
  proof (cases "omap_get f k")
    case None
    with inv closing_closed [of k target jobs "fst ` set f"] omap_get_None_iff [of f k] omap_get_None_iff [of jobs k]
    show ?thesis by (auto simp: f_def [symmetric] filter_inv_def simp del: image_iff)
  next
    case (Some j)
    then have "k \<in> fst ` set f" using omap_get_None_iff [of f k] by simp
    with inv have "(k, target) \<in> (needs_rel jobs)\<^sup>*" unfolding filter_inv_def closing_def by blast
    with Some inv show ?thesis by (simp add: f_def [symmetric] filter_inv_def)
  qed
qed

lemma omap_keys_get: "k \<in> fst ` set m \<longleftrightarrow> omap_get m k \<noteq> None"
  by (simp add: omap_get_None_iff)

lemma prune_keys:
  assumes "omap_has jobs target"
  shows "fst ` set (prune jobs target) = {k \<in> fst ` set jobs. (k, target) \<in> (needs_rel jobs)\<^sup>*}"
  by (rule set_eqI) (unfold mem_Collect_eq omap_keys_get prune_get [OF assms], simp)

lemma prune_needs_of:
  "omap_has jobs target \<Longrightarrow> k \<in> fst ` set (prune jobs target) \<Longrightarrow> needs_of (prune jobs target) k = needs_of jobs k"
  by (simp add: prune_keys needs_of_def prune_get)

lemma prune_needs_rel: "omap_has jobs target \<Longrightarrow> needs_rel (prune jobs target) \<subseteq> needs_rel jobs"
proof -
  assume t: "omap_has jobs target"
  have "n \<in> set (needs_of jobs k) \<and> k \<in> fst ` set jobs"
    if "k \<in> fst ` set (prune jobs target)" "n \<in> set (needs_of (prune jobs target) k)" for n k
    using that(2) prune_needs_of [OF t that(1)] that(1) [unfolded prune_keys [OF t]] by simp
  then show ?thesis unfolding needs_rel_def by blast
qed
text \<open>
  C25. \<^verbatim>\<open>--job\<close> selects the job and exactly the jobs it transitively needs, each as the file has it; a
  workflow whose needs are defined and acyclic stays so, and nothing the selection leaves out, a cycle or
  an undefined need included, can make the selected jobs cyclic.
\<close>

theorem job_filter_selects:
  assumes "omap_ok jobs" "select_jobs target jobs = Inr jobs'" "target \<noteq> []"
  shows "omap_ok jobs' \<and> omap_get jobs' k = (if (k, target) \<in> (needs_rel jobs)\<^sup>* then omap_get jobs k else None)
    \<and> (needs_defined jobs \<longrightarrow> needs_defined jobs')
    \<and> (acyclic (needs_rel jobs \<inter> {(n, k). (k, target) \<in> (needs_rel jobs)\<^sup>*}) \<longrightarrow> acyclic (needs_rel jobs'))"
proof -
  have t: "omap_has jobs target" and j: "jobs' = prune jobs target"
    using assms(2,3) by (auto simp: select_jobs_def split: if_splits)
  have rel: "(n, target) \<in> (needs_rel jobs)\<^sup>*" if "n \<in> set (needs_of jobs k)" "k \<in> fst ` set (prune jobs target)" for n k
  proof -
    have "k \<in> fst ` set jobs" "(k, target) \<in> (needs_rel jobs)\<^sup>*" using that(2) unfolding prune_keys [OF t] by simp_all
    moreover from this(1) that(1) have "(n, k) \<in> needs_rel jobs" by (simp add: needs_rel_def)
    ultimately show ?thesis by (blast intro: converse_rtrancl_into_rtrancl)
  qed
  have "needs_defined jobs'" if nd: "needs_defined jobs"
  proof -
    have "set (needs_of (prune jobs target) k) \<subseteq> fst ` set (prune jobs target)" if k: "k \<in> fst ` set (prune jobs target)" for k
    proof
      fix n assume "n \<in> set (needs_of (prune jobs target) k)"
      then have n: "n \<in> set (needs_of jobs k)" using prune_needs_of [OF t k] by simp
      moreover have "k \<in> fst ` set jobs" using k unfolding prune_keys [OF t] by simp
      ultimately have "n \<in> fst ` set jobs" using nd needs_defined_iff [OF assms(1)] by blast
      with rel [OF n k] show "n \<in> fst ` set (prune jobs target)" unfolding prune_keys [OF t] by simp
    qed
    then show ?thesis using needs_defined_iff [OF prune_get(1) [OF t]] unfolding j by blast
  qed
  moreover have "needs_rel jobs' \<subseteq> needs_rel jobs \<inter> {(n, k). (k, target) \<in> (needs_rel jobs)\<^sup>*}"
    using prune_needs_rel [OF t] prune_keys [OF t] unfolding j by (auto simp: needs_rel_def simp del: image_iff)
  ultimately show ?thesis using prune_get [OF t] j by (blast intro: acyclic_subset)
qed

theorem job_filter_selects_witness:
  "select_jobs ''build'' demo_jobs = Inr (prune demo_jobs ''build'')
   \<and> omap_get (prune demo_jobs ''build'') ''setup'' = Some default_job \<and> omap_ok (prune demo_jobs ''build'')"
proof -
  have ok: "omap_ok demo_jobs" by (simp add: omap_ok_def demo_jobs_def less_list_code)
  have "(''setup'', ''build'') \<in> needs_rel demo_jobs"
    by (simp add: needs_rel_def needs_of_def demo_jobs_def omap_get_def default_job_def)
  moreover have s: "select_jobs ''build'' demo_jobs = Inr (prune demo_jobs ''build'')"
    by (simp add: select_jobs_def omap_has_iff demo_jobs_def)
  ultimately show ?thesis
    using job_filter_selects [OF ok s, of "''setup''"] by (simp add: r_into_rtrancl) (simp add: demo_jobs_def omap_get_def)
qed

section \<open>The verdict\<close>

definition orch_verdict :: "job smap \<Rightarrow> orchestrator_result \<Rightarrow> bool" where
  "orch_verdict jobs r \<longleftrightarrow> mset (map lr_job_id (or_job_results r)) = mset (map fst jobs)
     \<and> list_all (\<lambda>jr. lr_success jr \<and> \<not> lr_skipped jr) (or_job_results r)"

lemma orch_run_verdict:
  assumes "omap_ok (rp_jobs rp)" "permuting umap_order"
  obtains r bs where "orch_run umap_order rp sq = Inr (r, bs)" "or_success r \<Longrightarrow> orch_verdict (rp_jobs rp) r"
proof -
  obtain r bs where r: "orch_run umap_order rp sq = Inr (r, bs)" using orch_run_returns [OF assms] .
  have "or_success r \<Longrightarrow> orch_verdict (rp_jobs rp) r"
    using assms r by (cases rule: orch_runE) (auto simp: orch_verdict_def list_all_iff)
  with r show thesis by (rule that)
qed

lemma run_batch_seq:
  "snd (run_batch rp completed sq ks) = sq + int (length (filter (\<lambda>j. \<not> lr_skipped j) (fst (run_batch rp completed sq ks))))"
  by (induction ks arbitrary: sq) (simp_all add: Let_def case_prod_beta)

lemma run_batches_seq:
  "snd (run_batches rp completed sq bs) = sq + int (length (filter (\<lambda>j. \<not> lr_skipped j) (fst (run_batches rp completed sq bs))))"
  by (induction bs arbitrary: sq) (simp_all add: Let_def case_prod_beta run_batch_seq)

text \<open>\<^const>\<open>next_seq\<close> is where the run left the sequence of task ids.\<close>

lemma run_waves_seq:
  "st_seq st = next_seq sq \<lparr>or_success = True, or_job_results = st_results st\<rparr> \<Longrightarrow>
     st_seq (run_waves rp i waves st) = next_seq sq \<lparr>or_success = True, or_job_results = st_results (run_waves rp i waves st)\<rparr>"
proof (induction waves arbitrary: i st)
  case (Cons wave waves)
  have "st_seq (fst (run_wave rp wave st)) =
      next_seq sq \<lparr>or_success = True, or_job_results = st_results (fst (run_wave rp wave st))\<rparr>"
    using Cons.prems by (simp add: run_wave_def Let_def case_prod_beta run_batches_seq next_seq_def)
  with Cons show ?case by (simp add: Let_def case_prod_beta)
qed simp
text \<open>What is known of the attempts \<open>rs\<close> of at most \<open>n\<close>, the first of them numbered \<open>i\<close>.\<close>

definition attempts_ok :: "(nat \<Rightarrow> bool) \<Rightarrow> job smap \<Rightarrow> nat \<Rightarrow> nat \<Rightarrow> orchestrator_result list \<Rightarrow> bool" where
  "attempts_ok shutdown jobs i n rs \<longleftrightarrow> length rs \<le> n
     \<and> list_all (\<lambda>r. \<not> or_success r) (butlast rs)
     \<and> list_all (\<lambda>r. or_success r \<longrightarrow> orch_verdict jobs r) rs
     \<and> list_all (\<lambda>k. \<not> shutdown k) [i..<i + length rs]
     \<and> (length rs = n \<or> (rs \<noteq> [] \<and> or_success (last rs)) \<or> shutdown (i + length rs))"

lemma attempts_ok_Cons:
  assumes "attempts_ok sd jobs (Suc i) n rs" "\<not> sd i" "\<not> or_success r"
  shows "attempts_ok sd jobs i (Suc n) (r # rs)"
proof -
  have "[i..<i + length (r # rs)] = i # [Suc i..<Suc i + length rs]" by (simp add: upt_rec)
  with assms show ?thesis unfolding attempts_ok_def by (auto simp del: upt_Suc)
qed

lemma retry_loop_ok:
  assumes "\<And>k. omap_ok (rp_jobs (rp k)) \<and> rp_jobs (rp k) = jobs" "permuting (lw_umap_order w)"
  shows "i + n \<noteq> 2 ^ 31 \<Longrightarrow> \<exists>rs. retry_loop w rp i n sq r0 = EOk (last (r0 # rs), rs) \<and> attempts_ok (lw_shutdown w) jobs i n rs"
proof (induction n arbitrary: i sq r0)
  case 0
  then show ?case by (simp add: attempts_ok_def)
next
  case (Suc n)
  obtain r bs where r: "orch_run (lw_umap_order w) (rp i) sq = Inr (r, bs)" "or_success r \<Longrightarrow> orch_verdict jobs r"
    using orch_run_verdict [of "rp i" "lw_umap_order w" sq] assms by metis
  consider "lw_shutdown w i" | "\<not> lw_shutdown w i" "or_success r" | "\<not> lw_shutdown w i" "\<not> or_success r" by blast
  then show ?case
  proof cases
    case 1
    then show ?thesis by (simp add: attempts_ok_def)
  next
    case 2
    with r show ?thesis by (simp add: attempts_ok_def)
  next
    case 3
    obtain rs where "retry_loop w rp (Suc i) n (next_seq sq r) r = EOk (last (r # rs), rs)"
      "attempts_ok (lw_shutdown w) jobs (Suc i) n rs"
      using Suc.IH [of "Suc i" "next_seq sq r" r] Suc.prems by auto
    with 3 r show ?thesis by (simp add: attempts_ok_Cons)
  qed
qed

lemma select_jobs_ok: "select_jobs target jobs = Inr jobs' \<Longrightarrow> omap_ok jobs \<Longrightarrow> omap_ok jobs'"
  by (auto simp: select_jobs_def prune_get split: if_splits)

lemma plan_run_jobs_ok: "plan_run w a = Inr p \<Longrightarrow> omap_ok (wf_jobs (lp_workflow p))"
  by (auto simp: plan_run_def Let_def split: if_splits option.splits sum.splits
      intro: select_jobs_ok dest: parseWorkflow_jobs_ok)

text \<open>
  C22. A local run that got as far as its cache server (or went on without one) always ends, with the exit
  code 0 exactly when its last attempt succeeded or a signal came before the first; a successful last attempt
  ran every selected job once and successfully; every attempt but the last failed; there are at most
  \<open>1 + retry\<close> attempts, none of them begins after a signal, and there are fewer only after a success or a signal.
\<close>

theorem local_run_exit:
  assumes "plan_run w a = Inr p" "local_cache (lw_cache w) (lw_cache_dir w) (lw_files w) = Some (EOk url)"
    "permuting (lw_umap_order w)" "0 \<le> retry_count a" "retry_count a < 2 ^ 31 - 2"
  shows "\<exists>ro. cmdRun w a = Some (EOk ro) \<and> ro_exit ro \<in> {0, 1}
    \<and> (ro_exit ro = 0 \<longleftrightarrow> ro_attempts ro = [] \<or> or_success (last (ro_attempts ro)))
    \<and> (ro_attempts ro = [] \<longleftrightarrow> lw_shutdown w 1)
    \<and> attempts_ok (lw_shutdown w) (wf_jobs (lp_workflow p)) 1 (nat (1 + retry_count a)) (ro_attempts ro)"
proof -
  let ?r0 = "\<lparr>or_success = True, or_job_results = []\<rparr>"
  let ?n = "nat (1 + retry_count a)"
  have "1 + ?n \<noteq> 2 ^ 31" using assms(4,5) by (simp add: nat_add_distrib)
  then obtain rs where rs: "attempts w a (attempt_params w p url) = EOk (last (?r0 # rs), rs)"
    "attempts_ok (lw_shutdown w) (wf_jobs (lp_workflow p)) 1 ?n rs"
    using retry_loop_ok [OF _ assms(3), of "attempt_params w p url" "wf_jobs (lp_workflow p)" 1 ?n 1 ?r0]
      plan_run_jobs_ok [OF assms(1)] assms(5)
    by (auto simp: attempts_def attempt_params_def)
  from rs(2) assms(4) have "rs = [] \<longleftrightarrow> lw_shutdown w 1"
    by (cases rs) (auto simp: attempts_ok_def upt_rec)
  with rs assms(1,2) show ?thesis by (auto simp: cmdRun_def)
qed
text \<open>A workflow whose job fails at the first attempt, without a cache server.\<close>

definition demo_local :: local_world where
  "demo_local = \<lparr>lw_yaml = demo_workflow_yaml, lw_files = [''ci.yml'' \<mapsto> ''make''], lw_readable = (\<lambda>_. True), lw_hostname = None,
     lw_cache = \<lparr>cw_json = \<lparr>json_parse = (\<lambda>_. Inr J_null), json_read = (\<lambda>_. Inr J_null), json_dump = (\<lambda>_ _. Inr []), json_float_int = (\<lambda>_. 0)\<rparr>,
       cw_mkdirs = (\<lambda>_. False), cw_writable = (\<lambda>_. True), cw_write = (\<lambda>_ _ n. int n), cw_rename = (\<lambda>_ _. True),
       cw_copy = (\<lambda>_ _. None), cw_remove = (\<lambda>_. True), cw_survives = (\<lambda>_ _. False), cw_daemon = Some\<rparr>,
     lw_cache_dir = ''/c'', lw_umap_order = (\<lambda>ks. ks), lw_shutdown = (\<lambda>_. False), lw_cancelled = (\<lambda>_ _. False),
     lw_execute = (\<lambda>i _. Inr (1 < i, []))\<rparr>"

theorem local_run_exit_witness:
  "\<exists>ro. cmdRun demo_local (new_args\<lparr>workflow_file := ''ci.yml'', job_filter := ''build'', retry_count := 3\<rparr>) = Some (EOk ro)
    \<and> ro_attempts ro \<noteq> [] \<and> (ro_exit ro = 0 \<longleftrightarrow> or_success (last (ro_attempts ro)))"
proof -
  let ?a = "new_args\<lparr>workflow_file := ''ci.yml'', job_filter := ''build'', retry_count := 3\<rparr>"
  have "\<exists>p. plan_run demo_local ?a = Inr p"
    by (simp add: plan_run_def open_file_def demo_local_def new_args_def demo_workflow_yaml_parsed select_jobs_def
        omap_has_iff resolve_payload_def)
  then obtain p where "plan_run demo_local ?a = Inr p" ..
  moreover have "local_cache (lw_cache demo_local) (lw_cache_dir demo_local) (lw_files demo_local) = Some (EOk None)"
    by (simp add: local_cache_def demo_local_def new_cache_server_def create_dirs_def sbind_def)
  moreover have "permuting (lw_umap_order demo_local)" by (simp add: permuting_def demo_local_def)
  ultimately show ?thesis
    using local_run_exit [of demo_local ?a p None] by (auto simp: demo_local_def)
qed
end
