(* ===== verification/Watchdog.thy ===== *)
theory Watchdog
  imports Command_Line Expr_Evaluator
begin

text \<open>
  \<^verbatim>\<open>src/src/main.cpp\<close>, \<^verbatim>\<open>runWatchdog\<close>: the parent of the daemon, which starts it, waits for it and starts it
  again.  A round of its loop is described by what the parent observes in it; the loop is a function of the
  sequence of rounds.  On Haiku \<^verbatim>\<open>load_image\<close> takes the place of \<^verbatim>\<open>fork\<close> and \<^verbatim>\<open>execv\<close>, with the same branches.
\<close>

section \<open>The loop\<close>

datatype child_status = Exited int | Signaled int | Other_status

text \<open>
  A round: the shutdown flag is seen after that many seconds of the delay (or at the head of the loop); the
  child cannot be started; the child is reaped with a status, and the flag may have been set meanwhile; or the
  flag is seen while the child runs.
\<close>

datatype wd_round = Interrupted nat | Not_started | Ended child_status bool | Shut_down

text \<open>\<open>wd_slept\<close> are the seconds slept at the head of each round, \<open>wd_grace\<close> those given to the child at shutdown.\<close>

record watchdog =
  wd_delay :: int
  wd_attempts :: int
  wd_slept :: "int list"
  wd_grace :: "nat option"

definition new_watchdog :: watchdog where
  "new_watchdog = \<lparr>wd_delay = 0, wd_attempts = 0, wd_slept = [], wd_grace = None\<rparr>"

definition next_attempt :: "int \<Rightarrow> int eres" where
  "next_attempt n = (if n < 2 ^ 31 - 1 then EOk (n + 1) else EUndef Signed_overflow)"

definition crash_delay :: "int \<Rightarrow> int" where
  "crash_delay n = min (2 * 2 ^ nat (min n 4)) 30"

text \<open>\<^verbatim>\<open>kill(pid, 0) == 0\<close> is asked once per second, at most ten times; \<open>alive i\<close> is the \<open>i\<close>-th answer.\<close>

definition grace_seconds :: "(nat \<Rightarrow> bool) \<Rightarrow> nat" where
  "grace_seconds alive = length (takeWhile alive [0..<10])"

definition slept :: "int \<Rightarrow> watchdog \<Rightarrow> watchdog" where
  "slept n d = d\<lparr>wd_slept := wd_slept d @ [n]\<rparr>"

definition crashed :: "watchdog \<Rightarrow> (watchdog \<times> int option) eres" where
  "crashed d = ebind (next_attempt (wd_attempts d)) (\<lambda>n. EOk (d\<lparr>wd_attempts := n, wd_delay := crash_delay n\<rparr>, None))"

fun wd_step :: "(nat \<Rightarrow> bool) \<Rightarrow> watchdog \<Rightarrow> wd_round \<Rightarrow> (watchdog \<times> int option) eres" where
  "wd_step alive d (Interrupted k) = EOk (slept (min (int k) (wd_delay d)) d, Some 0)"
| "wd_step alive d Not_started =
     ebind (next_attempt (wd_attempts d)) (\<lambda>n.
     EOk ((slept (wd_delay d) d)\<lparr>wd_attempts := n, wd_delay := min (wd_delay d + 5) 60\<rparr>, None))"
| "wd_step alive d (Ended st shutdown) =
     (let d' = slept (wd_delay d) d in
      if shutdown then EOk (d', Some 0)
      else case st of
        Exited code \<Rightarrow> if code = 0 then EOk (d', Some 0) else crashed d'
      | Signaled _ \<Rightarrow> crashed d'
      | Other_status \<Rightarrow> EOk (d', None))"
| "wd_step alive d Shut_down = EOk ((slept (wd_delay d) d)\<lparr>wd_grace := Some (grace_seconds alive)\<rparr>, Some 0)"

text \<open>\<^const>\<open>None\<close> as the exit code: the watchdog is still running after these rounds.\<close>

fun watchdog_loop :: "(nat \<Rightarrow> bool) \<Rightarrow> watchdog \<Rightarrow> wd_round list \<Rightarrow> (watchdog \<times> int option) eres" where
  "watchdog_loop alive d [] = EOk (d, None)"
| "watchdog_loop alive d (r # rs) =
     ebind (wd_step alive d r) (\<lambda>(d', e). case e of Some code \<Rightarrow> EOk (d', Some code) | None \<Rightarrow> watchdog_loop alive d' rs)"

definition child_argv :: "string list \<Rightarrow> string list" where
  "child_argv argv = argv @ [''--watchdog-child'']"

definition config_file_of :: "string \<Rightarrow> args \<Rightarrow> string" where
  "config_file_of default_path a = (if config_path a = [] then default_path else config_path a)"

definition not_found_message :: "string \<Rightarrow> string" where
  "not_found_message path = ''Config file not found: '' @ path @ [CHR 0x0A]
     @ ''Run '' @ quoted ''act_runner register --url <gitea_url> --token <token>'' @ '' first.'' @ [CHR 0x0A]"

text \<open>The whole function: the preflight check, with its text on the error stream, and the loop.\<close>

definition runWatchdog :: "(string \<Rightarrow> bool) \<Rightarrow> string \<Rightarrow> (nat \<Rightarrow> bool) \<Rightarrow> string list \<Rightarrow> wd_round list
    \<Rightarrow> (string \<times> watchdog \<times> int option) eres" where
  "runWatchdog exists default_path alive argv rounds =
     (let a = (case parseArgs argv of Inr a \<Rightarrow> a | Inl _ \<Rightarrow> new_args); path = config_file_of default_path a in
      if exists path then ebind (watchdog_loop alive new_watchdog rounds) (\<lambda>(d, e). EOk ([], d, e))
      else EOk (not_found_message path, new_watchdog, Some 1))"

section \<open>Supervision\<close>

fun final_round :: "wd_round \<Rightarrow> bool" where
  "final_round (Interrupted k) = True"
| "final_round Not_started = False"
| "final_round (Ended st shutdown) = (shutdown \<or> st = Exited 0)"
| "final_round Shut_down = True"

definition wd_ok :: "nat \<Rightarrow> watchdog \<Rightarrow> bool" where
  "wd_ok n d \<longleftrightarrow> 0 \<le> wd_delay d \<and> wd_delay d \<le> 60 \<and> 0 \<le> wd_attempts d \<and> wd_attempts d \<le> int n
     \<and> list_all (\<lambda>s. 0 \<le> s \<and> s \<le> 60) (wd_slept d)"

lemma crash_delay_bounds: "0 \<le> n \<Longrightarrow> 0 \<le> crash_delay n \<and> crash_delay n \<le> 30"
  by (simp add: crash_delay_def)

lemma wd_step_ok:
  assumes "wd_ok n d" "n < 2 ^ 31 - 1"
  shows "\<exists>d' s. wd_step alive d r = EOk (d', if final_round r then Some 0 else None) \<and> wd_ok (Suc n) d'
    \<and> wd_slept d' = wd_slept d @ [s] \<and> (wd_delay d = 0 \<longrightarrow> s = 0)"
proof -
  have "next_attempt (wd_attempts d) = EOk (wd_attempts d + 1)"
    using assms by (auto simp: next_attempt_def wd_ok_def)
  then show ?thesis
    using assms(1) crash_delay_bounds [of "wd_attempts d + 1"]
    by (cases r) (auto simp: slept_def crashed_def wd_ok_def Let_def split: child_status.split)
qed

lemma watchdog_loop_ok:
  assumes "wd_ok n d" "n + length rs < 2 ^ 31"
  shows "\<exists>d' new. watchdog_loop alive d rs = EOk (d', if list_ex final_round rs then Some 0 else None)
    \<and> wd_slept d' = wd_slept d @ new \<and> length new = min (length rs) (Suc (length (takeWhile (Not \<circ> final_round) rs)))
    \<and> list_all (\<lambda>s. 0 \<le> s \<and> s \<le> 60) new \<and> (wd_delay d = 0 \<longrightarrow> new \<noteq> [] \<longrightarrow> hd new = 0)"
  using assms
proof (induction rs arbitrary: d n)
  case (Cons r rs)
  have "n < 2 ^ 31 - 1" using Cons.prems(2) by simp
  from wd_step_ok [OF Cons.prems(1) this, of alive r] obtain d1 s where
    1: "wd_step alive d r = EOk (d1, if final_round r then Some 0 else None)" "wd_ok (Suc n) d1"
    "wd_slept d1 = wd_slept d @ [s]" "wd_delay d = 0 \<longrightarrow> s = 0" by blast
  then have s60: "0 \<le> s \<and> s \<le> 60" by (simp add: wd_ok_def)
  show ?case
  proof (cases "final_round r")
    case True
    then show ?thesis using 1 s60 by (intro exI [of _ d1] exI [of _ "[s]"]) simp
  next
    case False
    have "Suc n + length rs < 2 ^ 31" using Cons.prems(2) by simp
    from Cons.IH [OF 1(2) this] obtain d' new where "watchdog_loop alive d1 rs = EOk (d', if list_ex final_round rs then Some 0 else None)"
      "wd_slept d' = wd_slept d1 @ new" "length new = min (length rs) (Suc (length (takeWhile (Not \<circ> final_round) rs)))"
      "list_all (\<lambda>s. 0 \<le> s \<and> s \<le> 60) new" by blast
    then show ?thesis using False 1 s60 by (intro exI [of _ d'] exI [of _ "s # new"]) (simp add: comp_def)
  qed
qed simp



text \<open>
  The delays when the daemon keeps crashing: 4, 8, 16, then 30 seconds, whatever happened before; the number
  of attempts is never reset.
\<close>

lemma crash_loop:
  assumes "list_all (\<lambda>r. \<not> final_round r \<and> r \<noteq> Not_started \<and> (\<forall>b. r \<noteq> Ended Other_status b)) rs"
    "0 \<le> wd_attempts d" "wd_attempts d + int (length rs) < 2 ^ 31"
  shows "\<exists>d'. watchdog_loop alive d rs = EOk (d', None) \<and> wd_attempts d' = wd_attempts d + int (length rs)
    \<and> wd_delay d' = (if rs = [] then wd_delay d else crash_delay (wd_attempts d'))"
  using assms
proof (induction rs arbitrary: d)
  case (Cons r rs)
  let ?d = "(slept (wd_delay d) d)\<lparr>wd_attempts := wd_attempts d + 1, wd_delay := crash_delay (wd_attempts d + 1)\<rparr>"
  have "wd_step alive d r = EOk (?d, None)"
    using Cons.prems by (cases r) (auto simp: crashed_def next_attempt_def slept_def Let_def split: child_status.splits)
  moreover obtain d' where "watchdog_loop alive ?d rs = EOk (d', None)" "wd_attempts d' = wd_attempts ?d + int (length rs)"
      "wd_delay d' = (if rs = [] then wd_delay ?d else crash_delay (wd_attempts d'))"
    using Cons.IH [of ?d] Cons.prems by auto
  ultimately show ?case by auto
qed simp

lemma crash_delays: "map crash_delay [1, 2, 3, 4, 5] = [4, 8, 16, 30, 30]"
  by code_simp

text \<open>
  A child that was not reaped yet answers to signal 0 even when it is a zombie, so at shutdown the grace
  time is always the whole ten seconds.
\<close>

lemma grace_is_ten: "(\<And>i. alive i) \<Longrightarrow> grace_seconds alive = 10"
  by (simp add: grace_seconds_def takeWhile_eq_all_conv [THEN iffD2])

section \<open>The child\<close>

lemma parse_loop_child:
  "parse_loop False a ws = Inr a' \<Longrightarrow> command a' \<noteq> ''help'' \<Longrightarrow>
     parse_loop False a (ws @ [''--watchdog-child'']) = Inr (a'\<lparr>watchdog_child := True\<rparr>)"
proof (induction ws arbitrary: a rule: length_induct)
  case (1 ws)
  show ?case
  proof (cases ws)
    case Nil
    with 1(2) show ?thesis by (simp add: is_help_def value_flags_def switches_def set_switch_def)
  next
    case (Cons x xs)
    then have nh: "\<not> is_help x" using 1(2,3) by auto
    show ?thesis
    proof (cases "x \<in> set value_flags")
      case True
      with 1(2) Cons nh obtain v vs b where v: "xs = v # vs" "set_value x v a = Inr b" "parse_loop False b vs = Inr a'"
        by (cases xs) (auto simp: rbind_Inr_iff)
      moreover from v 1(1,3) Cons have "parse_loop False b (vs @ [''--watchdog-child'']) = Inr (a'\<lparr>watchdog_child := True\<rparr>)"
        by simp
      ultimately show ?thesis using True Cons nh by simp
    next
      case False
      with 1(2) Cons nh have "x \<in> set switches" "parse_loop False (set_switch x a) xs = Inr a'"
        by (auto split: if_splits)
      moreover from this 1(1,3) Cons have "parse_loop False (set_switch x a) (xs @ [''--watchdog-child'']) = Inr (a'\<lparr>watchdog_child := True\<rparr>)"
        by simp
      ultimately show ?thesis using False Cons nh by simp
    qed
  qed
qed

text \<open>
  The daemon that the watchdog starts reads its arguments as the watchdog read them, with the one flag that
  keeps it from becoming a watchdog itself.
\<close>

theorem child_same_options:
  assumes "parseArgs argv = Inr a" "command a = ''daemon''"
  shows "parseArgs (child_argv argv) = Inr (a\<lparr>watchdog_child := True\<rparr>)"
proof -
  have "argv \<noteq> []" "tl argv \<noteq> []" using assms by (auto simp: parseArgs_def split: list.splits)
  then obtain p c ws where argv: "argv = p # c # ws" by (cases argv; cases "tl argv") auto
  have nh: "\<not> is_help c" using assms argv by (auto simp: parseArgs_def)
  then have p: "parse_loop (c = ''run'') (new_args\<lparr>command := c\<rparr>) ws = Inr a"
    using assms(1) argv by (simp add: parseArgs_def)
  have "c = ''daemon''" using parse_loop_command [OF p] assms(2) by simp
  with p nh show ?thesis
    using parse_loop_child [of "new_args\<lparr>command := c\<rparr>" ws a] assms(2) argv by (simp add: parseArgs_def child_argv_def)
qed

theorem child_same_options_witness:
  "parseArgs [''act_runner'', ''daemon'', ''--config'', ''--help'', ''--watchdog-child'']
   = Inr (new_args\<lparr>command := ''daemon'', config_path := ''--help'', watchdog_child := True\<rparr>)"
proof -
  have "parseArgs [''act_runner'', ''daemon'', ''--config'', ''--help''] = Inr (new_args\<lparr>command := ''daemon'', config_path := ''--help''\<rparr>)"
    by (simp add: parseArgs_def is_help_def value_flags_def set_value_def new_args_def)
  from child_same_options [OF this] show ?thesis by (simp add: child_argv_def new_args_def)
qed

end
