(* ===== verification/Commands.thy ===== *)
theory Commands
  imports Watchdog Runner_Client Config Cache_Server Logger
begin

text \<open>
  \<^verbatim>\<open>src/src/main.cpp\<close>: the commands \<^verbatim>\<open>register\<close>, \<^verbatim>\<open>daemon\<close> (up to the poller, which it runs until a signal comes)
  and \<^verbatim>\<open>unregister\<close>, and the dispatch of \<^verbatim>\<open>main\<close>.  Files, the network, the host name and the libraries are
  fields of the world; \<open>pw_http i\<close> is how the server answers the \<open>i\<close>-th request of a command.  Log lines are
  left out, the texts on the two streams are kept.
\<close>

section \<open>The world of the program\<close>

record program_world =
  pw_yaml :: yaml_api
  pw_emit :: "ynode \<Rightarrow> string"
  pw_bad_file :: "string \<Rightarrow> string"
  pw_jparse :: "string \<Rightarrow> json_doc result"
  pw_jdump :: "json_doc \<Rightarrow> string"
  pw_readable :: "string \<Rightarrow> bool"
  pw_writable :: "string \<Rightarrow> bool"
  pw_renamable :: "string \<Rightarrow> bool"
  pw_removable :: "string \<Rightarrow> bool"
  pw_addr :: "string \<Rightarrow> nat"
  pw_http :: "nat \<Rightarrow> http_request \<Rightarrow> http_outcome"
  pw_hostname :: "string option"
  pw_config_path :: string
  pw_state_path :: string
  pw_cache :: cache_world
  pw_cache_dir :: string
  pw_now :: int

record cli_state =
  ps_files :: "string \<rightharpoonup> string"
  ps_out :: string
  ps_err :: string

type_synonym 'a cli = "(cli_state, 'a) comp"

definition print_out :: "string \<Rightarrow> unit cli" where
  "print_out t = smod (\<lambda>s. s\<lparr>ps_out := ps_out s @ t\<rparr>)"

definition print_err :: "string \<Rightarrow> unit cli" where
  "print_err t = smod (\<lambda>s. s\<lparr>ps_err := ps_err s @ t\<rparr>)"

text \<open>A remote call inside \<^verbatim>\<open>try { ... } catch (const std::exception&)\<close>.\<close>

definition try_rpc :: "'a presult option \<Rightarrow> 'a result cli" where
  "try_rpc m = slift (map_option (\<lambda>r. case r of POk x \<Rightarrow> EOk (Inr x) | PThrow e \<Rightarrow> EOk (Inl e) | PUndef \<Rightarrow> EUndef Read_past_end) m)"

definition hostname :: "program_world \<Rightarrow> string" where
  "hostname w = (case pw_hostname w of Some n \<Rightarrow> n | None \<Rightarrow> ''haiku-runner'')"

definition read_config :: "program_world \<Rightarrow> string \<Rightarrow> (string \<rightharpoonup> string) \<Rightarrow> config result" where
  "read_config w path fs =
     (case (if pw_readable w path then fs path else None) of
        None \<Rightarrow> Inl (Runtime_error (''Failed to parse config file '' @ quoted path @ '': '' @ pw_bad_file w path))
      | Some text \<Rightarrow> loadConfig (pw_yaml w) path text)"

definition write_config :: "program_world \<Rightarrow> config \<Rightarrow> string \<Rightarrow> unit result cli" where
  "write_config w cfg path s =
     (case saveConfig (pw_emit w) (pw_writable w) cfg path (ps_files s) of
        Inl e \<Rightarrow> sret (Inl e) s
      | Inr fs \<Rightarrow> sret (Inr ()) (s\<lparr>ps_files := fs\<rparr>))"

definition write_state :: "program_world \<Rightarrow> runner_state \<Rightarrow> unit result cli" where
  "write_state w st s =
     (case saveRunnerState (pw_jdump w) (pw_writable w) (pw_renamable w) st (pw_state_path w) (ps_files s) of
        (fss, r) \<Rightarrow> sret r (s\<lparr>ps_files := last fss\<rparr>))"

text \<open>Declare takes plain label names: what stands before the first colon.\<close>

definition plain_label :: "string \<Rightarrow> string" where
  "plain_label l = (case str_find '':'' l of None \<Rightarrow> l | Some pos \<Rightarrow> take pos l)"

definition client_version :: string where
  "client_version = ''0.1.0-haiku''"

section \<open>register\<close>

definition register_config :: "program_world \<Rightarrow> args \<Rightarrow> (string \<rightharpoonup> string) \<Rightarrow> config" where
  "register_config w a fs =
     (let cfg = (case read_config w (config_file_of (pw_config_path w) a) fs of
                   Inr c \<Rightarrow> c | Inl _ \<Rightarrow> default_config\<lparr>gitea_url := arg_url a\<rparr>);
          cfg = (if arg_url a \<noteq> [] then cfg\<lparr>gitea_url := arg_url a\<rparr> else cfg)
      in if arg_insecure a then cfg\<lparr>insecure := True\<rparr> else cfg)"

definition register_name :: "program_world \<Rightarrow> args \<Rightarrow> string" where
  "register_name w a = (if arg_name a = [] then hostname w else arg_name a)"

definition register_labels :: "args \<Rightarrow> config \<Rightarrow> string list" where
  "register_labels a cfg =
     (if arg_labels a \<noteq> [] then arg_labels a
      else if cfg_labels cfg \<noteq> [] then labelStrings cfg
      else [''haiku:host'', ''haiku-latest:host''])"

definition register_client :: "config \<Rightarrow> runner_client" where
  "register_client cfg = new_runner_client (gitea_url cfg) (insecure cfg)"

definition register_call :: "program_world \<Rightarrow> args \<Rightarrow> (string \<rightharpoonup> string) \<Rightarrow> register_result presult option" where
  "register_call w a fs =
     (let cfg = register_config w a fs in
      registerRunner (pw_addr w) (pw_http w 0) (register_client cfg) (reg_token a) (register_name w a)
        (register_labels a cfg) client_version)"

definition registered_state :: "program_world \<Rightarrow> args \<Rightarrow> config \<Rightarrow> register_result \<Rightarrow> runner_state" where
  "registered_state w a cfg reg =
     \<lparr>rs_token = runner_token reg, rs_uuid = rr_uuid reg,
      rs_name = (if rr_name reg = [] then register_name w a else rr_name reg), rs_labels = register_labels a cfg\<rparr>"

definition registered_config :: "config \<Rightarrow> runner_state \<Rightarrow> config" where
  "registered_config cfg st = cfg\<lparr>cfg_name := rs_name st, cfg_runner_token := rs_token st, cfg_uuid := rs_uuid st\<rparr>"

definition register_message :: "runner_state \<Rightarrow> string" where
  "register_message st =
     [CHR 0x0A] @ ''Registration successful!'' @ [CHR 0x0A] @ ''  Runner name : '' @ rs_name st @ [CHR 0x0A]
     @ ''  Runner UUID : '' @ rs_uuid st @ [CHR 0x0A] @ ''  Token       : '' @ take 8 (rs_token st) @ ''...''
     @ [CHR 0x0A, CHR 0x0A] @ ''Now run:  act_runner daemon'' @ [CHR 0x0A]"

definition cmdRegister :: "program_world \<Rightarrow> args \<Rightarrow> int cli" where
  "cmdRegister w a =
     (if arg_url a = [] then sret 1
      else if reg_token a = [] then sret 1
      else
        sbind (sget ps_files) (\<lambda>fs.
        let cfg = register_config w a fs in
        sbind (try_rpc (register_call w a fs)) (\<lambda>r.
        case r of Inl _ \<Rightarrow> sret 1
        | Inr reg \<Rightarrow>
          if runner_token reg = [] then sret 1
          else
            (let client = setRunnerUUID (rr_uuid reg) (setRunnerToken (runner_token reg) (register_client cfg));
                 st = registered_state w a cfg reg in
             sbind (try_rpc (rpc_declare (pw_addr w) (pw_http w 1) client (map plain_label (rs_labels st)) client_version)) (\<lambda>_.
             sbind (write_state w st) (\<lambda>r.
             case r of Inl _ \<Rightarrow> sret 1
             | Inr _ \<Rightarrow>
               sbind (write_config w (registered_config cfg st) (config_file_of (pw_config_path w) a)) (\<lambda>_.
               sbind (print_out (register_message st)) (\<lambda>_. sret 0))))))))"

section \<open>daemon\<close>

definition not_registered :: string where
  "not_registered = ''Runner is not registered.'' @ [CHR 0x0A]
     @ ''Run '' @ quoted ''act_runner register --url <gitea_url> --token <token>'' @ '' first.'' @ [CHR 0x0A]"

definition empty_state_message :: string where
  "empty_state_message = ''Runner is not registered (empty state). Re-run '' @ quoted ''act_runner register'' @ ''.'' @ [CHR 0x0A]"

text \<open>The overrides of the command line.\<close>

definition daemon_options :: "args \<Rightarrow> config \<Rightarrow> config" where
  "daemon_options a cfg =
     (let cfg = (if arg_insecure a then cfg\<lparr>insecure := True\<rparr> else cfg)
      in if arg_log_level a \<noteq> [] then cfg\<lparr>Config.log_level := arg_log_level a\<rparr> else cfg)"

text \<open>The identity: the configuration's when it has both token and uuid, else the state file's.\<close>

definition find_identity :: "program_world \<Rightarrow> (string \<rightharpoonup> string) \<Rightarrow> config \<Rightarrow> string + (config \<times> runner_state)" where
  "find_identity w fs cfg =
     (if cfg_uuid cfg \<noteq> [] \<and> cfg_runner_token cfg \<noteq> [] then
        Inr (cfg, \<lparr>rs_token = cfg_runner_token cfg, rs_uuid = cfg_uuid cfg, rs_name = cfg_name cfg, rs_labels = labelStrings cfg\<rparr>)
      else if fs (pw_state_path w) \<noteq> None then
        (case loadRunnerState (pw_jparse w) (pw_state_path w) fs of
           Inl e \<Rightarrow> Inl (''Failed to load runner state: '' @ what e @ [CHR 0x0A])
         | Inr st \<Rightarrow>
             (let cfg = (if cfg_uuid cfg = [] then cfg\<lparr>cfg_uuid := rs_uuid st\<rparr> else cfg);
                  cfg = (if cfg_runner_token cfg = [] then cfg\<lparr>cfg_runner_token := rs_token st\<rparr> else cfg);
                  cfg = (if cfg_name cfg = [] then cfg\<lparr>cfg_name := rs_name st\<rparr> else cfg)
              in Inr (cfg, st)))
      else Inl not_registered)"

definition daemon_identity :: "program_world \<Rightarrow> args \<Rightarrow> (string \<rightharpoonup> string) \<Rightarrow> string + (config \<times> runner_state)" where
  "daemon_identity w a fs =
     (let path = config_file_of (pw_config_path w) a in
      if fs path = None then Inl (not_found_message path)
      else case read_config w path fs of
        Inl e \<Rightarrow> Inl (''Failed to load config from '' @ quoted path @ '': '' @ what e @ [CHR 0x0A])
      | Inr cfg0 \<Rightarrow>
          (let cfg = daemon_options a cfg0 in
           if gitea_url cfg = [] then
             Inl (''Config missing '' @ quoted ''gitea_url'' @ ''. Please re-run '' @ quoted ''act_runner register'' @ ''.'' @ [CHR 0x0A])
           else case find_identity w fs cfg of
             Inl msg \<Rightarrow> Inl msg
           | Inr (cfg, st) \<Rightarrow>
               if runner_state_empty st then Inl empty_state_message
               else Inr (if cfg_name cfg = [] then cfg\<lparr>cfg_name := rs_name st\<rparr> else cfg, st)))"

text \<open>The cache server of the daemon: what the code goes on with, and the files it leaves.\<close>

record daemon_cache =
  dc_url :: string
  dc_server :: "cache_server option"

text \<open>A step inside the \<^verbatim>\<open>try\<close>: an exception ends it with what was assigned before it.\<close>

fun caught :: "daemon_cache \<Rightarrow> ('a eres \<times> cache_server) option
    \<Rightarrow> ('a \<Rightarrow> cache_server \<Rightarrow> (daemon_cache eres \<times> (string \<rightharpoonup> string)) option) \<Rightarrow> (daemon_cache eres \<times> (string \<rightharpoonup> string)) option" where
  "caught dc None k = None"
| "caught dc (Some (EOk x, s)) k = k x s"
| "caught dc (Some (EThrow e, s)) k = Some (EOk dc, cs_files s)"
| "caught dc (Some (EUndef u, s)) k = Some (EUndef u, cs_files s)"

definition start_cache :: "program_world \<Rightarrow> config \<Rightarrow> (string \<rightharpoonup> string) \<Rightarrow> (daemon_cache eres \<times> (string \<rightharpoonup> string)) option" where
  "start_cache w cfg fs =
     (let none = \<lparr>dc_url = cache_url_runtime cfg, dc_server = None\<rparr> in
      if \<not> cache_enabled cfg then Some (EOk none, fs)
      else
        (let dir = (if cache_dir cfg = [] then pw_cache_dir w else cache_dir cfg);
             port = nat (cache_port cfg mod 2 ^ 16)
         in caught none (new_cache_server (pw_cache w) dir (cache_host cfg) port fs) (\<lambda>_ s.
            caught none (cs_start (pw_cache w) s) (\<lambda>_ s.
            let url = baseUrl s in
            if 0 < cache_max_age_days cfg then
              caught \<lparr>dc_url = url, dc_server = None\<rparr> (purgeOlderThan (pw_cache w) (pw_now w) (cache_max_age_days cfg) s) (\<lambda>_ s.
              Some (EOk \<lparr>dc_url = url, dc_server = Some s\<rparr>, cs_files s))
            else Some (EOk \<lparr>dc_url = url, dc_server = Some s\<rparr>, cs_files s)))))"

text \<open>What the poller is constructed with.\<close>

record daemon =
  dm_client :: runner_client
  dm_config :: config
  dm_state :: runner_state
  dm_cache :: "cache_server option"

definition daemon_client :: "config \<Rightarrow> runner_state \<Rightarrow> runner_client" where
  "daemon_client cfg st = setRunnerUUID (rs_uuid st) (setRunnerToken (rs_token st) (new_runner_client (gitea_url cfg) (insecure cfg)))"

text \<open>
  \<^verbatim>\<open>cmdDaemon\<close>: an exit code, or what the poller starts with; the command then ends with 0 once a signal came
  and the poller was stopped and joined.
\<close>

definition cmdDaemon :: "program_world \<Rightarrow> args \<Rightarrow> (int + daemon) cli" where
  "cmdDaemon w a =
     sbind (sget ps_files) (\<lambda>fs.
     case daemon_identity w a fs of
       Inl msg \<Rightarrow> sbind (print_err msg) (\<lambda>_. sret (Inl 1))
     | Inr (cfg, st) \<Rightarrow>
         (let client = daemon_client cfg st in
          sbind (try_rpc (rpc_ping (pw_addr w) (pw_http w 0) client (cfg_name cfg))) (\<lambda>_.
          sbind (try_rpc (rpc_declare (pw_addr w) (pw_http w 1) client (map plain_label (rs_labels st)) client_version)) (\<lambda>_.
          case start_cache w cfg fs of
            None \<Rightarrow> slift None
          | Some (r, fs') \<Rightarrow>
              sbind (smod (\<lambda>s. s\<lparr>ps_files := fs'\<rparr>)) (\<lambda>_.
              sbind (slift (Some r)) (\<lambda>dc.
              sret (Inr \<lparr>dm_client = client, dm_config = cfg\<lparr>cache_url_runtime := dc_url dc\<rparr>, dm_state = st, dm_cache = dc_server dc\<rparr>)))))))"

section \<open>unregister\<close>

definition arrow :: string where
  "arrow = [CHR '' '', CHR 0xE2, CHR 0x86, CHR 0x92, CHR '' '']"

definition unregister_message :: "runner_state \<Rightarrow> config result \<Rightarrow> string" where
  "unregister_message st cfg =
     ''Runner '' @ quoted (rs_name st) @ '' unregistered locally.'' @ [CHR 0x0A]
     @ ''You may also remove it from Gitea'' @ [CHR 0x27] @ ''s web UI:'' @ [CHR 0x0A] @ ''  ''
     @ (case cfg of Inr c \<Rightarrow> gitea_url c | Inl _ \<Rightarrow> ''<gitea_url>'')
     @ arrow @ ''Site Administration'' @ arrow @ ''Actions'' @ arrow @ ''Runners'' @ [CHR 0x0A]"

text \<open>The state, when there is one that is not empty; an unreadable one counts as none.\<close>

definition unregister_state :: "program_world \<Rightarrow> (string \<rightharpoonup> string) \<Rightarrow> runner_state option" where
  "unregister_state w fs =
     (if fs (pw_state_path w) = None then None
      else case loadRunnerState (pw_jparse w) (pw_state_path w) fs of
        Inl _ \<Rightarrow> None
      | Inr st \<Rightarrow> if runner_state_empty st then None else Some st)"

definition cleared_config :: "config \<Rightarrow> config" where
  "cleared_config cfg = cfg\<lparr>cfg_runner_token := [], cfg_name := []\<rparr>"

definition cmdUnregister :: "program_world \<Rightarrow> args \<Rightarrow> int cli" where
  "cmdUnregister w a =
     sbind (sget ps_files) (\<lambda>fs.
     let path = config_file_of (pw_config_path w) a; cfg = read_config w path fs in
     case unregister_state w fs of
       None \<Rightarrow> sbind (print_err (''No runner state found at: '' @ pw_state_path w @ [CHR 0x0A] @ ''Nothing to unregister.'' @ [CHR 0x0A]))
                 (\<lambda>_. sret 0)
     | Some st \<Rightarrow>
         if \<not> pw_removable w (pw_state_path w) then sret 1
         else
           sbind (smod (\<lambda>s. s\<lparr>ps_files := (ps_files s)(pw_state_path w := None)\<rparr>)) (\<lambda>_.
           sbind (case cfg of Inr c \<Rightarrow> sbind (write_config w (cleared_config c) path) (\<lambda>_. sret ()) | Inl _ \<Rightarrow> sret ()) (\<lambda>_.
           sbind (print_out (unregister_message st cfg)) (\<lambda>_. sret 0))))"

section \<open>main\<close>

datatype command_kind = Do_register | Do_watchdog | Do_daemon | Do_run | Do_unregister | Do_version | Do_usage int

definition dispatch :: "args \<Rightarrow> command_kind" where
  "dispatch a =
     (if command a = ''register'' then Do_register
      else if command a = ''daemon'' then (if \<not> watchdog_child a then Do_watchdog else Do_daemon)
      else if command a = ''run'' then Do_run
      else if command a = ''unregister'' then Do_unregister
      else if command a = ''version'' then Do_version
      else Do_usage (if command a = ''help'' \<and> \<not> implicit_help a then 0 else 1))"

text \<open>\<^verbatim>\<open>main\<close>: \<^const>\<open>Inl\<close> is the text of an argument error, with the exit code 1.\<close>

definition main_command :: "string list \<Rightarrow> string + command_kind \<times> args" where
  "main_command argv =
     (case parseArgs argv of
        Inl e \<Rightarrow> Inl (''Argument error: '' @ what e @ [CHR 0x0A])
      | Inr a \<Rightarrow> Inr (dispatch a, a))"

definition version_line :: "string \<Rightarrow> string" where
  "version_line v = ''haiku-act-runner '' @ cleanVersion v @ [CHR 0x0A]"
section \<open>What registration leaves behind\<close>

lemma sbind_try_rpc:
  "sbind (try_rpc m) k s = Some (EOk y, s') \<longleftrightarrow>
     (\<exists>x. m = Some (POk x) \<and> k (Inr x) s = Some (EOk y, s')) \<or> (\<exists>e. m = Some (PThrow e) \<and> k (Inl e) s = Some (EOk y, s'))"
  by (auto simp: try_rpc_def sbind_def slift_def split: option.splits presult.splits)

text \<open>The end of the command, once the server has accepted the runner.\<close>

definition finish_register :: "program_world \<Rightarrow> args \<Rightarrow> config \<Rightarrow> runner_state \<Rightarrow> int cli" where
  "finish_register w a cfg st =
     sbind (write_state w st) (\<lambda>r.
     case r of Inl _ \<Rightarrow> sret 1
     | Inr _ \<Rightarrow>
       sbind (write_config w (registered_config cfg st) (config_file_of (pw_config_path w) a)) (\<lambda>_.
       sbind (print_out (register_message st)) (\<lambda>_. sret 0)))"

lemma cmdRegister_cases:
  assumes "cmdRegister w a s = Some (EOk code, s')"
  obtains (refused) "code = 1" "s' = s"
  | (accepted) reg where "register_call w a (ps_files s) = Some (POk reg)" "runner_token reg \<noteq> []"
      "arg_url a \<noteq> []" "reg_token a \<noteq> []"
      "finish_register w a (register_config w a (ps_files s))
         (registered_state w a (register_config w a (ps_files s)) reg) s = Some (EOk code, s')"
  using assms
  by (auto simp: cmdRegister_def Let_def sbind_try_rpc finish_register_def [symmetric] split: if_splits)

definition state_tmp :: "program_world \<Rightarrow> string" where
  "state_tmp w = pw_state_path w @ ''.tmp''"

lemma finish_register_ok:
  assumes "finish_register w a cfg st s = Some (EOk code, s')"
  shows "code = 1 \<and> (\<forall>p. p \<noteq> state_tmp w \<longrightarrow> ps_files s' p = ps_files s p) \<and> ps_out s' = ps_out s
    \<or> code = 0 \<and> (let path = config_file_of (pw_config_path w) a; doc = pw_emit w (config_node (registered_config cfg st)) @ [CHR 0x0A] in
         pw_writable w path \<longrightarrow> ps_files s' path = Some doc)
       \<and> (pw_state_path w \<noteq> config_file_of (pw_config_path w) a \<longrightarrow>
            ps_files s' (pw_state_path w) = Some (pw_jdump w (state_doc st) @ [CHR 0x0A]))"
  using assms
  by (auto simp: finish_register_def write_state_def write_config_def saveRunnerState_def saveConfig_def sbind_def Let_def
      state_tmp_def print_out_def split: if_splits option.splits eres.splits prod.splits sum.splits)

text \<open>
  C39. A registration ends with 0 or 1.  When it fails, whatever the server and the file system did, no
  configuration or state file has changed (at most the temporary file of the state is left) and nothing was printed.
\<close>

theorem failed_registration_changes_nothing:
  assumes "cmdRegister w a s = Some (EOk code, s')" "code \<noteq> 0" "p \<noteq> state_tmp w"
  shows "code = 1 \<and> ps_files s' p = ps_files s p \<and> ps_out s' = ps_out s"
  using assms(1)
proof (cases rule: cmdRegister_cases)
  case (accepted reg)
  from finish_register_ok [OF this(5)] assms(2,3) show ?thesis by auto
qed simp

lemma register_config_labels: "l \<in> set (cfg_labels (register_config w a fs)) \<Longrightarrow> CHR '':'' \<notin> set (executor l)"
proof -
  have "loadConfig y path t = Inr c \<Longrightarrow> wf_config c" for y path t c
    by (auto simp: loadConfig_def intro: load_config_node_wf split: sum.splits)
  then have "\<forall>l \<in> set (cfg_labels c). CHR '':'' \<notin> set (executor l)" if "read_config w path fs = Inr c" for path c
    using that by (auto simp: read_config_def wf_config_def split: option.splits if_splits)
  then show "l \<in> set (cfg_labels (register_config w a fs)) \<Longrightarrow> CHR '':'' \<notin> set (executor l)"
    by (auto simp: register_config_def Let_def default_config_def split: sum.splits if_splits)
qed

lemma read_saved_config:
  assumes "yaml_ok (pw_yaml w)" "\<And>l. l \<in> set (cfg_labels cfg) \<Longrightarrow> CHR '':'' \<notin> set (executor l)"
    "yaml_load (pw_yaml w) (pw_emit w (config_node cfg) @ [CHR 0x0A]) = Inr (config_node cfg)"
    "pw_readable w path" "fs path = Some (pw_emit w (config_node cfg) @ [CHR 0x0A])"
  shows "read_config w path fs =
    Inr (clamp_capacity (default_labels (cfg\<lparr>gitea_url := strip_slashes (gitea_url cfg), cache_url_runtime := []\<rparr>)))"
  using assms load_config_node_written [OF assms(1), of cfg] by (simp add: read_config_def loadConfig_def)

lemma loaded_fields:
  "gitea_url (clamp_capacity (default_labels c)) = gitea_url c" "insecure (clamp_capacity (default_labels c)) = insecure c"
  "cfg_uuid (clamp_capacity (default_labels c)) = cfg_uuid c" "cfg_name (clamp_capacity (default_labels c)) = cfg_name c"
  "cfg_runner_token (clamp_capacity (default_labels c)) = cfg_runner_token c"
  "labelStrings (clamp_capacity (default_labels c)) =
     (if cfg_labels c = [] then [''haiku:host'', ''haiku-latest:host''] else labelStrings c)"
  by (auto simp: clamp_capacity_def default_labels_def Let_def labelStrings_def label_string_def)

lemma daemon_options_fields [simp]:
  "gitea_url (daemon_options a c) = gitea_url c" "cfg_uuid (daemon_options a c) = cfg_uuid c"
  "cfg_name (daemon_options a c) = cfg_name c" "cfg_runner_token (daemon_options a c) = cfg_runner_token c"
  "labelStrings (daemon_options a c) = labelStrings c" "insecure (daemon_options a c) = (arg_insecure a \<or> insecure c)"
  by (simp_all add: daemon_options_def labelStrings_def Let_def)

text \<open>A registration with a server that knows no Declare, without a configuration file, and with \<^verbatim>\<open>--labels mac:host\<close>.\<close>

definition demo_registration :: register_result where
  "demo_registration = \<lparr>runner_token = ''t'', rr_uuid = ''u'', rr_name = ''n'', rr_labels = []\<rparr>"

definition demo_registered :: config where
  "demo_registered = default_config\<lparr>gitea_url := ''http://g/'', cfg_name := ''n'', cfg_runner_token := ''t'', cfg_uuid := ''u''\<rparr>"

definition demo_program :: program_world where
  "demo_program = \<lparr>pw_yaml = demo_yaml\<lparr>yaml_load := (\<lambda>_. Inr (config_node demo_registered))\<rparr>, pw_emit = (\<lambda>_. ''doc''),
     pw_bad_file = (\<lambda>p. p), pw_jparse = (\<lambda>_. Inr (JDObj [(''token'', JDStr ''t''), (''uuid'', JDStr ''u'')])),
     pw_jdump = (\<lambda>_. ''doc''), pw_readable = (\<lambda>_. True), pw_writable = (\<lambda>_. True), pw_renamable = (\<lambda>_. True),
     pw_removable = (\<lambda>_. True), pw_addr = (\<lambda>_. 4096),
     pw_http = (\<lambda>i _. if i = 0 then Http_response 200 (render_register_response demo_registration) else Curl_init_failed),
     pw_hostname = None, pw_config_path = ''config.yaml'', pw_state_path = ''.runner'',
     pw_cache = \<lparr>cw_json = \<lparr>json_parse = (\<lambda>_. Inr J_null), json_read = (\<lambda>_. Inr J_null), json_dump = (\<lambda>_ _. Inr []), json_float_int = (\<lambda>_. 0)\<rparr>,
       cw_mkdirs = (\<lambda>_. False), cw_writable = (\<lambda>_. True), cw_write = (\<lambda>_ _ n. int n), cw_rename = (\<lambda>_ _. True),
       cw_copy = (\<lambda>_ _. None), cw_remove = (\<lambda>_. True), cw_survives = (\<lambda>_ _. False), cw_daemon = Some\<rparr>,
     pw_cache_dir = ''/c'', pw_now = 0\<rparr>"

definition demo_register_args :: args where
  "demo_register_args = new_args\<lparr>command := ''register'', arg_url := ''http://g/'', reg_token := ''x'', arg_labels := [''mac:host'']\<rparr>"

definition demo_cli :: cli_state where
  "demo_cli = \<lparr>ps_files = Map.empty, ps_out = [], ps_err = []\<rparr>"

lemma demo_register_config: "register_config demo_program demo_register_args Map.empty = default_config\<lparr>gitea_url := ''http://g/''\<rparr>"
  by (simp add: register_config_def read_config_def demo_register_args_def Let_def new_args_def default_config_def)

lemma demo_register_call: "register_call demo_program demo_register_args Map.empty = Some (POk demo_registration)"
proof -
  have "length (render_register_response demo_registration) < 200" by code_simp
  then have "fits (render_register_response demo_registration)" by (simp add: fits_def)
  moreover have "addr_ok (pw_addr demo_program)" by (simp add: addr_ok_def demo_program_def)
  ultimately show ?thesis
    unfolding register_call_def Let_def by (intro registerRunner_answer) (simp_all add: demo_program_def)
qed

lemma demo_registered_config:
  "registered_config (default_config\<lparr>gitea_url := ''http://g/''\<rparr>)
     (registered_state demo_program demo_register_args (default_config\<lparr>gitea_url := ''http://g/''\<rparr>) demo_registration) = demo_registered"
  by (simp add: registered_config_def registered_state_def demo_registration_def demo_registered_def default_config_def)

lemma demo_register_runs: "\<exists>s'. cmdRegister demo_program demo_register_args demo_cli = Some (EOk 0, s')"
proof -
  have "rpc_declare a (pw_http demo_program 1) cl ls v = Some (PThrow (Runtime_error ''curl_easy_init() failed in doRPC''))" for a cl ls v
    by (simp add: rpc_declare_def with_response_def doRPC_def doRPC_url_def demo_program_def)
  then show ?thesis
    by (simp add: cmdRegister_def demo_cli_def demo_register_call Let_def try_rpc_def demo_register_args_def [THEN arg_cong, of arg_url]
        demo_register_args_def [THEN arg_cong, of reg_token] demo_registration_def [THEN arg_cong, of runner_token]
        write_state_def write_config_def saveRunnerState_def saveConfig_def demo_program_def [THEN arg_cong, of pw_writable]
        demo_program_def [THEN arg_cong, of pw_renamable] print_out_def new_args_def sbind_def)
qed

theorem failed_registration_changes_nothing_witness:
  "cmdRegister demo_program (demo_register_args\<lparr>reg_token := []\<rparr>) demo_cli = Some (EOk 1, demo_cli)
   \<and> ps_files demo_cli ''config.yaml'' = None"
proof -
  have r: "cmdRegister demo_program (demo_register_args\<lparr>reg_token := []\<rparr>) demo_cli = Some (EOk 1, demo_cli)"
    by (simp add: cmdRegister_def)
  from failed_registration_changes_nothing [OF r, of "''config.yaml''"] r show ?thesis
    by (simp add: state_tmp_def demo_program_def demo_cli_def)
qed

section \<open>What unregistering leaves behind\<close>


definition demo_cleared :: program_world where
  "demo_cleared = demo_program\<lparr>pw_yaml := demo_yaml\<lparr>yaml_load := (\<lambda>_. Inr (config_node (cleared_config demo_config)))\<rparr>\<rparr>"

definition demo_registered_cli :: cli_state where
  "demo_registered_cli = demo_cli\<lparr>ps_files := [''config.yaml'' \<mapsto> ''c'', ''.runner'' \<mapsto> ''r'']\<rparr>"


text \<open>
  An identity that stands only in the configuration is not removed: without a state file nothing changes.
\<close>

lemma unregister_needs_state_file:
  "ps_files s (pw_state_path w) = None \<Longrightarrow> \<exists>s'. cmdUnregister w a s = Some (EOk 0, s') \<and> ps_files s' = ps_files s"
  by (simp add: cmdUnregister_def unregister_state_def Let_def print_err_def)

text \<open>
  When purging fails the server is destroyed, but the configuration keeps its address.
\<close>

lemma purge_failure_keeps_url:
  assumes "cache_enabled cfg" "0 < cache_max_age_days cfg"
    "new_cache_server (pw_cache w) (if cache_dir cfg = [] then pw_cache_dir w else cache_dir cfg) (cache_host cfg)
       (nat (cache_port cfg mod 2 ^ 16)) fs = Some (EOk (), s1)"
    "cs_start (pw_cache w) s1 = Some (EOk (), s2)"
    "purgeOlderThan (pw_cache w) (pw_now w) (cache_max_age_days cfg) s2 = Some (EThrow e, s3)"
  shows "start_cache w cfg fs = Some (EOk \<lparr>dc_url = baseUrl s2, dc_server = None\<rparr>, cs_files s3)"
  using assms by (simp add: start_cache_def Let_def)
end
