(* ===== verification/Spec2Isabelle.thy ===== *)
theory Spec2Isabelle
  imports Matrix_Expander Orchestrator Poller Task_Executor Cache_Restart Action_Nesting Action_Javascript Action_Checkout Logger Gitea_Client Command_Line Local_Run Watchdog Commands
begin

text \<open>
  A verification development for the haiku-gitea-runner: a daemon that registers with a Gitea server,
  fetches tasks over a protobuf protocol, runs the steps of a job as child processes, and streams the
  masked output back; the same code runs whole workflow files locally.

  \<^bold>\<open>How the program works.\<close>  The poller (\<^verbatim>\<open>Poller.cpp\<close>) asks the server for tasks through the runner client
  (\<^verbatim>\<open>RunnerClient.cpp\<close>) and hands each to a bounded pool of workers.  A worker runs the task executor
  (\<^verbatim>\<open>TaskExecutor.cpp\<close>): it parses the payload (\<^verbatim>\<open>WorkflowParser.cpp\<close>), builds the expression context
  (\<^verbatim>\<open>ContextBuilder.cpp\<close>), expands the matrix, and runs each step (\<^verbatim>\<open>StepRunner.cpp\<close>), which evaluates
  conditions and interpolates text (\<^verbatim>\<open>ExprEvaluator.cpp\<close>), writes a script and spawns it
  (\<^verbatim>\<open>ProcessSpawner.cpp\<close>), and collects what the step wrote to its files (\<^verbatim>\<open>EnvManager.cpp\<close>).  Lines of output
  go to the log forwarder (\<^verbatim>\<open>LogForwarder.cpp\<close>).  The local mode parses a workflow file and gives it to the
  orchestrator (\<^verbatim>\<open>WorkflowOrchestrator.cpp\<close>), which orders the jobs (\<^verbatim>\<open>JobGraph.cpp\<close>) and runs a task executor
  for each.

  \<^bold>\<open>Theories and sources\<close> (paths under \<^verbatim>\<open>src/src\<close>).
  \<^item> \<open>Prelude\<close>: strings, ordered maps (\<^verbatim>\<open>std::map\<close>, \<^verbatim>\<open>std::unordered_map\<close> as key-value lists), exceptions as
    values, runs of step relations (\<open>runs\<close>) and the locale \<open>step_invariant\<close>, interpreted for each state machine.
  \<^item> \<open>Exec_Monad\<close>: state, exception, undefined behaviour and divergence for the executor's code.
  \<^item> \<open>Workflow_Types\<close>, \<open>Yaml_Nodes\<close>, \<open>Workflow_Parser\<close> (\<^verbatim>\<open>workflow/WorkflowParser\<close>): the structs of a workflow,
    the documents of yaml-cpp, reading and validating.  Shown: what every accepted workflow satisfies, and
    that validation is silent exactly for the runnable ones.
  \<^item> \<open>Job_Graph\<close> (\<^verbatim>\<open>runner/JobGraph\<close>): Kahn's algorithm and the wave schedule.  Shown: total, correct order,
    exact cycle flag, earliest waves.
  \<^item> \<open>Matrix_Expander\<close> (\<^verbatim>\<open>workflow/MatrixExpander\<close>): expansion equals the cross product; include and exclude.
  \<^item> \<open>Env_Manager\<close> (\<^verbatim>\<open>process/EnvManager\<close>): the output, env, path, state and summary files; parsing is inverse to
    writing.
  \<^item> \<open>Log_Forwarder\<close> (\<^verbatim>\<open>runner/LogForwarder\<close>): masking, queue, worker, batch sender; masking against a
    reference, order and masking of every row under every interleaving, indices of the sender.
  \<^item> \<open>Proto_Wire\<close>, \<open>Runner_Client\<close> (\<^verbatim>\<open>client/RunnerClient\<close>): the wire format over 64-bit addresses, encoders,
    decoders, RPC methods; round trips and injectivity, and an input on which decoding does not end.
  \<^item> \<open>Cxx_Double\<close>, \<open>Expr_Evaluator\<close> (\<^verbatim>\<open>workflow/ExprEvaluator\<close>): doubles, values, tokenizer, recursive-descent
    parser (\<^theory_text>\<open>partial_function (option)\<close>: \<^const>\<open>None\<close> is a parser that never returns), functions,
    interpolation; the parser returns, literals round-trip.
  \<^item> \<open>Context_Builder\<close> (\<^verbatim>\<open>workflow/ContextBuilder\<close>): the namespaces of the context do not overlap.
  \<^item> \<open>Config\<close> (\<^verbatim>\<open>config/Config\<close>, \<^verbatim>\<open>config/RunnerState\<close>): loading, saving and their round trips.
  \<^item> \<open>Process_Spawner\<close> (\<^verbatim>\<open>process/ProcessSpawner\<close>): environment, argument vector, output splitting, watchdog.
  \<^item> \<open>Step_Runner\<close>, \<open>Task_Executor\<close> (\<^verbatim>\<open>runner/StepRunner\<close>, \<^verbatim>\<open>runner/TaskExecutor\<close>): one step and one task; time
    limits, environment, order of steps, exactly one final report.
  \<^item> \<open>Orchestrator\<close> (\<^verbatim>\<open>runner/WorkflowOrchestrator\<close>): the run over waves and batches, and cancellation as a
    state machine over the registered executors.
  \<^item> \<open>Poller\<close> (\<^verbatim>\<open>runner/Poller\<close>): poll thread, pool and semaphore as a state machine; slots, tasks, progress.
  \<^item> This theory: properties that span components.
  \<^item> \<open>Json_Nodes\<close>, \<open>Cxx_Numbers\<close>: the documents of nlohmann::json and the \<^verbatim>\<open>strtoll\<close> family, as the code uses them.
  \<^item> \<open>Cache_Server\<close>, \<open>Cache_Store\<close>, \<open>Cache_Roundtrip\<close>, \<open>Cache_Restart\<close> (\<^verbatim>\<open>cache/CacheServer\<close>): the HTTP handlers of
    the local cache and artifact store, its index files and their reader.  Shown: every path it touches is
    inside its directory, an upload in any pieces is downloaded unchanged, lookups honour key order and
    prefixes, and a restart finds everything that was committed.
  \<^item> \<open>Action_Cache\<close>, \<open>Action_Runner\<close> (\<^verbatim>\<open>action/ActionRunner\<close>): references, downloads, \<^verbatim>\<open>action.yml\<close>, the built-in
    checkout, composite actions nested to the depth limit of the code, JavaScript actions and their deferred
    scripts; \<open>step_action\<close> is the field the step runner calls.  \<open>Action_Termination\<close>: every action ends, cycles
    are cut off.  \<open>Action_Nesting\<close>: at most one script is deferred.  \<open>Action_Javascript\<close>: what the process sees.
    \<open>Action_Checkout\<close>: a skipped checkout, and a failed fetch leaves nothing that looks cached.
  \<^item> \<open>Logger\<close> (\<^verbatim>\<open>util/Logger\<close>): levels, lines and timestamps.  Shown: one line per enabled message, in order, and
    an abort exactly on a fatal one.  \<open>Gitea_Client\<close> (\<^verbatim>\<open>client/GiteaClient\<close>): the REST calls of the registration
    token and the ping.
  \<^item> \<open>Command_Line\<close> (\<^verbatim>\<open>main.cpp\<close>, \<^verbatim>\<open>parseArgs\<close>): from argument vectors to options and back, and what every parsed
    command line satisfies.
  \<^item> \<open>Local_Run\<close> (\<^verbatim>\<open>main.cpp\<close>, \<^verbatim>\<open>cmdRun\<close>): the job filter, the attempts and the exit code, on top of the parser, the
    orchestrator and the cache server.  Shown: \<^verbatim>\<open>--job\<close> selects the transitive needs; the run ends and its exit
    code is the verdict of the last attempt.
  \<^item> \<open>Watchdog\<close> (\<^verbatim>\<open>main.cpp\<close>, \<^verbatim>\<open>runWatchdog\<close>): a round of the loop is what the parent observes in it.  Shown: every crash
    is followed by a restart within a minute, and the loop ends only on a signal or a clean end.
  \<^item> \<open>Commands\<close> (\<^verbatim>\<open>main.cpp\<close>): \<^verbatim>\<open>register\<close>, \<^verbatim>\<open>daemon\<close> up to the construction of the poller, \<^verbatim>\<open>unregister\<close> and the dispatch
    of \<^verbatim>\<open>main\<close>.  Shown: the daemon finds the identity of the registration, a failed registration changes nothing,
    and after unregistering the daemon refuses to start.

  \<^bold>\<open>Modelling conventions.\<close>  An exception is \<^const>\<open>Inl\<close> of an error, or \<open>EThrow\<close>; undefined behaviour (signed
  overflow, reads past a buffer) is a value of its own in the results of the evaluator and the executor.
  Threads are step relations in which each step is what one thread does while it holds the lock; a
  property holds for every sequence of steps.  The iteration order of a \<^verbatim>\<open>std::unordered_map\<close> is a parameter
  that permutes the keys.

  \<^bold>\<open>Parameters.\<close>  yaml-cpp (\<open>yaml_api\<close>), nlohmann::json, libcurl, SHA-256, the file system calls \<^verbatim>\<open>glob\<close> and
  \<^verbatim>\<open>fnmatch\<close>, the operating system's processes and clocks, the server are arguments of
  the definitions.  What a theorem needs of them is one of its hypotheses, and its witness instantiates them.

  \<^bold>\<open>Bounds and fuel.\<close>  No definition is cut off by fuel that a run could exhaust: loops that may not end are
  \<^theory_text>\<open>partial_function (option)\<close>, the others have termination proofs, and the three attempts of the batch
  sender and the limits of the pool are constants of the code.

  \<^bold>\<open>Not modelled.\<close>  The recovery from SIGSEGV inside a task by \<^verbatim>\<open>siglongjmp\<close> and the handlers of Haiku's own signals
  (\<^verbatim>\<open>main.cpp\<close>, \<^verbatim>\<open>Poller.cpp\<close>): they act below the level of the language's semantics, and a signal of the user is the
  shutdown flag the loops read.  The system calls behind a child process (pipes, \<^verbatim>\<open>posix_spawn\<close>, \<^verbatim>\<open>load_image\<close>,
  \<^verbatim>\<open>waitpid\<close>), behind an HTTP exchange (libcurl, libmicrohttpd) and behind files: their outcomes are parameters.
  The usage text, the \<^verbatim>\<open>LOG_\<close> lines of the components (the logger itself is modelled), and the default paths of the
  configuration and state files, which are environment lookups without logic.
\<close>

section \<open>Secrets, from the task to the server\<close>



section \<open>Workflows, from the file to the verdict\<close>

text \<open>
  C2. The local run composes: a workflow that the parser accepts, that passes validation and whose
  needs are acyclic is run to the end and reported as a success when every job succeeds and nothing
  is cancelled, and then every job of the file was executed exactly once.
\<close>

theorem parsed_workflow_runs:
  assumes parsed: "parseWorkflow y text = Inr w" and valid: "validateWorkflow w = []"
    and ac: "acyclic (needs_rel (wf_jobs w))" and perm: "permuting umap_order"
    and rp: "rp_jobs rp = wf_jobs w" "\<forall>i. \<not> rp_cancelled rp i" "\<forall>t. \<exists>outs. rp_execute rp t = Inr (True, outs)"
  shows "\<exists>res bs. orch_run umap_order rp sq = Inr (res, bs) \<and> or_success res
    \<and> mset (concat bs) = mset (map fst (wf_jobs w)) \<and> map lr_job_id (or_job_results res) = concat bs"
proof -
  have ok: "omap_ok (rp_jobs rp)" using parseWorkflow_jobs_ok [OF parsed] rp(1) by simp
  have nd: "needs_defined (rp_jobs rp)" using validateWorkflow_needs [OF valid] rp(1) by simp
  show ?thesis using orch_run_all_ok [OF ok perm nd _ rp(2,3), of sq] ac rp(1) by simp
qed

theorem parsed_workflow_runs_witness:
  "\<exists>res bs. orch_run (\<lambda>ks. ks) (demo_params (\<lambda>_. Inr (True, []))\<lparr>rp_jobs := [(''build'', demo_build)]\<rparr>) 1 = Inr (res, bs) \<and> or_success res"
proof -
  let ?rp = "demo_params (\<lambda>_. Inr (True, []))\<lparr>rp_jobs := [(''build'', demo_build)]\<rparr>"
  let ?w = "\<lparr>wf_name = [], wf_triggers = [], wf_env = [], wf_default_shell = [], wf_default_working_dir = [],
    wf_jobs = [(''build'', demo_build)], wf_concurrency = [], wf_concurrency_cancel_in_progress = False\<rparr>"
  have "validateWorkflow ?w = []" by code_simp
  moreover have "needs_rel (wf_jobs ?w) = {}"
    by (auto simp: needs_rel_def needs_of_def omap_get_def demo_build_def default_job_def)
  then have "acyclic (needs_rel (wf_jobs ?w))" by (simp add: acyclic_def)
  moreover have "rp_jobs ?rp = wf_jobs ?w" "\<forall>i. \<not> rp_cancelled ?rp i" "\<forall>t. \<exists>outs. rp_execute ?rp t = Inr (True, outs)"
    by (simp_all add: demo_params_def)
  ultimately show ?thesis
    using parsed_workflow_runs [OF demo_workflow_yaml_parsed _ _ demo_params_ok(2), of ?rp 1] by blast
qed

end
